(* ===== verification/Prelude.thy ===== *)
theory Prelude
  imports Main "HOL-Library.Word"
begin

text \<open>
  Shared vocabulary of the development.

  The C and C++ facilities that the modelled sources use everywhere are collected here: the
  machine word types, decimal printing (\<open>std::to_string\<close>), the padded printing of
  \<open>std::setw(2) << std::setfill('0')\<close>, the FNV-1a byte loop (three copies of it exist under
  \<open>src/shorturl\<close>), ASCII case folding as \<open>strcasecmp\<close> does it, and the
  lexicographic order of \<open>std::string\<close>.  The generic lemmas on lists, options and words that
  several components need are proved once here and put in the collections declared below.
\<close>

unbundle bit_operations_syntax

named_theorems wf_intros \<open>operations keep the well-formedness invariant of their component\<close>
named_theorems frame_simps \<open>fields an operation leaves alone\<close>

type_synonym u8 = "8 word"
type_synonym u64 = "64 word"

section \<open>Results that may carry an escaping exception\<close>

text \<open>
  A C++ function that can throw is a function into \<open>exn + 'a\<close>; \<open>Inl\<close> is the exception that
  leaves the function.  The constructors are the exception types the modelled sources can meet.
\<close>

datatype exn =
    JsonParseError       \<comment> \<open>\<open>nlohmann::json::parse_error\<close>\<close>
  | JsonOutOfRange       \<comment> \<open>\<open>nlohmann::json::out_of_range\<close>\<close>
  | JsonTypeError        \<comment> \<open>\<open>nlohmann::json::type_error\<close>\<close>
  | RuntimeError string  \<comment> \<open>\<open>std::runtime_error\<close>\<close>

section \<open>Decimal printing\<close>

definition digit_char :: "nat \<Rightarrow> char" where
  "digit_char d = char_of (48 + d)"

fun dec_digits :: "nat \<Rightarrow> string" where
  "dec_digits n =
     (if n < 10 then [digit_char n] else dec_digits (n div 10) @ [digit_char (n mod 10)])"

declare dec_digits.simps [simp del]

text \<open>\<open>std::to_string\<close> on signed integers.\<close>

definition to_string :: "int \<Rightarrow> string" where
  "to_string i = (if i < 0 then CHR ''-'' # dec_digits (nat (- i)) else dec_digits (nat i))"

definition is_digit :: "char \<Rightarrow> bool" where
  "is_digit c \<longleftrightarrow> 48 \<le> (of_char c :: nat) \<and> (of_char c :: nat) \<le> 57"

definition digit_value :: "char \<Rightarrow> nat" where
  "digit_value c = of_char c - 48"

text \<open>The number a digit string denotes, most significant digit first.\<close>

definition dec_value :: "string \<Rightarrow> nat" where
  "dec_value s = foldl (\<lambda>acc c. acc * 10 + digit_value c) 0 s"

lemma of_char_digit_char [simp]: "d < 10 \<Longrightarrow> (of_char (digit_char d) :: nat) = 48 + d"
  by (simp add: digit_char_def)

lemma is_digit_digit_char [simp]: "d < 10 \<Longrightarrow> is_digit (digit_char d)"
  by (simp add: is_digit_def)

lemma digit_value_digit_char [simp]: "d < 10 \<Longrightarrow> digit_value (digit_char d) = d"
  by (simp add: digit_value_def)

lemma dec_value_snoc [simp]: "dec_value (s @ [c]) = dec_value s * 10 + digit_value c"
  by (simp add: dec_value_def)

lemma dec_value_Nil [simp]: "dec_value [] = 0"
  by (simp add: dec_value_def)

lemma dec_digits_are_digits: "c \<in> set (dec_digits n) \<Longrightarrow> is_digit c"
proof (induction n rule: dec_digits.induct)
  case (1 n)
  then show ?case
    by (cases "n < 10") (auto simp: dec_digits.simps [of n])
qed

lemma dec_digits_nonempty [simp]: "dec_digits n \<noteq> []"
  by (subst dec_digits.simps) simp

lemma dec_value_dec_digits [simp]: "dec_value (dec_digits n) = n"
proof (induction n rule: dec_digits.induct)
  case (1 n)
  show ?case
  proof (cases "n < 10")
    case True
    then show ?thesis
      using dec_value_snoc [of "[]" "digit_char n"] by (simp add: dec_digits.simps [of n])
  next
    case False
    with 1 show ?thesis by (simp add: dec_digits.simps [of n])
  qed
qed

lemma dec_digits_inject [simp]: "dec_digits m = dec_digits n \<longleftrightarrow> m = n"
  by (metis dec_value_dec_digits)

text \<open>\<open>oss << std::setw(2) << std::setfill('0') << index\<close> for a non-negative index.\<close>

definition setw2 :: "nat \<Rightarrow> string" where
  "setw2 n = (let s = dec_digits n in replicate (2 - length s) CHR ''0'' @ s)"

lemma is_digit_zero [simp]: "is_digit CHR ''0''"
  by (simp add: is_digit_def)

lemma setw2_digits: "c \<in> set (setw2 n) \<Longrightarrow> is_digit c"
  by (auto simp: setw2_def Let_def dest: dec_digits_are_digits)

lemma dec_value_zeros: "dec_value (replicate k CHR ''0'' @ s) = dec_value s"
  by (induction k) (auto simp: dec_value_def digit_value_def)

lemma setw2_inject [simp]: "setw2 m = setw2 n \<longleftrightarrow> m = n"
proof
  assume "setw2 m = setw2 n"
  then have "dec_value (setw2 m) = dec_value (setw2 n)" by simp
  then show "m = n" by (simp add: setw2_def Let_def dec_value_zeros)
qed simp

section \<open>The FNV-1a loop\<close>

text \<open>
  \<^verbatim>\<open>for (unsigned char c : s) { h ^= c; h *= 1099511628211ULL; }\<close>
  appears in \<open>BloomFilter::hash\<close>, \<open>ShardRouter::hash_code\<close> and
  \<open>LocalUrlCache::shard_index\<close>, each time from a basis of its own.
\<close>

definition fnv_prime :: u64 where
  "fnv_prime = 1099511628211"

definition fnv_basis :: u64 where
  "fnv_basis = 1469598103934665603"

fun fnv_loop :: "u64 \<Rightarrow> string \<Rightarrow> u64" where
  "fnv_loop h [] = h"
| "fnv_loop h (c # s) = fnv_loop ((h XOR of_char c) * fnv_prime) s"

text \<open>\<open>std::atoi\<close>: optional white space, a sign and the longest run of digits.\<close>

definition atoi :: "string \<Rightarrow> int" where
  "atoi s =
     (let r = dropWhile (\<lambda>c. c = CHR '' '' \<or> (9 \<le> (of_char c :: nat) \<and> (of_char c :: nat) \<le> 13)) s
      in case r of
           [] \<Rightarrow> 0
         | c # r' \<Rightarrow> if c = CHR ''-'' then - int (dec_value (takeWhile is_digit r'))
                     else if c = CHR ''+'' then int (dec_value (takeWhile is_digit r'))
                     else int (dec_value (takeWhile is_digit r)))"

section \<open>Case-insensitive comparison\<close>

text \<open>\<open>tolower\<close> of the C locale, the one \<open>strcasecmp\<close> and \<open>strncasecmp\<close> fold with.\<close>

definition tolower :: "char \<Rightarrow> char" where
  "tolower c =
     (let n = (of_char c :: nat) in if 65 \<le> n \<and> n \<le> 90 then char_of (n + 32) else c)"

definition strcaseeq :: "string \<Rightarrow> string \<Rightarrow> bool" where
  "strcaseeq s t \<longleftrightarrow> map tolower s = map tolower t"

text \<open>\<open>strncasecmp(s, lit, n) == 0\<close> for a literal of length \<open>n\<close>.\<close>

definition strncaseeq :: "string \<Rightarrow> string \<Rightarrow> bool" where
  "strncaseeq s lit \<longleftrightarrow> map tolower (take (length lit) s) = map tolower lit"

lemma strncaseeq_append: "strncaseeq (lit @ s) lit"
  by (simp add: strncaseeq_def)

lemma strncaseeq_length: "strncaseeq s lit \<Longrightarrow> length lit \<le> length s"
  unfolding strncaseeq_def by (metis length_map length_take min.cobounded1 min_def)

lemma strcaseeq_refl [simp]: "strcaseeq s s"
  by (simp add: strcaseeq_def)

text \<open>\<open>std::string::operator<=\<close>: lexicographic on unsigned bytes.\<close>

fun str_le :: "string \<Rightarrow> string \<Rightarrow> bool" where
  "str_le [] t = True"
| "str_le (a # s) [] = False"
| "str_le (a # s) (b # t) =
     ((of_char a :: nat) < of_char b \<or> (a = b \<and> str_le s t))"

lemma str_le_refl [simp]: "str_le s s"
  by (induction s) auto

lemma str_le_trans: "str_le s t \<Longrightarrow> str_le t u \<Longrightarrow> str_le s u"
proof (induction s t arbitrary: u rule: str_le.induct)
  case (3 a s b t)
  then show ?case by (cases u) auto
qed auto

text \<open>\<open>s.compare(0, n, lit) == 0\<close> for a literal of length \<open>n\<close>.\<close>

definition starts_with :: "string \<Rightarrow> string \<Rightarrow> bool" where
  "starts_with s lit \<longleftrightarrow> take (length lit) s = lit"

lemma starts_with_append [simp]: "starts_with (lit @ s) lit"
  by (simp add: starts_with_def)

section \<open>Generic facts\<close>

lemma takeWhile_dropWhile_append:
  "(\<And>c. c \<in> set xs \<Longrightarrow> P c) \<Longrightarrow> \<not> P y \<Longrightarrow>
     takeWhile P (xs @ y # ys) = xs \<and> dropWhile P (xs @ y # ys) = y # ys"
  by (simp add: takeWhile_tail)

lemma unat_u64_less: "unat (v :: u64) < 18446744073709551616"
  using unsigned_less [where ?'a = nat, of v] by simp

lemma unat_mod_less: "0 < (n :: 'a::len word) \<Longrightarrow> unat (x mod n) < unat n"
  by (simp add: unat_mod word_gt_0 unat_gt_0)

text \<open>Summing a weight over a list one place of which changes.\<close>

lemma sum_list_map_update:
  "t < length xs \<Longrightarrow> sum_list (map f (xs[t := x])) + f (xs ! t) = (sum_list (map f xs) + f x :: 'b::comm_monoid_add)"
proof (induction xs arbitrary: t)
  case (Cons y ys)
  then show ?case by (cases t) (simp_all add: ac_simps)
qed simp

lemma sum_list_map_member:
  "t < length xs \<Longrightarrow> \<exists>r. sum_list (map f xs) = f (xs ! t) + (r :: 'b::comm_monoid_add)"
proof (induction xs arbitrary: t)
  case (Cons y ys)
  then show ?case by (cases t) (auto, metis add.left_commute)
qed simp

end
