(* ===== verification/Base62.thy ===== *)
theory Base62
  imports Prelude
begin

text \<open>
  \<open>src/shorturl/base62.cpp\<close>: the printing of a 64-bit identifier as a short code.

  The loop is modelled on \<open>u64\<close>, as the source has it.  The theory gives the reference meaning of
  a code (\<open>base62_value\<close>), shows that printing is inverted by it, and bounds the length of a
  code from both sides.
\<close>

definition alphabet :: string where
  "alphabet = ''0123456789abcdefghijklmnopqrstuvwxyzABCDEFGHIJKLMNOPQRSTUVWXYZ''"

lemma unat_div_62: "unat ((v :: u64) div 62) = unat v div 62"
  by (simp add: unat_div)

lemma unat_mod_62: "unat ((v :: u64) mod 62) = unat v mod 62"
  by (simp add: unat_mod)

function base62_loop :: "u64 \<Rightarrow> string \<Rightarrow> string" where
  "base62_loop value out =
     (if value > 0 then base62_loop (value div 62) (out @ [alphabet ! unat (value mod 62)])
      else out)"
  by pat_completeness auto

termination
  by (relation "measure (\<lambda>(v, _). unat v)")
    (auto simp: unat_div_62 word_gt_0 intro!: div_less_dividend unat_gt_0 [THEN iffD2])

declare base62_loop.simps [simp del]

definition base62_encode :: "u64 \<Rightarrow> string" where
  "base62_encode value = (if value = 0 then ''0'' else rev (base62_loop value []))"

section \<open>Reference meaning of a code\<close>

fun index_of :: "'a list \<Rightarrow> 'a \<Rightarrow> nat" where
  "index_of [] x = 0"
| "index_of (y # ys) x = (if x = y then 0 else Suc (index_of ys x))"

definition base62_value :: "string \<Rightarrow> nat" where
  "base62_value s = foldl (\<lambda>acc c. acc * 62 + index_of alphabet c) 0 s"

lemma length_alphabet [simp]: "length alphabet = 62"
  by (simp add: alphabet_def)

lemma distinct_alphabet: "distinct alphabet"
  by (simp add: alphabet_def)

lemma index_of_nth [simp]: "distinct xs \<Longrightarrow> i < length xs \<Longrightarrow> index_of xs (xs ! i) = i"
proof (induction xs arbitrary: i)
  case (Cons x xs)
  then show ?case by (cases i) (auto simp: nth_mem)
qed simp

lemma base62_value_snoc [simp]:
  "base62_value (s @ [c]) = base62_value s * 62 + index_of alphabet c"
  by (simp add: base62_value_def)

lemma base62_value_Nil [simp]: "base62_value [] = 0"
  by (simp add: base62_value_def)

text \<open>The loop appends the digits of its argument, least significant first.\<close>

fun digits62 :: "nat \<Rightarrow> string" where
  "digits62 n = (if n = 0 then [] else alphabet ! (n mod 62) # digits62 (n div 62))"

declare digits62.simps [simp del]

lemma digits62_0 [simp]: "digits62 0 = []"
  by (simp add: digits62.simps)

lemma base62_loop_0 [simp]: "base62_loop 0 out = out"
  by (simp add: base62_loop.simps)

lemma base62_loop_digits: "base62_loop v out = out @ digits62 (unat v)"
proof (induction v out rule: base62_loop.induct)
  case (1 v out)
  show ?case
  proof (cases "v > 0")
    case True
    then have "unat v \<noteq> 0" by (simp add: word_gt_0 unat_eq_zero)
    with 1 True show ?thesis
      by (simp add: base62_loop.simps [of v] digits62.simps [of "unat v"] unat_div_62 unat_mod_62)
  next
    case False
    then show ?thesis by (simp add: word_gt_0)
  qed
qed

lemma base62_value_digits62 [simp]: "base62_value (rev (digits62 n)) = n"
proof (induction n rule: digits62.induct)
  case (1 n)
  then show ?case
    by (cases "n = 0") (auto simp: digits62.simps [of n] distinct_alphabet)
qed

lemma digits62_alphabet: "set (digits62 n) \<subseteq> set alphabet"
proof (induction n rule: digits62.induct)
  case (1 n)
  then show ?case
    by (cases "n = 0") (auto simp: digits62.simps [of n] intro!: nth_mem)
qed

lemma digits62_length_le: "n < 62 ^ k \<Longrightarrow> length (digits62 n) \<le> k"
proof (induction k arbitrary: n)
  case 0
  then show ?case by (simp add: digits62.simps)
next
  case (Suc k)
  then have "n div 62 < 62 ^ k" by (simp add: less_mult_imp_div_less)
  from Suc.IH [OF this] show ?case
    by (subst digits62.simps) simp
qed

lemma base62_encode_digits: "v \<noteq> 0 \<Longrightarrow> base62_encode v = rev (digits62 (unat v))"
  by (simp add: base62_encode_def base62_loop_digits)

lemma base62_value_encode [simp]: "base62_value (base62_encode v) = unat v"
proof (cases "v = 0")
  case True
  have "index_of alphabet CHR ''0'' = 0" by (simp add: alphabet_def)
  then show ?thesis
    using True base62_value_snoc [of "[]" "CHR ''0''"] by (simp add: base62_encode_def)
qed (simp add: base62_encode_digits)

lemma base62_encode_inject [simp]: "base62_encode v = base62_encode w \<longleftrightarrow> v = w"
  by (metis base62_value_encode word_unat_eq_iff)

lemma base62_encode_alphabet: "set (base62_encode v) \<subseteq> set alphabet"
proof (cases "v = 0")
  case True
  then show ?thesis by (simp add: base62_encode_def alphabet_def)
qed (simp add: base62_encode_digits digits62_alphabet)

lemma base62_encode_nonempty [simp]: "base62_encode v \<noteq> []"
proof (cases "v = 0")
  case False
  then have "digits62 (unat v) \<noteq> []" by (subst digits62.simps) (simp add: unat_eq_zero)
  with False show ?thesis by (simp add: base62_encode_digits)
qed (simp add: base62_encode_def)

lemma base62_encode_length: "unat v < 62 ^ k \<Longrightarrow> 0 < k \<Longrightarrow> length (base62_encode v) \<le> k"
  by (cases "v = 0") (auto simp: base62_encode_def base62_loop_digits digits62_length_le)

text \<open>No character of a code is a path separator, so a code is one segment of a path.\<close>

lemma base62_encode_no_slash: "CHR ''/'' \<notin> set (base62_encode v)"
  using base62_encode_alphabet [of v] by (auto simp: alphabet_def)

lemma alphabet_zero: "i < 62 \<Longrightarrow> alphabet ! i = CHR ''0'' \<longleftrightarrow> i = 0"
  using nth_eq_iff_index_eq [OF distinct_alphabet, of i 0] by (simp add: alphabet_def)

lemma digits62_last: "0 < n \<Longrightarrow> last (digits62 n) \<noteq> CHR ''0''"
proof (induction n rule: digits62.induct)
  case (1 n)
  show ?case
  proof (cases "n < 62")
    case True
    with 1 show ?thesis by (simp add: digits62.simps [of n] alphabet_zero)
  next
    case False
    then have "digits62 (n div 62) \<noteq> []" by (subst digits62.simps) simp
    with False 1 show ?thesis by (simp add: digits62.simps [of n])
  qed
qed

lemma base62_encode_hd: "hd (base62_encode v) = CHR ''0'' \<longleftrightarrow> v = 0"
proof (cases "v = 0")
  case False
  then have "0 < unat v" by (simp add: unat_gt_0)
  then show ?thesis
    using digits62_last [of "unat v"] False by (simp add: base62_encode_digits hd_rev)
qed (simp add: base62_encode_def)

section \<open>Properties\<close>

text \<open>C8: \<open>base62_encode\<close> is a faithful printing of 64-bit identifiers: reading a code back as a
  base-62 number gives the identifier, every code is a non-empty string over the 62 letters and
  digits, has at most 11 characters, and has no redundant leading zero.\<close>

theorem base62_roundtrip:
  "base62_value (base62_encode v) = unat v
   \<and> base62_encode v \<noteq> [] \<and> set (base62_encode v) \<subseteq> set alphabet
   \<and> length (base62_encode v) \<le> 11
   \<and> (hd (base62_encode v) = CHR ''0'' \<longleftrightarrow> v = 0)"
proof -
  have "unat v < 62 ^ 11"
    using unat_u64_less [of v] by simp
  then show ?thesis
    by (simp add: base62_encode_alphabet base62_encode_length base62_encode_hd)
qed

end
