(* ===== verification/Snowflake.thy ===== *)
theory Snowflake
  imports Prelude
begin

text \<open>
  \<open>src/shorturl/snowflake.h\<close> and \<open>snowflake.cpp\<close>: the identifier generator.

  Identifiers are \<open>(seconds << 22) | (worker << 12) | sequence\<close> on 64-bit words.  The system
  clock is a parameter: \<open>clk n\<close> is what the \<open>n\<close>-th reading of
  \<open>system_clock::now()\<close> gives, in seconds since 1970, and every function threads the number of
  readings made so far, so nothing is assumed about the clock (it may stall or run backwards).
  \<open>wait_next_second\<close> spins until the clock moves: it is a partial function, and \<open>None\<close> is
  "never returns".
\<close>

type_synonym clock = "nat \<Rightarrow> u64"

definition kEpochSeconds :: u64 where "kEpochSeconds = 1767225600"
definition kSequenceBits :: nat where "kSequenceBits = 12"
definition kWorkerBits :: nat where "kWorkerBits = 10"
definition kMaxSequence :: u64 where "kMaxSequence = push_bit kSequenceBits 1 - 1"
definition kMaxWorkerId :: u64 where "kMaxWorkerId = push_bit kWorkerBits 1 - 1"
definition kMaxTimestampDelta :: u64 where "kMaxTimestampDelta = push_bit 29 1 - 1"

lemmas snowflake_constants =
  kEpochSeconds_def kSequenceBits_def kWorkerBits_def kMaxSequence_def kMaxWorkerId_def
  kMaxTimestampDelta_def

record snowflake =
  last_second :: u64
  sequence :: u64

definition snowflake_init :: snowflake where
  "snowflake_init = \<lparr>last_second = 0, sequence = 0\<rparr>"

text \<open>The process-wide worker id: the initial value from the pid, and \<open>set_worker_id\<close>.\<close>

definition worker_id_from_pid :: "u64 \<Rightarrow> u64" where
  "worker_id_from_pid pid = pid AND kMaxWorkerId"

definition set_worker_id :: "int \<Rightarrow> u64 \<Rightarrow> u64" where
  "set_worker_id new_id s_worker_id =
     (if new_id < 0 then s_worker_id else word_of_int new_id AND kMaxWorkerId)"

definition current_seconds :: "u64 \<Rightarrow> u64" where
  "current_seconds unix_seconds =
     (if unix_seconds \<le> kEpochSeconds then 0 else unix_seconds - kEpochSeconds)"

partial_function (option) wait_loop :: "clock \<Rightarrow> u64 \<Rightarrow> u64 \<Rightarrow> nat \<Rightarrow> (u64 \<times> nat) option" where
  "wait_loop clk prev now k =
     (if now \<le> prev then wait_loop clk prev (current_seconds (clk k)) (Suc k)
      else Some (now, k))"

definition wait_next_second :: "clock \<Rightarrow> u64 \<Rightarrow> nat \<Rightarrow> (u64 \<times> nat) option" where
  "wait_next_second clk prev k =
     wait_loop clk prev (current_seconds (clk k)) (Suc k)"

definition compose_id :: "u64 \<Rightarrow> u64 \<Rightarrow> u64 \<Rightarrow> u64" where
  "compose_id now worker sq =
     push_bit (kSequenceBits + kWorkerBits) now OR push_bit kSequenceBits worker OR sq"

text \<open>The tail of \<open>next_id\<close>, from the overflow check on.  On the exception the new sequence
  number has been stored already, the new second has not.\<close>

definition next_id_tail ::
  "u64 \<Rightarrow> u64 \<Rightarrow> snowflake \<Rightarrow> nat \<Rightarrow> (exn + u64) \<times> snowflake \<times> nat" where
  "next_id_tail worker now g k =
     (if now > kMaxTimestampDelta
      then (Inl (RuntimeError ''snowflake timestamp overflow''), g, k)
      else (Inr (compose_id now worker (sequence g)), g\<lparr>last_second := now\<rparr>, k))"

definition next_id ::
  "clock \<Rightarrow> u64 \<Rightarrow> snowflake \<Rightarrow> nat \<Rightarrow> ((exn + u64) \<times> snowflake \<times> nat) option" where
  "next_id clk worker g k =
     (let read = current_seconds (clk k);
          now = (if read < last_second g then last_second g else read)
      in if now = last_second g then
           if sequence g \<ge> kMaxSequence then
             (case wait_next_second clk (last_second g) (Suc k) of
                None \<Rightarrow> None
              | Some (now', k') \<Rightarrow> Some (next_id_tail worker now' (g\<lparr>sequence := 0\<rparr>) k'))
           else Some (next_id_tail worker now (g\<lparr>sequence := sequence g + 1\<rparr>) (Suc k))
         else Some (next_id_tail worker now (g\<lparr>sequence := 0\<rparr>) (Suc k)))"

section \<open>The bit fields of an identifier\<close>

lemma max_values [simp]:
  "unat kMaxSequence = 4095" "unat kMaxWorkerId = 1023" "unat kMaxTimestampDelta = 536870911"
  by (simp_all add: snowflake_constants)

lemma less_imp_no_high_bit:
  assumes "unat (w :: u64) < 2 ^ n" and "bit w m"
  shows "m < n"
proof -
  have "bit (unat w) m" using assms(2) by (simp add: bit_unsigned_iff bit_imp_le_length)
  moreover have "take_bit n (unat w) = unat w" using assms(1) by (simp add: take_bit_nat_eq_self)
  ultimately show ?thesis by (metis bit_take_bit_iff)
qed

lemma compose_id_nat:
  assumes "unat now < 2 ^ 29" "unat worker < 2 ^ 10" "unat sq < 2 ^ 12"
  shows "unat (compose_id now worker sq) =
           unat now * 2 ^ 22 + unat worker * 2 ^ 12 + unat sq"
proof -
  have 1: "push_bit 12 worker OR sq = push_bit 12 worker + sq"
    by (rule disjunctive_add [symmetric])
      (auto simp: bit_push_bit_iff dest: less_imp_no_high_bit [OF assms(3)])
  have 2: "push_bit 22 now OR (push_bit 12 worker OR sq) =
             push_bit 22 now + (push_bit 12 worker OR sq)"
    by (rule disjunctive_add [symmetric])
      (auto simp: bit_push_bit_iff bit_or_iff dest: less_imp_no_high_bit [OF assms(3)]
         less_imp_no_high_bit [OF assms(2)])
  have 3: "unat (push_bit 12 worker) = unat worker * 2 ^ 12"
    using assms(2) by (simp add: push_bit_eq_mult unat_word_ariths)
  have 4: "unat (push_bit 22 now) = unat now * 2 ^ 22"
    using assms(1) by (simp add: push_bit_eq_mult unat_word_ariths)
  show ?thesis
    using assms 3 4 by (simp add: compose_id_def kSequenceBits_def kWorkerBits_def or.assoc
        1 2 [unfolded 1] unat_word_ariths)
qed

text \<open>What an identifier says about its origin: its worker, and its position in the stream of one
  generator (second and sequence number).\<close>

definition id_worker :: "u64 \<Rightarrow> nat" where
  "id_worker i = unat i div 2 ^ 12 mod 2 ^ 10"

definition id_stamp :: "u64 \<Rightarrow> nat" where
  "id_stamp i = unat i div 2 ^ 22 * 2 ^ 12 + unat i mod 2 ^ 12"

lemma div_mod_shift:
  "(y :: nat) < n \<Longrightarrow> (x * n + y) div n = x" "y < n \<Longrightarrow> (x * n + y) mod n = y"
  by simp_all

lemma compose_id_fields:
  assumes "unat now < 2 ^ 29" "unat worker < 2 ^ 10" "unat sq < 2 ^ 12"
  shows "id_worker (compose_id now worker sq) = unat worker"
    and "id_stamp (compose_id now worker sq) = unat now * 2 ^ 12 + unat sq"
proof -
  let ?i = "unat (compose_id now worker sq)"
  have split: "?i = (unat now * 2 ^ 10 + unat worker) * 2 ^ 12 + unat sq"
    by (simp add: compose_id_nat [OF assms])
  have d12: "?i div 2 ^ 12 = unat now * 2 ^ 10 + unat worker" and m12: "?i mod 2 ^ 12 = unat sq"
    unfolding split using assms(3) by (simp_all only: div_mod_shift)
  have d22: "?i div 2 ^ 22 = unat now"
    using d12 assms(2) div_mult2_eq [of ?i "2 ^ 12" "2 ^ 10"] by simp
  show "id_worker (compose_id now worker sq) = unat worker"
    unfolding id_worker_def d12 using assms(2) by simp
  show "id_stamp (compose_id now worker sq) = unat now * 2 ^ 12 + unat sq"
    unfolding id_stamp_def d22 m12 by simp
qed

section \<open>Streams of stamped items\<close>

text \<open>
  The contract a client of an identifier source relies on: every issue moves the stamp of the source
  strictly up and the issued item carries the new stamp.  Then no item is ever issued twice.
\<close>

fun chain :: "('s \<Rightarrow> 'i \<Rightarrow> 's \<Rightarrow> bool) \<Rightarrow> 's \<Rightarrow> ('i \<times> 's) list \<Rightarrow> bool" where
  "chain R s [] = True"
| "chain R s ((i, s') # xs) = (R s i s' \<and> chain R s' xs)"

locale stamped_source =
  fixes issues :: "'s \<Rightarrow> 'i \<Rightarrow> 's \<Rightarrow> bool"
    and inv :: "'s \<Rightarrow> bool"
    and stamp :: "'s \<Rightarrow> nat"
    and istamp :: "'i \<Rightarrow> nat"
  assumes issues_inv: "inv s \<Longrightarrow> issues s i s' \<Longrightarrow> inv s'"
    and issues_above: "inv s \<Longrightarrow> issues s i s' \<Longrightarrow> stamp s < istamp i"
    and issues_stamp: "inv s \<Longrightarrow> issues s i s' \<Longrightarrow> stamp s' = istamp i"
begin

lemma chain_stamps:
  "inv s \<Longrightarrow> chain issues s xs \<Longrightarrow>
     sorted_wrt (<) (map istamp (map fst xs)) \<and> (\<forall>i \<in> set (map fst xs). stamp s < istamp i)"
proof (induction xs arbitrary: s)
  case (Cons x xs)
  obtain i s' where x: "x = (i, s')" by (cases x)
  with Cons.prems have step: "issues s i s'" and rest: "chain issues s' xs" by auto
  note IH = Cons.IH [OF issues_inv [OF Cons.prems(1) step] rest]
  then show ?case
    using issues_above [OF Cons.prems(1) step] issues_stamp [OF Cons.prems(1) step]
    by (force simp: x)
qed simp

lemma chain_distinct: "inv s \<Longrightarrow> chain issues s xs \<Longrightarrow> distinct (map fst xs)"
  using chain_stamps [of s xs] by (metis distinct_map strict_sorted_iff)

end

section \<open>The generator\<close>

definition wf_snowflake :: "snowflake \<Rightarrow> bool" where
  "wf_snowflake g \<longleftrightarrow> unat (last_second g) < 2 ^ 29 \<and> unat (sequence g) < 2 ^ 12"

definition snowflake_stamp :: "snowflake \<Rightarrow> nat" where
  "snowflake_stamp g = unat (last_second g) * 2 ^ 12 + unat (sequence g)"

lemma wf_snowflake_init [simp]: "wf_snowflake snowflake_init"
  by (simp add: wf_snowflake_def snowflake_init_def)

lemma wait_loop_above:
  assumes "wait_loop clk prev now k = Some (now', k')"
  shows "prev < now'"
proof -
  have "prev < fst (now', k')"
    by (rule wait_loop.raw_induct [where P = "\<lambda>clk prev now k r. prev < fst r", OF _ assms])
      (force split: if_splits)
  then show ?thesis by simp
qed

lemma wait_next_second_above: "wait_next_second clk prev k = Some (now, k') \<Longrightarrow> prev < now"
  by (auto simp: wait_next_second_def dest: wait_loop_above)

text \<open>The spin ends as soon as some reading lies beyond the last second.\<close>

lemma wait_loop_returns:
  "prev < current_seconds (clk (k + d)) \<Longrightarrow> \<exists>r. wait_loop clk prev now k = Some r"
proof (induction d arbitrary: k now)
  case 0
  then show ?case
    by (subst wait_loop.simps)
      (simp add: wait_loop.simps [of _ _ "current_seconds (clk k)"] not_le [symmetric])
next
  case (Suc d)
  then have "\<exists>r. wait_loop clk prev (current_seconds (clk k)) (Suc k) = Some r"
    by (intro Suc.IH) simp
  then show ?case by (subst wait_loop.simps) simp
qed

lemma next_id_tail_Inr:
  assumes "next_id_tail worker now g k = (Inr i, g', k')"
    and "unat worker < 2 ^ 10" "unat (sequence g) < 2 ^ 12"
  shows "wf_snowflake g' \<and> id_worker i = unat worker
    \<and> id_stamp i = unat now * 2 ^ 12 + unat (sequence g) \<and> snowflake_stamp g' = id_stamp i"
proof -
  from assms(1) have now: "unat now < 2 ^ 29"
    and i: "i = compose_id now worker (sequence g)" and g': "g' = g\<lparr>last_second := now\<rparr>"
    by (auto simp: next_id_tail_def word_le_nat_alt not_less split: if_splits)
  show ?thesis
    using compose_id_fields [OF now assms(2,3)] now assms(3)
    by (simp add: i g' wf_snowflake_def snowflake_stamp_def)
qed

lemma next_id_Inr:
  assumes wf: "wf_snowflake g" and worker: "unat worker < 2 ^ 10"
    and ret: "next_id clk worker g k = Some (Inr i, g', k')"
  shows "wf_snowflake g' \<and> id_worker i = unat worker
    \<and> snowflake_stamp g < id_stamp i \<and> snowflake_stamp g' = id_stamp i"
proof -
  consider
    (later) now where "last_second g < now"
      "next_id_tail worker now (g\<lparr>sequence := 0\<rparr>) k' = (Inr i, g', k')"
  | (same) "sequence g < kMaxSequence"
      "next_id_tail worker (last_second g) (g\<lparr>sequence := sequence g + 1\<rparr>) k' = (Inr i, g', k')"
    using ret
    by (fastforce simp: next_id_def Let_def next_id_tail_def not_less not_le
        split: if_splits option.splits prod.splits dest: wait_next_second_above)
  then show ?thesis
  proof cases
    case later
    then have "unat (last_second g) < unat now" by (simp add: word_less_nat_alt)
    then show ?thesis
      using next_id_tail_Inr [OF later(2) worker] wf
      by (simp add: snowflake_stamp_def wf_snowflake_def)
  next
    case same
    then have "unat (sequence g + 1) = unat (sequence g) + 1" and "unat (sequence g) < 4095"
      using max_values(1) by (simp_all add: word_less_nat_alt unat_word_ariths)
    then show ?thesis
      using next_id_tail_Inr [OF same(2) worker] wf
      by (simp add: snowflake_stamp_def wf_snowflake_def)
  qed
qed

text \<open>A call that succeeds, as an issue of the stamped source; the state is the generator and the
  number of clock readings made.\<close>

definition snowflake_issues ::
  "clock \<Rightarrow> snowflake \<times> nat \<Rightarrow> u64 \<Rightarrow> snowflake \<times> nat \<Rightarrow> bool" where
  "snowflake_issues clk s i s' \<longleftrightarrow>
     (\<exists>worker \<le> kMaxWorkerId. next_id clk worker (fst s) (snd s) = Some (Inr i, s'))"

lemma worker_bound: "worker \<le> kMaxWorkerId \<Longrightarrow> unat worker < 2 ^ 10"
  using max_values(2) by (simp add: word_le_nat_alt)

lemma snowflake_issues_facts:
  assumes "wf_snowflake (fst s)" and "snowflake_issues clk s i s'"
  shows "wf_snowflake (fst s') \<and> snowflake_stamp (fst s) < id_stamp i
    \<and> snowflake_stamp (fst s') = id_stamp i"
proof -
  from assms(2) obtain worker where "worker \<le> kMaxWorkerId"
    and "next_id clk worker (fst s) (snd s) = Some (Inr i, fst s', snd s')"
    by (auto simp: snowflake_issues_def)
  then show ?thesis using next_id_Inr [OF assms(1) worker_bound] by blast
qed

interpretation snow: stamped_source "snowflake_issues clk" "\<lambda>s. wf_snowflake (fst s)"
  "\<lambda>s. snowflake_stamp (fst s)" id_stamp for clk
  by unfold_locales (simp_all add: snowflake_issues_facts)

text \<open>A run of calls, one per worker id in force at the call; it ends without a result when a call
  spins forever or throws.\<close>

fun mint :: "clock \<Rightarrow> u64 list \<Rightarrow> snowflake \<Rightarrow> nat \<Rightarrow> (u64 list \<times> snowflake \<times> nat) option" where
  "mint clk [] g k = Some ([], g, k)"
| "mint clk (w # ws) g k =
     (case next_id clk w g k of
        Some (Inr i, g', k') \<Rightarrow>
          (case mint clk ws g' k' of
             Some (ids, g'', k'') \<Rightarrow> Some (i # ids, g'', k'')
           | None \<Rightarrow> None)
      | _ \<Rightarrow> None)"

lemma mint_chain:
  "mint clk ws g k = Some (ids, g', k') \<Longrightarrow> \<forall>w \<in> set ws. w \<le> kMaxWorkerId \<Longrightarrow>
     \<exists>xs. chain (snowflake_issues clk) (g, k) xs \<and> map fst xs = ids"
proof (induction clk ws g k arbitrary: ids rule: mint.induct)
  case (2 clk w ws g k)
  then obtain i g1 k1 more where step: "next_id clk w g k = Some (Inr i, g1, k1)"
    and rest: "mint clk ws g1 k1 = Some (more, g', k')" and ids: "ids = i # more"
    by (auto split: option.splits prod.splits sum.splits)
  with 2 obtain xs where "chain (snowflake_issues clk) (g1, k1) xs" "map fst xs = more"
    by fastforce
  moreover have "snowflake_issues clk (g, k) i (g1, k1)"
    using step 2(3) by (auto simp: snowflake_issues_def)
  ultimately show ?case
    by (intro exI [of _ "(i, (g1, k1)) # xs"]) (simp add: ids)
qed auto

lemma mint_workers:
  "mint clk ws g k = Some (ids, g', k') \<Longrightarrow> wf_snowflake g \<Longrightarrow>
     \<forall>w \<in> set ws. w \<le> kMaxWorkerId \<Longrightarrow> map id_worker ids = map unat ws"
proof (induction clk ws g k arbitrary: ids rule: mint.induct)
  case (2 clk w ws g k)
  then obtain i g1 k1 more where step: "next_id clk w g k = Some (Inr i, g1, k1)"
    and rest: "mint clk ws g1 k1 = Some (more, g', k')" and ids: "ids = i # more"
    by (auto split: option.splits prod.splits sum.splits)
  have "wf_snowflake g1 \<and> id_worker i = unat w"
    using next_id_Inr [OF 2(3) worker_bound step] 2(4) by simp
  moreover from this have "map id_worker more = map unat ws"
    using 2(1) [OF step refl refl refl rest] 2(4) by simp
  ultimately show ?case by (simp add: ids)
qed auto

lemma worker_mask: "x AND kMaxWorkerId \<le> kMaxWorkerId"
  by (rule word_and_le1)

section \<open>Properties\<close>

text \<open>C7: No run of \<open>next_id\<close> on one generator ever returns the same identifier twice, whatever the
  clock does (stall, jump, run backwards) and even if the worker id is changed between calls; and
  every identifier carries the worker id that was in force when it was minted.\<close>

theorem snowflake_ids_distinct:
  assumes "mint clk ws snowflake_init k = Some (ids, g, k')"
    and "\<forall>w \<in> set ws. w \<le> kMaxWorkerId"
  shows "distinct ids \<and> map id_worker ids = map unat ws"
proof -
  obtain xs where "chain (snowflake_issues clk) (snowflake_init, k) xs" "map fst xs = ids"
    using mint_chain [OF assms] by blast
  then show ?thesis
    using mint_workers [OF assms(1) wf_snowflake_init assms(2)]
      snow.chain_distinct [of "(snowflake_init, k)" clk xs] by simp
qed

theorem snowflake_ids_distinct_witness:
  "\<exists>ids g k'. mint (\<lambda>n. if n = 1 then 1767225605 else 1767225607) [3, 3, 7] snowflake_init 0
     = Some (ids, g, k') \<and> distinct ids \<and> map id_worker ids = [3, 3, 7]"
proof -
  let ?clk = "\<lambda>n :: nat. if n = 1 then 1767225605 else 1767225607 :: u64"
  have "mint ?clk [3, 3, 7] snowflake_init 0 \<noteq> None" by code_simp
  then obtain ids g k' where run: "mint ?clk [3, 3, 7] snowflake_init 0 = Some (ids, g, k')"
    by auto
  moreover have "\<forall>w \<in> set [3, 3, 7]. w \<le> kMaxWorkerId" by (simp add: snowflake_constants)
  ultimately show ?thesis using snowflake_ids_distinct [OF run] by simp
qed

text \<open>Two generator instances with different worker ids never mint the same identifier, however
  their clocks and call sequences overlap.\<close>

theorem snowflake_workers_disjoint:
  assumes "mint clk (replicate m w) snowflake_init k = Some (ids, g, j)"
    and "mint clk' (replicate n w') snowflake_init k' = Some (ids', g', j')"
    and "w \<le> kMaxWorkerId" and "w' \<le> kMaxWorkerId" and "w \<noteq> w'"
  shows "set ids \<inter> set ids' = {}"
proof -
  have "map id_worker ids = replicate m (unat w)" "map id_worker ids' = replicate n (unat w')"
    using mint_workers [OF assms(1) wf_snowflake_init] mint_workers [OF assms(2) wf_snowflake_init]
      assms(3,4) by simp_all
  then have "id_worker ` set ids \<subseteq> {unat w}" "id_worker ` set ids' \<subseteq> {unat w'}"
    by (metis image_set set_replicate_conv_if empty_subsetI order_refl)+
  then show ?thesis using assms(5) by (fastforce simp: word_unat_eq_iff [of w w'] image_subset_iff)
qed

theorem snowflake_workers_disjoint_witness:
  "\<exists>ids ids' g g' j j'. mint (\<lambda>_. 1767225605) (replicate 2 3) snowflake_init 0 = Some (ids, g, j)
     \<and> mint (\<lambda>_. 1767225605) (replicate 2 4) snowflake_init 0 = Some (ids', g', j')
     \<and> set ids \<inter> set ids' = {}"
proof -
  let ?clk = "\<lambda>_ :: nat. 1767225605 :: u64"
  have "mint ?clk (replicate 2 3) snowflake_init 0 \<noteq> None"
    and "mint ?clk (replicate 2 4) snowflake_init 0 \<noteq> None" by code_simp+
  then obtain ids g j ids' g' j'
    where runs: "mint ?clk (replicate 2 3) snowflake_init 0 = Some (ids, g, j)"
      "mint ?clk (replicate 2 4) snowflake_init 0 = Some (ids', g', j')"
    by fastforce
  have bounds: "3 \<le> kMaxWorkerId" "4 \<le> kMaxWorkerId" "(3 :: u64) \<noteq> 4"
    by (simp_all add: snowflake_constants)
  show ?thesis using snowflake_workers_disjoint [OF runs bounds] runs by blast
qed

text \<open>C15: \<open>next_id\<close> returns (it does not spin forever) as soon as one later clock reading lies beyond
  the generator's last second; it then throws exactly when the second no longer fits 29 bits.\<close>

theorem next_id_returns:
  assumes "last_second g < current_seconds (clk (Suc (k + d)))"
  shows "\<exists>r g' k'. next_id clk worker g k = Some (r, g', k')
    \<and> (\<forall>e. r = Inl e \<longrightarrow> e = RuntimeError ''snowflake timestamp overflow''
         \<and> last_second g' = last_second g)"
proof -
  have "\<exists>r. wait_next_second clk (last_second g) (Suc k) = Some r"
  proof (cases d)
    case 0
    with assms have "\<not> current_seconds (clk (Suc k)) \<le> last_second g" by simp
    then show ?thesis by (simp add: wait_next_second_def wait_loop.simps)
  next
    case (Suc d')
    then show ?thesis
      using wait_loop_returns [of "last_second g" clk "Suc (Suc k)" d'] assms
      by (simp add: wait_next_second_def)
  qed
  then show ?thesis
    by (auto simp: next_id_def Let_def next_id_tail_def split: prod.splits)
qed

theorem next_id_returns_witness:
  "\<exists>r g' k'. next_id (\<lambda>n. if n < 5 then 1767225601 else 1767225602) 3
      \<lparr>last_second = 1, sequence = 4095\<rparr> 0 = Some (r, g', k')"
  using next_id_returns [of "\<lparr>last_second = 1, sequence = 4095\<rparr>"
      "\<lambda>n. if n < 5 then 1767225601 else 1767225602" 0 4 3]
  by (simp add: current_seconds_def kEpochSeconds_def) blast

text \<open>\<open>set_worker_id\<close> keeps the low ten bits of a non-negative id and ignores a negative one, so
  the worker id stays within its field; a value above 1023 wraps around instead of being clamped.\<close>

theorem set_worker_id_masks:
  "set_worker_id n w = (if n < 0 then w else word_of_int (n mod 1024))
   \<and> set_worker_id 1024 w = 0 \<and> set_worker_id 1023 w = kMaxWorkerId
   \<and> worker_id_from_pid pid \<le> kMaxWorkerId"
proof -
  have mask: "kMaxWorkerId = mask 10" by (simp add: kMaxWorkerId_def kWorkerBits_def mask_eq_decr_exp)
  have "n mod 1024 = take_bit 10 n" by (simp add: take_bit_eq_mod)
  then have "word_of_int n AND kMaxWorkerId = word_of_int (n mod 1024)"
    unfolding mask by (intro bit_word_eqI) (auto simp: bit_simps)
  then show ?thesis
    by (simp add: set_worker_id_def worker_id_from_pid_def word_and_le1 snowflake_constants)
qed

end
