(* ===== verification/Bloom_Filter.thy ===== *)
theory Bloom_Filter
  imports Prelude
begin

text \<open>
  \<open>src/shorturl/bloom_filter.h\<close> and \<open>bloom_filter.cpp\<close>.  The mutex makes every public
  operation atomic, so each is one function on the filter's state; \<open>bits_\<close> is a list of bytes and
  all index arithmetic is done on 64-bit words with wrap-around.  The contract a client relies on
  (no false negatives) is the locale \<open>membership_filter\<close>.
\<close>

record bloom =
  bits :: "u8 list"
  bit_count :: u64
  hash_count :: u64
  inserted_count :: u64

definition bloom_init :: bloom where
  "bloom_init = \<lparr>bits = [], bit_count = 0, hash_count = 0, inserted_count = 0\<rparr>"

definition bloom_reset :: "u64 \<Rightarrow> u64 \<Rightarrow> bloom \<Rightarrow> bloom" where
  "bloom_reset bc hc b =
     (let bc' = max bc 8; hc' = max hc 1
      in b\<lparr>bit_count := bc', hash_count := hc',
           bits := replicate (unat ((bc' + 7) div 8)) 0, inserted_count := 0\<rparr>)"

definition bloom_hash :: "string \<Rightarrow> u64 \<Rightarrow> u64" where
  "bloom_hash s seed =
     (let h = fnv_loop (fnv_basis XOR seed) s;
          h = h XOR drop_bit 33 h;
          h = h * 0xff51afd7ed558ccd;
          h = h XOR drop_bit 33 h;
          h = h * 0xc4ceb9fe1a85ec53;
          h = h XOR drop_bit 33 h
      in h)"

definition bloom_set_bit :: "u64 \<Rightarrow> u8 list \<Rightarrow> u8 list" where
  "bloom_set_bit idx bs =
     (let k = unat (idx div 8) in bs[k := bs ! k OR push_bit (unat (idx mod 8)) 1])"

definition bloom_get_bit :: "u64 \<Rightarrow> u8 list \<Rightarrow> bool" where
  "bloom_get_bit idx bs \<longleftrightarrow> (bs ! unat (idx div 8)) AND push_bit (unat (idx mod 8)) 1 \<noteq> 0"

text \<open>The bit positions one value touches, in the order of the loop
  \<^verbatim>\<open>for (size_t i = 0; i < hash_count_; ++i) ... (h1 + i * h2) % bit_count_\<close>.\<close>

definition bloom_positions :: "bloom \<Rightarrow> string \<Rightarrow> u64 list" where
  "bloom_positions b s =
     (let h1 = bloom_hash s 0x9e3779b185ebca87; h2 = bloom_hash s 0xc2b2ae3d27d4eb4f
      in map (\<lambda>i. (h1 + of_nat i * h2) mod bit_count b) [0..<unat (hash_count b)])"

definition bloom_add :: "string \<Rightarrow> bloom \<Rightarrow> bloom" where
  "bloom_add s b =
     (if bit_count b = 0 \<or> hash_count b = 0 then b
      else b\<lparr>bits := fold bloom_set_bit (bloom_positions b s) (bits b),
             inserted_count := inserted_count b + 1\<rparr>)"

definition bloom_might_contain :: "bloom \<Rightarrow> string \<Rightarrow> bool" where
  "bloom_might_contain b s =
     (if bit_count b = 0 \<or> hash_count b = 0 then True
      else list_all (\<lambda>idx. bloom_get_bit idx (bits b)) (bloom_positions b s))"

section \<open>The contract of an approximate membership filter\<close>

locale membership_filter =
  fixes add :: "'k \<Rightarrow> 'f \<Rightarrow> 'f"
    and mem :: "'f \<Rightarrow> 'k \<Rightarrow> bool"
    and inv :: "'f \<Rightarrow> bool"
  assumes add_inv: "inv f \<Longrightarrow> inv (add k f)"
    and mem_add: "inv f \<Longrightarrow> mem (add k f) k"
    and mem_mono: "inv f \<Longrightarrow> mem f k \<Longrightarrow> mem (add k' f) k"
begin

lemma fold_inv: "inv f \<Longrightarrow> inv (fold add ks f)"
  by (induction ks arbitrary: f) (auto intro: add_inv)

lemma fold_mono: "inv f \<Longrightarrow> mem f k \<Longrightarrow> mem (fold add ks f) k"
  by (induction ks arbitrary: f) (auto intro: add_inv mem_mono)

lemma fold_complete: "inv f \<Longrightarrow> k \<in> set ks \<Longrightarrow> mem (fold add ks f) k"
proof (induction ks arbitrary: f)
  case (Cons k' ks)
  then show ?case by (cases "k = k'") (auto intro: add_inv mem_add fold_mono)
qed simp

end

section \<open>Well-formedness: no access outside the byte vector\<close>

definition in_range :: "u64 \<Rightarrow> u8 list \<Rightarrow> bool" where
  "in_range idx bs \<longleftrightarrow> unat (idx div 8) < length bs"

definition wf_bloom :: "bloom \<Rightarrow> bool" where
  "wf_bloom b \<longleftrightarrow> unat (bit_count b) \<le> 8 * length (bits b)"

lemma unat_div_8: "unat ((x :: u64) div 8) = unat x div 8"
  by (simp add: unat_div)

lemma unat_mod_8: "unat ((x :: u64) mod 8) = unat x mod 8"
  by (simp add: unat_mod)

lemma bloom_positions_in_range:
  assumes "wf_bloom b" and "bit_count b \<noteq> 0" and "idx \<in> set (bloom_positions b s)"
  shows "in_range idx (bits b)"
proof -
  from assms(3) obtain x where "idx = x mod bit_count b"
    by (auto simp: bloom_positions_def Let_def)
  then have "unat idx < unat (bit_count b)"
    using assms(2) by (simp add: unat_mod_less word_gt_0)
  then show ?thesis
    using assms(1) by (auto simp: in_range_def wf_bloom_def unat_div_8)
qed

lemma length_bloom_set_bit [simp]: "length (bloom_set_bit idx bs) = length bs"
  by (simp add: bloom_set_bit_def Let_def)

lemma length_fold_bloom_set_bit [simp]: "length (fold bloom_set_bit is bs) = length bs"
  by (induction "is" arbitrary: bs) auto

lemma bloom_reset_wf [wf_intros]:
  assumes "unat bc \<le> 2 ^ 64 - 8"
  shows "wf_bloom (bloom_reset bc hc b)"
proof -
  let ?bc = "max bc 8"
  have "unat ?bc \<le> 2 ^ 64 - 8" using assms by (simp add: max_def)
  then have "unat (?bc + 7) = unat ?bc + 7" by (simp add: unat_word_ariths)
  then show ?thesis by (simp add: wf_bloom_def bloom_reset_def Let_def unat_div_8)
qed

lemma bloom_add_wf [wf_intros]: "wf_bloom b \<Longrightarrow> wf_bloom (bloom_add s b)"
  by (simp add: wf_bloom_def bloom_add_def)

section \<open>Bits\<close>

lemma word_eq_by_div_mod_8: "(x :: u64) div 8 = y div 8 \<Longrightarrow> x mod 8 = y mod 8 \<Longrightarrow> x = y"
  by (metis word_mod_div_equality)

lemma bloom_get_bit_bit: "bloom_get_bit idx bs = bit (bs ! unat (idx div 8)) (unat (idx mod 8))"
  by (simp add: bloom_get_bit_def bit_iff_and_push_bit_not_eq_0)

lemma bloom_get_set_bit:
  assumes "in_range i bs"
  shows "bloom_get_bit j (bloom_set_bit i bs) \<longleftrightarrow> i = j \<or> bloom_get_bit j bs"
proof (cases "j div 8 = i div 8")
  case True
  have m: "unat (j mod 8) < 8" by (simp add: unat_mod_8)
  have "unat (j mod 8) = unat (i mod 8) \<longleftrightarrow> i = j"
    using True word_eq_by_div_mod_8 [of i j] by (metis word_unat_eq_iff)
  with True m assms show ?thesis
    by (auto simp: bloom_get_bit_bit bloom_set_bit_def Let_def in_range_def bit_simps)
next
  case False
  then have "unat (j div 8) \<noteq> unat (i div 8)" by (simp add: word_unat_eq_iff)
  with False show ?thesis by (auto simp: bloom_get_bit_def bloom_set_bit_def Let_def)
qed

lemma bloom_get_fold_set_bit:
  "(\<And>i. i \<in> set is \<Longrightarrow> in_range i bs) \<Longrightarrow>
     bloom_get_bit j (fold bloom_set_bit is bs) \<longleftrightarrow> j \<in> set is \<or> bloom_get_bit j bs"
proof (induction "is" arbitrary: bs)
  case (Cons i "is")
  have "in_range k (bloom_set_bit i bs) = in_range k bs" for k by (simp add: in_range_def)
  with Cons show ?case by (auto simp: bloom_get_set_bit)
qed simp

lemma bloom_positions_add [simp]: "bloom_positions (bloom_add s b) t = bloom_positions b t"
  by (simp add: bloom_positions_def bloom_add_def)

lemma bloom_add_fields [simp]:
  "bit_count (bloom_add s b) = bit_count b" "hash_count (bloom_add s b) = hash_count b"
  by (simp_all add: bloom_add_def)

lemma bloom_might_contain_add:
  assumes "wf_bloom b"
  shows "bloom_might_contain (bloom_add s b) t \<longleftrightarrow>
    bit_count b = 0 \<or> hash_count b = 0 \<or>
    (\<forall>idx \<in> set (bloom_positions b t).
       idx \<in> set (bloom_positions b s) \<or> bloom_get_bit idx (bits b))"
proof (cases "bit_count b = 0 \<or> hash_count b = 0")
  case False
  then have "bits (bloom_add s b) = fold bloom_set_bit (bloom_positions b s) (bits b)"
    by (simp add: bloom_add_def)
  with False assms show ?thesis
    by (simp add: bloom_might_contain_def list_all_iff bloom_get_fold_set_bit
        bloom_positions_in_range)
qed (auto simp: bloom_might_contain_def)

interpretation bloom: membership_filter bloom_add bloom_might_contain wf_bloom
proof unfold_locales
  fix f k k' assume wf: "wf_bloom f"
  show "wf_bloom (bloom_add k f)" using wf by (rule bloom_add_wf)
  show "bloom_might_contain (bloom_add k f) k"
    using wf by (simp add: bloom_might_contain_add)
  assume "bloom_might_contain f k"
  then show "bloom_might_contain (bloom_add k' f) k"
    using wf by (auto simp: bloom_might_contain_add) (auto simp: bloom_might_contain_def list_all_iff)
qed

section \<open>Properties\<close>

text \<open>C9: The filter has no false negatives: after \<open>reset\<close> with any sizes a \<open>size_t\<close> computation
  does not overflow on, and any sequence of \<open>add\<close>s, every added string is reported as possibly
  contained; and every bit index the operations compute lies inside the byte vector.\<close>

theorem bloom_no_false_negatives:
  assumes "unat bc \<le> 2 ^ 64 - 8"
  shows "(\<forall>s \<in> set ss. bloom_might_contain (fold bloom_add ss (bloom_reset bc hc b)) s)
     \<and> (\<forall>idx \<in> set (bloom_positions (fold bloom_add ss (bloom_reset bc hc b)) t).
          in_range idx (bits (fold bloom_add ss (bloom_reset bc hc b))))"
proof -
  let ?b = "fold bloom_add ss (bloom_reset bc hc b)"
  have wf0: "wf_bloom (bloom_reset bc hc b)" using assms by (rule bloom_reset_wf)
  have "bit_count (fold bloom_add ss f) = bit_count f" for f
    by (induction ss arbitrary: f) auto
  moreover have "bit_count (bloom_reset bc hc b) \<noteq> 0"
    by (auto simp: bloom_reset_def Let_def max_def)
  ultimately have "bit_count ?b \<noteq> 0" by simp
  then show ?thesis
    using bloom.fold_complete [OF wf0] bloom.fold_inv [OF wf0] bloom_positions_in_range by blast
qed

theorem bloom_no_false_negatives_witness:
  "bloom_might_contain (fold bloom_add [''abc'', ''Zz9''] (bloom_reset 16 2 bloom_init)) ''abc''
   \<and> \<not> bloom_might_contain (fold bloom_add [''abc''] (bloom_reset 64 2 bloom_init)) ''q''"
proof -
  have "unat (16 :: u64) \<le> 2 ^ 64 - 8" by simp
  from bloom_no_false_negatives [OF this, of "[''abc'', ''Zz9'']" 2 bloom_init]
  have "bloom_might_contain (fold bloom_add [''abc'', ''Zz9''] (bloom_reset 16 2 bloom_init)) ''abc''"
    by simp
  moreover have
    "\<not> bloom_might_contain (fold bloom_add [''abc''] (bloom_reset 64 2 bloom_init)) ''q''"
    by code_simp
  ultimately show ?thesis by blast
qed

end
