(* ===== verification/Config.thy ===== *)
theory Config
  imports Prelude
begin

text \<open>
  \<open>src/config/config.h\<close> and \<open>config.cpp\<close>: the settings record, its defaults, and
  \<open>Config::load\<close>.  The YAML parser is a library the sources only call: it is the parameter record
  \<open>yaml_lib\<close>, whose operations may fail (the library's \<open>YAML::Exception\<close>).  The list of keys of
  each section, in the order the code reads them, is data here, and \<open>load_run\<close> is the code's
  straight line of \<open>if (s[key]) field = s[key].as<T>()\<close> statements over it: it returns the object
  as it is when the run ends, and whether it ended without an exception.
\<close>

section \<open>The settings\<close>

record config =
  port :: int
  thread_num :: int
  trig_mode :: int
  opt_linger :: bool
  actor_model :: int
  public_base_url :: string
  log_enabled :: bool
  log_async :: bool
  log_path :: string
  mysql_host :: string
  mysql_port :: int
  mysql_user :: string
  mysql_password :: string
  mysql_database :: string
  mysql_pool_size :: int
  mysql_acquire_timeout_ms :: int
  redis_enabled :: bool
  redis_uri :: string
  redis_connect_timeout_ms :: int
  redis_socket_timeout_ms :: int
  redis_pool_size :: int
  redis_probe_interval_ms :: int
  cache_ttl_seconds :: int
  cache_ttl_jitter_seconds :: int
  bloom_bits :: int
  bloom_hashes :: int
  bloom_hard_filter :: bool
  local_cache_shards :: int
  local_positive_bytes :: int
  local_negative_bytes :: int
  local_negative_ttl_seconds :: int
  singleflight_max_inflight :: int
  singleflight_max_waiters_per_key :: int
  origin_redirect_max_concurrent :: int
  origin_create_max_concurrent :: int
  kafka_enabled :: bool
  kafka_brokers :: string
  kafka_click_topic :: string
  kafka_message_timeout_ms :: int
  kafka_linger_ms :: int
  kafka_retries :: int
  kafka_queue_size :: int
  kafka_shutdown_timeout_ms :: int
  sharding_enabled :: bool
  shard_database_prefix :: string
  shard_table_prefix :: string
  shard_database_count :: int
  shard_table_count :: int
  snowflake_worker_id :: int
  structured_log_enabled :: bool
  structured_log_path :: string
  structured_log_queue_size :: int
  structured_log_shutdown_timeout_ms :: int
  close_log :: int

definition config_default :: config where
  "config_default =
     \<lparr>port = 9006,
      thread_num = 8,
      trig_mode = 0,
      opt_linger = False,
      actor_model = 0,
      public_base_url = ''http://localhost:9006'',
      log_enabled = True,
      log_async = False,
      log_path = ''./ServerLog'',
      mysql_host = ''localhost'',
      mysql_port = 3306,
      mysql_user = ''shorturl'',
      mysql_password = ''shorturl'',
      mysql_database = ''shorturl'',
      mysql_pool_size = 8,
      mysql_acquire_timeout_ms = 50,
      redis_enabled = True,
      redis_uri = ''tcp://127.0.0.1:6379'',
      redis_connect_timeout_ms = 200,
      redis_socket_timeout_ms = 200,
      redis_pool_size = 8,
      redis_probe_interval_ms = 1000,
      cache_ttl_seconds = 3600,
      cache_ttl_jitter_seconds = 300,
      bloom_bits = 1048576,
      bloom_hashes = 7,
      bloom_hard_filter = False,
      local_cache_shards = 16,
      local_positive_bytes = 64 * 1024 * 1024,
      local_negative_bytes = 4 * 1024 * 1024,
      local_negative_ttl_seconds = 30,
      singleflight_max_inflight = 1024,
      singleflight_max_waiters_per_key = 256,
      origin_redirect_max_concurrent = 64,
      origin_create_max_concurrent = 32,
      kafka_enabled = True,
      kafka_brokers = ''127.0.0.1:9092'',
      kafka_click_topic = ''shorturl.clicks'',
      kafka_message_timeout_ms = 3000,
      kafka_linger_ms = 5,
      kafka_retries = 3,
      kafka_queue_size = 8192,
      kafka_shutdown_timeout_ms = 2000,
      sharding_enabled = True,
      shard_database_prefix = ''shorturl_'',
      shard_table_prefix = ''short_url_'',
      shard_database_count = 4,
      shard_table_count = 4,
      snowflake_worker_id = - 1,
      structured_log_enabled = True,
      structured_log_path = ''./logs/access.jsonl'',
      structured_log_queue_size = 8192,
      structured_log_shutdown_timeout_ms = 1000,
      close_log = 0\<rparr>"

section \<open>Loading\<close>

record 'n yaml_lib =
  yaml_load_file :: "string \<Rightarrow> 'n option"             \<comment> \<open>\<open>YAML::LoadFile\<close>; \<open>None\<close> throws\<close>
  yaml_sub :: "'n \<Rightarrow> string \<Rightarrow> unit + 'n option"  \<comment> \<open>\<open>node[key]\<close>; \<open>Inl\<close> throws\<close>
  yaml_int :: "'n \<Rightarrow> int option"                     \<comment> \<open>\<open>as<int>()\<close>\<close>
  yaml_bool :: "'n \<Rightarrow> bool option"                   \<comment> \<open>\<open>as<bool>()\<close>\<close>
  yaml_str :: "'n \<Rightarrow> string option"                  \<comment> \<open>\<open>as<std::string>()\<close>\<close>

datatype cfg_setter =
    SetInt "int \<Rightarrow> config \<Rightarrow> config"
  | SetBool "bool \<Rightarrow> config \<Rightarrow> config"
  | SetStr "string \<Rightarrow> config \<Rightarrow> config"

definition server_entries :: "(string \<times> cfg_setter) list" where
  "server_entries =
     [(''port'', SetInt (\<lambda>v c. c\<lparr>port := v\<rparr>)),
      (''thread_num'', SetInt (\<lambda>v c. c\<lparr>thread_num := v\<rparr>)),
      (''trig_mode'', SetInt (\<lambda>v c. c\<lparr>trig_mode := v\<rparr>)),
      (''opt_linger'', SetBool (\<lambda>v c. c\<lparr>opt_linger := v\<rparr>)),
      (''actor_model'', SetInt (\<lambda>v c. c\<lparr>actor_model := v\<rparr>)),
      (''public_base_url'', SetStr (\<lambda>v c. c\<lparr>public_base_url := v\<rparr>))]"

definition log_entries :: "(string \<times> cfg_setter) list" where
  "log_entries =
     [(''enabled'', SetBool (\<lambda>v c. c\<lparr>log_enabled := v, close_log := (if v then 0 else 1)\<rparr>)),
      (''async'', SetBool (\<lambda>v c. c\<lparr>log_async := v\<rparr>)),
      (''path'', SetStr (\<lambda>v c. c\<lparr>log_path := v\<rparr>))]"

definition mysql_entries :: "(string \<times> cfg_setter) list" where
  "mysql_entries =
     [(''host'', SetStr (\<lambda>v c. c\<lparr>mysql_host := v\<rparr>)),
      (''port'', SetInt (\<lambda>v c. c\<lparr>mysql_port := v\<rparr>)),
      (''user'', SetStr (\<lambda>v c. c\<lparr>mysql_user := v\<rparr>)),
      (''password'', SetStr (\<lambda>v c. c\<lparr>mysql_password := v\<rparr>)),
      (''database'', SetStr (\<lambda>v c. c\<lparr>mysql_database := v\<rparr>)),
      (''pool_size'', SetInt (\<lambda>v c. c\<lparr>mysql_pool_size := v\<rparr>)),
      (''acquire_timeout_ms'', SetInt (\<lambda>v c. c\<lparr>mysql_acquire_timeout_ms := v\<rparr>))]"

definition redis_entries :: "(string \<times> cfg_setter) list" where
  "redis_entries =
     [(''enabled'', SetBool (\<lambda>v c. c\<lparr>redis_enabled := v\<rparr>)),
      (''uri'', SetStr (\<lambda>v c. c\<lparr>redis_uri := v\<rparr>)),
      (''connect_timeout_ms'', SetInt (\<lambda>v c. c\<lparr>redis_connect_timeout_ms := v\<rparr>)),
      (''socket_timeout_ms'', SetInt (\<lambda>v c. c\<lparr>redis_socket_timeout_ms := v\<rparr>)),
      (''pool_size'', SetInt (\<lambda>v c. c\<lparr>redis_pool_size := v\<rparr>)),
      (''probe_interval_ms'', SetInt (\<lambda>v c. c\<lparr>redis_probe_interval_ms := v\<rparr>))]"

definition cache_entries :: "(string \<times> cfg_setter) list" where
  "cache_entries =
     [(''ttl_seconds'', SetInt (\<lambda>v c. c\<lparr>cache_ttl_seconds := v\<rparr>)),
      (''ttl_jitter_seconds'', SetInt (\<lambda>v c. c\<lparr>cache_ttl_jitter_seconds := v\<rparr>)),
      (''bloom_bits'', SetInt (\<lambda>v c. c\<lparr>bloom_bits := v\<rparr>)),
      (''bloom_hashes'', SetInt (\<lambda>v c. c\<lparr>bloom_hashes := v\<rparr>)),
      (''bloom_hard_filter'', SetBool (\<lambda>v c. c\<lparr>bloom_hard_filter := v\<rparr>)),
      (''local_shards'', SetInt (\<lambda>v c. c\<lparr>local_cache_shards := v\<rparr>)),
      (''local_positive_bytes'', SetInt (\<lambda>v c. c\<lparr>local_positive_bytes := v\<rparr>)),
      (''local_negative_bytes'', SetInt (\<lambda>v c. c\<lparr>local_negative_bytes := v\<rparr>)),
      (''local_negative_ttl_seconds'', SetInt (\<lambda>v c. c\<lparr>local_negative_ttl_seconds := v\<rparr>)),
      (''singleflight_max_inflight'', SetInt (\<lambda>v c. c\<lparr>singleflight_max_inflight := v\<rparr>)),
      (''singleflight_max_waiters_per_key'', SetInt (\<lambda>v c. c\<lparr>singleflight_max_waiters_per_key := v\<rparr>)),
      (''origin_redirect_max_concurrent'', SetInt (\<lambda>v c. c\<lparr>origin_redirect_max_concurrent := v\<rparr>)),
      (''origin_create_max_concurrent'', SetInt (\<lambda>v c. c\<lparr>origin_create_max_concurrent := v\<rparr>))]"

definition kafka_entries :: "(string \<times> cfg_setter) list" where
  "kafka_entries =
     [(''enabled'', SetBool (\<lambda>v c. c\<lparr>kafka_enabled := v\<rparr>)),
      (''brokers'', SetStr (\<lambda>v c. c\<lparr>kafka_brokers := v\<rparr>)),
      (''click_topic'', SetStr (\<lambda>v c. c\<lparr>kafka_click_topic := v\<rparr>)),
      (''message_timeout_ms'', SetInt (\<lambda>v c. c\<lparr>kafka_message_timeout_ms := v\<rparr>)),
      (''linger_ms'', SetInt (\<lambda>v c. c\<lparr>kafka_linger_ms := v\<rparr>)),
      (''retries'', SetInt (\<lambda>v c. c\<lparr>kafka_retries := v\<rparr>)),
      (''queue_size'', SetInt (\<lambda>v c. c\<lparr>kafka_queue_size := v\<rparr>)),
      (''shutdown_timeout_ms'', SetInt (\<lambda>v c. c\<lparr>kafka_shutdown_timeout_ms := v\<rparr>))]"

definition sharding_entries :: "(string \<times> cfg_setter) list" where
  "sharding_entries =
     [(''enabled'', SetBool (\<lambda>v c. c\<lparr>sharding_enabled := v\<rparr>)),
      (''database_prefix'', SetStr (\<lambda>v c. c\<lparr>shard_database_prefix := v\<rparr>)),
      (''table_prefix'', SetStr (\<lambda>v c. c\<lparr>shard_table_prefix := v\<rparr>)),
      (''database_count'', SetInt (\<lambda>v c. c\<lparr>shard_database_count := v\<rparr>)),
      (''table_count'', SetInt (\<lambda>v c. c\<lparr>shard_table_count := v\<rparr>))]"

definition snowflake_entries :: "(string \<times> cfg_setter) list" where
  "snowflake_entries =
     [(''worker_id'', SetInt (\<lambda>v c. c\<lparr>snowflake_worker_id := v\<rparr>))]"

definition observability_entries :: "(string \<times> cfg_setter) list" where
  "observability_entries =
     [(''structured_log_enabled'', SetBool (\<lambda>v c. c\<lparr>structured_log_enabled := v\<rparr>)),
      (''structured_log_path'', SetStr (\<lambda>v c. c\<lparr>structured_log_path := v\<rparr>)),
      (''structured_log_queue_size'', SetInt (\<lambda>v c. c\<lparr>structured_log_queue_size := v\<rparr>)),
      (''structured_log_shutdown_timeout_ms'', SetInt (\<lambda>v c. c\<lparr>structured_log_shutdown_timeout_ms := v\<rparr>))]"

definition config_sections :: "(string \<times> (string \<times> cfg_setter) list) list" where
  "config_sections =
     [(''server'', server_entries),
      (''log'', log_entries),
      (''mysql'', mysql_entries),
      (''redis'', redis_entries),
      (''cache'', cache_entries),
      (''kafka'', kafka_entries),
      (''sharding'', sharding_entries),
      (''snowflake'', snowflake_entries),
      (''observability'', observability_entries)]"

text \<open>One statement \<open>field = node.as<T>()\<close>: \<open>None\<close> when the conversion throws.\<close>

fun apply_setter :: "'n yaml_lib \<Rightarrow> 'n \<Rightarrow> cfg_setter \<Rightarrow> config \<Rightarrow> config option" where
  "apply_setter lib n (SetInt f) c = map_option (\<lambda>v. f v c) (yaml_int lib n)"
| "apply_setter lib n (SetBool f) c = map_option (\<lambda>v. f v c) (yaml_bool lib n)"
| "apply_setter lib n (SetStr f) c = map_option (\<lambda>v. f v c) (yaml_str lib n)"

fun run_entries ::
  "'n yaml_lib \<Rightarrow> 'n \<Rightarrow> (string \<times> cfg_setter) list \<Rightarrow> config \<Rightarrow> config \<times> bool" where
  "run_entries lib s [] c = (c, True)"
| "run_entries lib s ((key, st) # es) c =
     (case yaml_sub lib s key of
        Inl _ \<Rightarrow> (c, False)
      | Inr None \<Rightarrow> run_entries lib s es c
      | Inr (Some n) \<Rightarrow>
          (case apply_setter lib n st c of
             None \<Rightarrow> (c, False)
           | Some c' \<Rightarrow> run_entries lib s es c'))"

fun run_sections ::
  "'n yaml_lib \<Rightarrow> 'n \<Rightarrow> (string \<times> (string \<times> cfg_setter) list) list \<Rightarrow> config \<Rightarrow> config \<times> bool"
where
  "run_sections lib cfg [] c = (c, True)"
| "run_sections lib cfg ((name, es) # ss) c =
     (case yaml_sub lib cfg name of
        Inl _ \<Rightarrow> (c, False)
      | Inr None \<Rightarrow> run_sections lib cfg ss c
      | Inr (Some s) \<Rightarrow>
          (case run_entries lib s es c of
             (c', True) \<Rightarrow> run_sections lib cfg ss c'
           | (c', False) \<Rightarrow> (c', False)))"

definition load_run :: "'n yaml_lib \<Rightarrow> string \<Rightarrow> config \<Rightarrow> config \<times> bool" where
  "load_run lib path c =
     (case yaml_load_file lib path of
        None \<Rightarrow> (c, False)
      | Some cfg \<Rightarrow> run_sections lib cfg config_sections c)"

text \<open>\<open>Config::load\<close>: snapshot, run, and on an exception restore the snapshot.\<close>

definition config_load :: "'n yaml_lib \<Rightarrow> string \<Rightarrow> config \<Rightarrow> config \<times> bool" where
  "config_load lib path this =
     (let rollback = this
      in case load_run lib path this of
           (this', True) \<Rightarrow> (this', True)
         | (this', False) \<Rightarrow> (rollback, False))"

section \<open>The settings as a table\<close>

text \<open>A setting is named by its section and key; \<open>config_rows\<close> lists the value of each one.\<close>

datatype cfg_value = IntV int | BoolV bool | StrV string

definition config_rows :: "config \<Rightarrow> ((string \<times> string) \<times> cfg_value) list" where
  "config_rows c =
     [((''server'', ''port''), IntV (port c)),
      ((''server'', ''thread_num''), IntV (thread_num c)),
      ((''server'', ''trig_mode''), IntV (trig_mode c)),
      ((''server'', ''opt_linger''), BoolV (opt_linger c)),
      ((''server'', ''actor_model''), IntV (actor_model c)),
      ((''server'', ''public_base_url''), StrV (public_base_url c)),
      ((''log'', ''enabled''), BoolV (log_enabled c)),
      ((''log'', ''async''), BoolV (log_async c)),
      ((''log'', ''path''), StrV (log_path c)),
      ((''mysql'', ''host''), StrV (mysql_host c)),
      ((''mysql'', ''port''), IntV (mysql_port c)),
      ((''mysql'', ''user''), StrV (mysql_user c)),
      ((''mysql'', ''password''), StrV (mysql_password c)),
      ((''mysql'', ''database''), StrV (mysql_database c)),
      ((''mysql'', ''pool_size''), IntV (mysql_pool_size c)),
      ((''mysql'', ''acquire_timeout_ms''), IntV (mysql_acquire_timeout_ms c)),
      ((''redis'', ''enabled''), BoolV (redis_enabled c)),
      ((''redis'', ''uri''), StrV (redis_uri c)),
      ((''redis'', ''connect_timeout_ms''), IntV (redis_connect_timeout_ms c)),
      ((''redis'', ''socket_timeout_ms''), IntV (redis_socket_timeout_ms c)),
      ((''redis'', ''pool_size''), IntV (redis_pool_size c)),
      ((''redis'', ''probe_interval_ms''), IntV (redis_probe_interval_ms c)),
      ((''cache'', ''ttl_seconds''), IntV (cache_ttl_seconds c)),
      ((''cache'', ''ttl_jitter_seconds''), IntV (cache_ttl_jitter_seconds c)),
      ((''cache'', ''bloom_bits''), IntV (bloom_bits c)),
      ((''cache'', ''bloom_hashes''), IntV (bloom_hashes c)),
      ((''cache'', ''bloom_hard_filter''), BoolV (bloom_hard_filter c)),
      ((''cache'', ''local_shards''), IntV (local_cache_shards c)),
      ((''cache'', ''local_positive_bytes''), IntV (local_positive_bytes c)),
      ((''cache'', ''local_negative_bytes''), IntV (local_negative_bytes c)),
      ((''cache'', ''local_negative_ttl_seconds''), IntV (local_negative_ttl_seconds c)),
      ((''cache'', ''singleflight_max_inflight''), IntV (singleflight_max_inflight c)),
      ((''cache'', ''singleflight_max_waiters_per_key''), IntV (singleflight_max_waiters_per_key c)),
      ((''cache'', ''origin_redirect_max_concurrent''), IntV (origin_redirect_max_concurrent c)),
      ((''cache'', ''origin_create_max_concurrent''), IntV (origin_create_max_concurrent c)),
      ((''kafka'', ''enabled''), BoolV (kafka_enabled c)),
      ((''kafka'', ''brokers''), StrV (kafka_brokers c)),
      ((''kafka'', ''click_topic''), StrV (kafka_click_topic c)),
      ((''kafka'', ''message_timeout_ms''), IntV (kafka_message_timeout_ms c)),
      ((''kafka'', ''linger_ms''), IntV (kafka_linger_ms c)),
      ((''kafka'', ''retries''), IntV (kafka_retries c)),
      ((''kafka'', ''queue_size''), IntV (kafka_queue_size c)),
      ((''kafka'', ''shutdown_timeout_ms''), IntV (kafka_shutdown_timeout_ms c)),
      ((''sharding'', ''enabled''), BoolV (sharding_enabled c)),
      ((''sharding'', ''database_prefix''), StrV (shard_database_prefix c)),
      ((''sharding'', ''table_prefix''), StrV (shard_table_prefix c)),
      ((''sharding'', ''database_count''), IntV (shard_database_count c)),
      ((''sharding'', ''table_count''), IntV (shard_table_count c)),
      ((''snowflake'', ''worker_id''), IntV (snowflake_worker_id c)),
      ((''observability'', ''structured_log_enabled''), BoolV (structured_log_enabled c)),
      ((''observability'', ''structured_log_path''), StrV (structured_log_path c)),
      ((''observability'', ''structured_log_queue_size''), IntV (structured_log_queue_size c)),
      ((''observability'', ''structured_log_shutdown_timeout_ms''), IntV (structured_log_shutdown_timeout_ms c))]"

definition set_row :: "string \<times> string \<Rightarrow> cfg_value \<Rightarrow> ((string \<times> string) \<times> cfg_value) list \<Rightarrow>
    ((string \<times> string) \<times> cfg_value) list" where
  "set_row k v = map (\<lambda>(k', v'). (k', if k' = k then v else v'))"

text \<open>What the file says of a setting whose field holds a value of the type of \<open>v\<close>: the lookup or the
  conversion throws (\<open>Inl\<close>), the key is absent, or it has a value of that type.\<close>

fun read_as :: "'n yaml_lib \<Rightarrow> 'n \<Rightarrow> cfg_value \<Rightarrow> cfg_value option" where
  "read_as lib n (IntV _) = map_option IntV (yaml_int lib n)"
| "read_as lib n (BoolV _) = map_option BoolV (yaml_bool lib n)"
| "read_as lib n (StrV _) = map_option StrV (yaml_str lib n)"

definition entry_value :: "'n yaml_lib \<Rightarrow> 'n \<Rightarrow> string \<Rightarrow> cfg_value \<Rightarrow> unit + cfg_value option" where
  "entry_value lib s key v =
     (case yaml_sub lib s key of
        Inl e \<Rightarrow> Inl e
      | Inr None \<Rightarrow> Inr None
      | Inr (Some n) \<Rightarrow> (case read_as lib n v of None \<Rightarrow> Inl () | Some w \<Rightarrow> Inr (Some w)))"

definition file_value :: "'n yaml_lib \<Rightarrow> 'n \<Rightarrow> string \<times> string \<Rightarrow> cfg_value \<Rightarrow> unit + cfg_value option" where
  "file_value lib cfg k v =
     (case yaml_sub lib cfg (fst k) of
        Inl e \<Rightarrow> Inl e
      | Inr None \<Rightarrow> Inr None
      | Inr (Some s) \<Rightarrow> entry_value lib s (snd k) v)"

definition override :: "unit + cfg_value option \<Rightarrow> cfg_value \<Rightarrow> cfg_value" where
  "override r v = (case r of Inr (Some w) \<Rightarrow> w | _ \<Rightarrow> v)"

text \<open>A setter writes its own row, with a value of the type it holds.\<close>

fun setter_value :: "'n yaml_lib \<Rightarrow> 'n \<Rightarrow> cfg_setter \<Rightarrow> cfg_value option" where
  "setter_value lib n (SetInt _) = map_option IntV (yaml_int lib n)"
| "setter_value lib n (SetBool _) = map_option BoolV (yaml_bool lib n)"
| "setter_value lib n (SetStr _) = map_option StrV (yaml_str lib n)"

fun writes_row :: "string \<times> string \<Rightarrow> cfg_setter \<Rightarrow> bool" where
  "writes_row k (SetInt f) = (\<forall>v c. config_rows (f v c) = set_row k (IntV v) (config_rows c))"
| "writes_row k (SetBool f) = (\<forall>v c. config_rows (f v c) = set_row k (BoolV v) (config_rows c))"
| "writes_row k (SetStr f) = (\<forall>v c. config_rows (f v c) = set_row k (StrV v) (config_rows c))"

fun same_type :: "cfg_setter \<Rightarrow> cfg_value \<Rightarrow> bool" where
  "same_type (SetInt _) (IntV _) = True"
| "same_type (SetBool _) (BoolV _) = True"
| "same_type (SetStr _) (StrV _) = True"
| "same_type _ _ = False"

text \<open>The statements of \<open>Config::load\<close>, one per setting, in order.\<close>

definition config_entries :: "((string \<times> string) \<times> cfg_setter) list" where
  "config_entries = concat (map (\<lambda>(sec, es). map (\<lambda>(key, st). ((sec, key), st)) es) config_sections)"

lemmas entries_defs = server_entries_def log_entries_def mysql_entries_def redis_entries_def cache_entries_def
  kafka_entries_def sharding_entries_def snowflake_entries_def observability_entries_def

lemma entries_write_rows:
  "list_all (\<lambda>(key, st). writes_row (''server'', key) st) server_entries"
  "list_all (\<lambda>(key, st). writes_row (''log'', key) st) log_entries"
  "list_all (\<lambda>(key, st). writes_row (''mysql'', key) st) mysql_entries"
  "list_all (\<lambda>(key, st). writes_row (''redis'', key) st) redis_entries"
  "list_all (\<lambda>(key, st). writes_row (''cache'', key) st) cache_entries"
  "list_all (\<lambda>(key, st). writes_row (''kafka'', key) st) kafka_entries"
  "list_all (\<lambda>(key, st). writes_row (''sharding'', key) st) sharding_entries"
  "list_all (\<lambda>(key, st). writes_row (''snowflake'', key) st) snowflake_entries"
  "list_all (\<lambda>(key, st). writes_row (''observability'', key) st) observability_entries"
  by (simp_all add: entries_defs config_rows_def set_row_def)

lemma sections_write_rows:
  "list_all (\<lambda>(sec, es). list_all (\<lambda>(key, st). writes_row (sec, key) st) es) config_sections"
  by (simp add: config_sections_def entries_write_rows)

lemma rows_match_entries:
  "list_all2 (\<lambda>(k, v) (k', st). k = k' \<and> same_type st v) (config_rows c) config_entries"
  by (simp add: config_rows_def config_entries_def config_sections_def entries_defs)

lemma section_names_distinct: "distinct (map fst config_sections)"
  by (simp add: config_sections_def)

lemma entry_keys_distinct: "list_all (\<lambda>(sec, es). distinct (map fst es)) config_sections"
  by (simp add: config_sections_def entries_defs)

lemma distinct_nested_keys:
  assumes "distinct (map fst ss)" "list_all (\<lambda>(sec, es). distinct (map fst es)) ss"
  shows "distinct (map fst (concat (map (\<lambda>(sec, es). map (\<lambda>(key, st). ((sec, key), st)) es) ss)))"
  using assms
proof (induction ss)
  case (Cons p ss)
  obtain sec es where p: "p = (sec, es)" by (cases p)
  have "distinct (map fst (map (\<lambda>(key, st). ((sec, key), st)) es))" if "distinct (map fst es)" for es :: "('b \<times> 'c) list"
    using that by (induction es) (auto simp: image_iff)
  with Cons p show ?case by (fastforce simp: image_iff)
qed simp

lemma config_keys_distinct: "distinct (map fst (config_rows c))"
proof -
  have "map fst (config_rows c) = map fst config_entries"
    using rows_match_entries [of c] by (induction rule: list_all2_induct) auto
  with distinct_nested_keys [OF section_names_distinct entry_keys_distinct] show ?thesis
    by (simp add: config_entries_def)
qed

section \<open>A load is an update of the table\<close>

definition put_row :: "string \<times> string \<Rightarrow> unit + cfg_value option \<Rightarrow> ((string \<times> string) \<times> cfg_value) list \<Rightarrow>
    ((string \<times> string) \<times> cfg_value) list" where
  "put_row k r = (case r of Inr (Some v) \<Rightarrow> set_row k v | _ \<Rightarrow> id)"

definition entry_read :: "'n yaml_lib \<Rightarrow> 'n \<Rightarrow> string \<Rightarrow> cfg_setter \<Rightarrow> unit + cfg_value option" where
  "entry_read lib s key st =
     (case yaml_sub lib s key of
        Inl e \<Rightarrow> Inl e
      | Inr None \<Rightarrow> Inr None
      | Inr (Some n) \<Rightarrow> (case setter_value lib n st of None \<Rightarrow> Inl () | Some w \<Rightarrow> Inr (Some w)))"

definition file_read :: "'n yaml_lib \<Rightarrow> 'n \<Rightarrow> string \<Rightarrow> string \<Rightarrow> cfg_setter \<Rightarrow> unit + cfg_value option" where
  "file_read lib cfg sec key st =
     (case yaml_sub lib cfg sec of
        Inl e \<Rightarrow> Inl e
      | Inr None \<Rightarrow> Inr None
      | Inr (Some s) \<Rightarrow> entry_read lib s key st)"

lemma apply_setter_row:
  assumes "writes_row k st"
  shows "case setter_value lib n st of
      None \<Rightarrow> apply_setter lib n st c = None
    | Some v \<Rightarrow> \<exists>c'. apply_setter lib n st c = Some c' \<and> config_rows c' = set_row k v (config_rows c)"
  using assms by (cases st) (auto split: option.splits)

lemma run_entries_rows:
  assumes "list_all (\<lambda>(key, st). writes_row (sec, key) st) es" "run_entries lib s es c = (c', ok)"
  shows "ok = list_all (\<lambda>(key, st). entry_read lib s key st \<noteq> Inl ()) es
    \<and> (ok \<longrightarrow> config_rows c' = fold (\<lambda>(key, st). put_row (sec, key) (entry_read lib s key st)) es (config_rows c))"
  using assms
proof (induction es arbitrary: c)
  case (Cons e es)
  obtain key st where e: "e = (key, st)" by (cases e)
  have w: "writes_row (sec, key) st" using Cons.prems(1) e by simp
  note IH = Cons.IH [OF _ _] and row = apply_setter_row [OF w, of lib]
  show ?case
  proof (cases "yaml_sub lib s key")
    case (Inl u)
    with Cons.prems e show ?thesis by (simp add: entry_read_def)
  next
    case (Inr r)
    show ?thesis
    proof (cases r)
      case None
      with Inr Cons e show ?thesis by (simp add: entry_read_def put_row_def)
    next
      case (Some n)
      with Inr Cons e row [of n c] show ?thesis
        by (auto simp: entry_read_def put_row_def split: option.splits)
    qed
  qed
qed simp

lemma run_sections_rows:
  assumes "list_all (\<lambda>(sec, es). list_all (\<lambda>(key, st). writes_row (sec, key) st) es) ss"
    "list_all (\<lambda>(sec, es). es \<noteq> []) ss" "run_sections lib cfg ss c = (c', ok)"
  defines "table \<equiv> concat (map (\<lambda>(sec, es). map (\<lambda>(key, st). ((sec, key), file_read lib cfg sec key st)) es) ss)"
  shows "ok = list_all (\<lambda>(k, r). r \<noteq> Inl ()) table
    \<and> (ok \<longrightarrow> config_rows c' = fold (\<lambda>(k, r). put_row k r) table (config_rows c))"
  using assms(1-3) unfolding table_def
proof (induction ss arbitrary: c)
  case (Cons p ss)
  obtain sec es where p: "p = (sec, es)" by (cases p)
  let ?t = "map (\<lambda>(key, st). ((sec, key), file_read lib cfg sec key st)) es"
  show ?case
  proof (cases "yaml_sub lib cfg sec")
    case (Inl u)
    with Cons.prems p show ?thesis by (cases es) (auto simp: file_read_def)
  next
    case (Inr r)
    show ?thesis
    proof (cases r)
      case None
      have "list_all (\<lambda>(k, r). r \<noteq> Inl ()) ?t" "fold (\<lambda>(k, r). put_row k r) ?t rows = rows" for rows
        using Inr None by (induction es) (auto simp: file_read_def put_row_def)
      with Inr None Cons p show ?thesis by simp
    next
      case (Some s)
      obtain c1 ok1 where r: "run_entries lib s es c = (c1, ok1)" by (cases "run_entries lib s es c")
      have t: "list_all (\<lambda>(k, r). r \<noteq> Inl ()) ?t = list_all (\<lambda>(key, st). entry_read lib s key st \<noteq> Inl ()) es"
        "fold (\<lambda>(k, r). put_row k r) ?t rows = fold (\<lambda>(key, st). put_row (sec, key) (entry_read lib s key st)) es rows" for rows
        using Inr Some by (induction es arbitrary: rows) (auto simp: file_read_def)
      from run_entries_rows [OF _ r, of sec] Cons.prems(1) p have
        "ok1 = list_all (\<lambda>(k, r). r \<noteq> Inl ()) ?t \<and> (ok1 \<longrightarrow> config_rows c1 = fold (\<lambda>(k, r). put_row k r) ?t (config_rows c))"
        by (simp add: t)
      with Inr Some r Cons p show ?thesis by (cases ok1) auto
    qed
  qed
qed simp

lemma fold_put_row:
  assumes "distinct (map fst rs)"
  shows "fold (\<lambda>(k, r). put_row k r) rs rows =
    map (\<lambda>(k, v). (k, case map_of rs k of Some r \<Rightarrow> override r v | None \<Rightarrow> v)) rows"
  using assms
proof (induction rs arbitrary: rows)
  case (Cons p rs)
  obtain k r where p: "p = (k, r)" by (cases p)
  have "map_of rs k = None" using Cons.prems p by (auto simp: map_of_eq_None_iff)
  with Cons p show ?case
    by (auto simp: put_row_def set_row_def override_def split: sum.splits option.splits)
qed (simp add: case_prod_beta)

lemma setter_value_typed: "same_type st v \<Longrightarrow> setter_value lib n st = read_as lib n v"
  by (cases st; cases v) simp_all

lemma file_read_value: "same_type st v \<Longrightarrow> file_read lib cfg sec key st = file_value lib cfg (sec, key) v"
  by (auto simp: file_read_def file_value_def entry_read_def entry_value_def setter_value_typed
      split: sum.splits option.splits)

lemma file_table_rows:
  "concat (map (\<lambda>(sec, es). map (\<lambda>(key, st). ((sec, key), file_read lib cfg sec key st)) es) config_sections)
     = map (\<lambda>(k, v). (k, file_value lib cfg k v)) (config_rows c)"
proof -
  have "concat (map (\<lambda>(sec, es). map (\<lambda>(key, st). ((sec, key), file_read lib cfg sec key st)) es) ss)
      = map (\<lambda>(k, st). (k, file_read lib cfg (fst k) (snd k) st))
          (concat (map (\<lambda>(sec, es). map (\<lambda>(key, st). ((sec, key), st)) es) ss))" for ss
    by (induction ss) (auto simp: case_prod_beta)
  moreover have "map (\<lambda>(k, st). (k, file_read lib cfg (fst k) (snd k) st)) config_entries
      = map (\<lambda>(k, v). (k, file_value lib cfg k v)) (config_rows c)"
    using rows_match_entries [of c] by (induction rule: list_all2_induct) (auto simp: file_read_value)
  ultimately show ?thesis by (simp add: config_entries_def)
qed

lemma map_of_map_value: "map_of (map (\<lambda>(k, v). (k, f k v)) xs) k = map_option (f k) (map_of xs k)"
  by (induction xs) auto

lemma load_run_rows:
  assumes "yaml_load_file lib path = Some cfg" "load_run lib path c = (c', ok)"
  shows "ok = list_all (\<lambda>(k, v). file_value lib cfg k v \<noteq> Inl ()) (config_rows c)
    \<and> (ok \<longrightarrow> config_rows c' = map (\<lambda>(k, v). (k, override (file_value lib cfg k v) v)) (config_rows c))"
proof -
  let ?t = "map (\<lambda>(k, v). (k, file_value lib cfg k v)) (config_rows c)"
  have ne: "list_all (\<lambda>(sec, es). es \<noteq> []) config_sections" by (simp add: config_sections_def entries_defs)
  have "run_sections lib cfg config_sections c = (c', ok)" using assms by (simp add: load_run_def)
  from run_sections_rows [OF sections_write_rows ne this, unfolded file_table_rows [of lib cfg c]] have run: "ok = list_all (\<lambda>(k, r). r \<noteq> Inl ()) ?t
    \<and> (ok \<longrightarrow> config_rows c' = fold (\<lambda>(k, r). put_row k r) ?t (config_rows c))"
    .
  have keys: "map fst ?t = map fst (config_rows c)" by (simp add: case_prod_beta comp_def)
  have val: "map_of ?t k = Some (file_value lib cfg k v)" if "(k, v) \<in> set (config_rows c)" for k v
    using map_of_is_SomeI [OF config_keys_distinct that] by (simp add: map_of_map_value)
  have "distinct (map fst ?t)" unfolding keys by (rule config_keys_distinct)
  from fold_put_row [OF this] have "fold (\<lambda>(k, r). put_row k r) ?t (config_rows c)
      = map (\<lambda>(k, v). (k, override (file_value lib cfg k v) v)) (config_rows c)"
    by (simp only:) (rule map_cong [OF refl], clarify, simp only: prod.case val option.case)
  with run show ?thesis by (auto simp: list_all_iff)
qed

text \<open>\<open>close_log\<close> is what the log macros test; it follows \<open>log_enabled\<close>.\<close>

definition log_flag_ok :: "config \<Rightarrow> bool" where
  "log_flag_ok c \<longleftrightarrow> close_log c = (if log_enabled c then 0 else 1)"

fun keeps_log_flag :: "cfg_setter \<Rightarrow> bool" where
  "keeps_log_flag (SetInt f) = (\<forall>v c. log_flag_ok c \<longrightarrow> log_flag_ok (f v c))"
| "keeps_log_flag (SetBool f) = (\<forall>v c. log_flag_ok c \<longrightarrow> log_flag_ok (f v c))"
| "keeps_log_flag (SetStr f) = (\<forall>v c. log_flag_ok c \<longrightarrow> log_flag_ok (f v c))"

lemma sections_keep_log_flag: "list_all (\<lambda>(sec, es). list_all (\<lambda>(key, st). keeps_log_flag st) es) config_sections"
  by (simp add: config_sections_def entries_defs log_flag_ok_def)

lemma keeps_log_flagD: "keeps_log_flag st \<Longrightarrow> log_flag_ok c \<Longrightarrow> apply_setter lib n st c = Some c' \<Longrightarrow> log_flag_ok c'"
  by (cases st) auto

lemma run_entries_log_flag:
  "list_all (\<lambda>(key, st). keeps_log_flag st) es \<Longrightarrow> log_flag_ok c \<Longrightarrow> run_entries lib s es c = (c', ok) \<Longrightarrow> log_flag_ok c'"
  by (induction es arbitrary: c) (auto split: sum.splits option.splits, metis keeps_log_flagD)

lemma run_sections_log_flag:
  "list_all (\<lambda>(sec, es). list_all (\<lambda>(key, st). keeps_log_flag st) es) ss \<Longrightarrow> log_flag_ok c \<Longrightarrow>
     run_sections lib cfg ss c = (c', ok) \<Longrightarrow> log_flag_ok c'"
  by (induction ss arbitrary: c)
    (auto split: sum.splits option.splits prod.splits bool.splits dest: run_entries_log_flag)

section \<open>Properties\<close>

text \<open>C11: a load succeeds exactly when the file can be read and every setting it gives has the type of its field;
  then each setting has the value of the file, or keeps its own where the file has none.  When it fails the
  settings are what they were.  In both cases the log switch \<open>close_log\<close> follows \<open>log_enabled\<close> if it did before.\<close>

theorem config_load_typed:
  assumes "config_load lib path c = (c', ok)"
  shows "ok = (case yaml_load_file lib path of None \<Rightarrow> False
        | Some cfg \<Rightarrow> list_all (\<lambda>(k, v). file_value lib cfg k v \<noteq> Inl ()) (config_rows c))
    \<and> (if ok then config_rows c' =
          map (\<lambda>(k, v). (k, override (file_value lib (the (yaml_load_file lib path)) k v) v)) (config_rows c)
        else c' = c)
    \<and> (log_flag_ok c \<longrightarrow> log_flag_ok c')"
proof -
  obtain c1 ok1 where r: "load_run lib path c = (c1, ok1)" by (cases "load_run lib path c")
  with assms have res: "ok = ok1" "c' = (if ok then c1 else c)"
    by (auto simp: config_load_def Let_def split: bool.splits)
  show ?thesis
  proof (cases "yaml_load_file lib path")
    case None
    with res r show ?thesis by (simp add: load_run_def)
  next
    case (Some cfg)
    with r have "log_flag_ok c \<Longrightarrow> log_flag_ok c1"
      using run_sections_log_flag [OF sections_keep_log_flag] by (simp add: load_run_def)
    with Some res load_run_rows [OF Some r] show ?thesis by simp
  qed
qed

text \<open>A small YAML tree, in which \<open>node[key]\<close> throws on a scalar.\<close>

datatype demo_node = DInt int | DBool bool | DStr string | DMap "(string \<times> demo_node) list"

fun demo_sub :: "demo_node \<Rightarrow> string \<Rightarrow> unit + demo_node option" where
  "demo_sub (DMap kvs) key = Inr (map_of kvs key)"
| "demo_sub _ _ = Inl ()"

definition demo_yaml :: "demo_node \<Rightarrow> demo_node yaml_lib" where
  "demo_yaml root =
     \<lparr>yaml_load_file = (\<lambda>path. if path = ''config.yaml'' then Some root else None), yaml_sub = demo_sub,
      yaml_int = (\<lambda>n. case n of DInt i \<Rightarrow> Some i | _ \<Rightarrow> None),
      yaml_bool = (\<lambda>n. case n of DBool b \<Rightarrow> Some b | _ \<Rightarrow> None),
      yaml_str = (\<lambda>n. case n of DStr s \<Rightarrow> Some s | _ \<Rightarrow> None)\<rparr>"

lemma demo_loads: "yaml_load_file (demo_yaml root) ''config.yaml'' = Some root"
  by (simp add: demo_yaml_def)

theorem config_load_typed_witness:
  "case config_load (demo_yaml (DMap [(''log'', DMap [(''enabled'', DBool False)]), (''mysql'', DMap [(''port'', DInt 3307)])]))
      ''config.yaml'' config_default of
     (c', ok) \<Rightarrow> ok \<and> map_of (config_rows c') (''mysql'', ''port'') = Some (IntV 3307)
       \<and> map_of (config_rows c') (''server'', ''port'') = Some (IntV 9006) \<and> log_flag_ok c'"
proof -
  define root where "root = DMap [(''log'', DMap [(''enabled'', DBool False)]), (''mysql'', DMap [(''port'', DInt 3307)])]"
  obtain c' ok where r: "config_load (demo_yaml root) ''config.yaml'' config_default = (c', ok)"
    by (cases "config_load (demo_yaml root) ''config.yaml'' config_default")
  note t = config_load_typed [OF r, unfolded demo_loads option.case option.sel]
  note eval = config_rows_def root_def demo_yaml_def file_value_def entry_value_def
  have "list_all (\<lambda>(k, v). file_value (demo_yaml root) root k v \<noteq> Inl ()) (config_rows config_default)"
    by (simp add: eval)
  with t have ok: "ok" by (simp only:)
  with t have rows: "config_rows c' = map (\<lambda>(k, v). (k, override (file_value (demo_yaml root) root k v) v)) (config_rows config_default)"
    by (simp only: if_True)
  have "log_flag_ok c'" using t by (simp add: log_flag_ok_def config_default_def)
  moreover have "map_of (config_rows c') (''mysql'', ''port'') = Some (IntV 3307)"
    "map_of (config_rows c') (''server'', ''port'') = Some (IntV 9006)" unfolding rows
    by (simp_all add: eval config_default_def override_def)
  ultimately show ?thesis using r ok by (simp add: root_def)
qed

end
