(* ===== verification/Shard_Router.thy ===== *)
theory Shard_Router
  imports Config
begin

text \<open>
  \<open>src/shorturl/shard_router.h\<close> and \<open>shard_router.cpp\<close>: which MySQL table holds a short
  code.  C \<open>int\<close>s are \<open>int\<close> here (no arithmetic on them can overflow under \<open>wf_router\<close>);
  hashing and the bucket computation are on 64-bit words, and the two \<open>static_cast<int>\<close>s truncate
  to 32 bits.
\<close>

record shard_router =
  enabled :: bool
  database_prefix :: string
  table_prefix :: string
  database_count :: int
  table_count :: int

record shard_route =
  database_index :: int
  table_index :: int
  database_name :: string
  table_name :: string
  qualified_table :: string

definition shard_router_new :: shard_router where
  "shard_router_new =
     \<lparr>enabled = False, database_prefix = ''shorturl_'', table_prefix = ''short_url_'',
      database_count = 4, table_count = 4\<rparr>"

definition shard_router_init :: "config \<Rightarrow> shard_router" where
  "shard_router_init cfg =
     \<lparr>enabled = sharding_enabled cfg,
      database_prefix = shard_database_prefix cfg,
      table_prefix = shard_table_prefix cfg,
      database_count = max 1 (shard_database_count cfg),
      table_count = max 1 (shard_table_count cfg)\<rparr>"

definition hash_code :: "string \<Rightarrow> u64" where
  "hash_code short_code = fnv_loop fnv_basis short_code"

definition format_name :: "string \<Rightarrow> int \<Rightarrow> string" where
  "format_name prefix index = prefix @ setw2 (nat index)"

definition qualified_name :: "string \<Rightarrow> string \<Rightarrow> string" where
  "qualified_name database table = ''`'' @ database @ ''`.`'' @ table @ ''`''"

text \<open>The five assignments that fill a \<open>ShardRoute\<close> from its two indices, in both functions below.\<close>

definition route_at :: "shard_router \<Rightarrow> int \<Rightarrow> int \<Rightarrow> shard_route" where
  "route_at r db table =
     (let dn = format_name (database_prefix r) db; tn = format_name (table_prefix r) table
      in \<lparr>database_index = db, table_index = table, database_name = dn, table_name = tn,
          qualified_table = qualified_name dn tn\<rparr>)"

text \<open>\<open>static_cast<int>\<close> of a 64-bit value.\<close>

definition to_c_int :: "u64 \<Rightarrow> int" where
  "to_c_int x = sint (ucast x :: 32 word)"

definition route_for_code :: "shard_router \<Rightarrow> string \<Rightarrow> shard_route" where
  "route_for_code r short_code =
     (let hash = hash_code short_code;
          bucket_count = (word_of_int (database_count r) :: u64) * word_of_int (table_count r);
          bucket = (if bucket_count = 0 then 0 else hash mod bucket_count)
      in route_at r (to_c_int (bucket div word_of_int (table_count r)))
                    (to_c_int (bucket mod word_of_int (table_count r))))"

definition all_routes :: "shard_router \<Rightarrow> shard_route list" where
  "all_routes r =
     concat (map (\<lambda>db. map (route_at r db) [0..table_count r - 1]) [0..database_count r - 1])"

section \<open>Bounds\<close>

definition wf_router :: "shard_router \<Rightarrow> bool" where
  "wf_router r \<longleftrightarrow> 1 \<le> database_count r \<and> database_count r < 2 ^ 31
     \<and> 1 \<le> table_count r \<and> table_count r < 2 ^ 31"

lemma shard_router_init_wf [wf_intros]:
  "shard_database_count cfg < 2 ^ 31 \<Longrightarrow> shard_table_count cfg < 2 ^ 31 \<Longrightarrow>
     wf_router (shard_router_init cfg)"
  by (auto simp: wf_router_def shard_router_init_def)

lemma to_c_int_small:
  assumes "unat x < 2 ^ 31"
  shows "to_c_int x = int (unat x)"
proof -
  have u: "uint x = int (unat x)" by (rule uint_nat)
  have "unat x < 2147483648" using assms by simp
  with u have "uint x < 2147483648" by linarith
  then have bound: "- (2 ^ 31) \<le> uint x" "uint x < 2 ^ 31"
    by (simp_all add: order_trans [OF _ uint_ge_0])
  have "to_c_int x = sint (word_of_int (uint x) :: 32 word)"
    unfolding to_c_int_def by (subst ucast_eq) (rule refl)
  also have "\<dots> = signed_take_bit 31 (uint x)" by (subst sint_sbintrunc') simp
  also have "\<dots> = uint x" using bound by (rule signed_take_bit_int_eq_self)
  finally show ?thesis by (simp only: u)
qed

lemma unat_word_of_int_small: "0 \<le> n \<Longrightarrow> n < 2 ^ 31 \<Longrightarrow> unat (word_of_int n :: u64) = nat n"
  by (simp add: unat_eq_nat_uint uint_word_of_int)

text \<open>The bucket arithmetic, free of words.\<close>

definition bucket_nat :: "shard_router \<Rightarrow> string \<Rightarrow> nat" where
  "bucket_nat r code = unat (hash_code code) mod (nat (database_count r) * nat (table_count r))"

lemma route_for_code_nat:
  assumes wf: "wf_router r"
  shows "route_for_code r code =
    route_at r (int (bucket_nat r code div nat (table_count r)))
               (int (bucket_nat r code mod nat (table_count r)))"
proof -
  let ?d = "nat (database_count r)" and ?t = "nat (table_count r)"
  let ?wd = "word_of_int (database_count r) :: u64" and ?wt = "word_of_int (table_count r) :: u64"
  from wf have d: "unat ?wd = ?d" "0 < ?d" "?d < 2 ^ 31" and t: "unat ?wt = ?t" "0 < ?t" "?t < 2 ^ 31"
    by (auto simp: wf_router_def unat_word_of_int_small nat_less_iff)
  have "?d * ?t < 2 ^ 31 * 2 ^ 31" using d(3) t(3) by (rule mult_strict_mono) simp_all
  then have prod: "unat (?wd * ?wt) = ?d * ?t"
    using d t by (simp add: unat_word_ariths)
  with d t have ne: "?wd * ?wt \<noteq> 0" by (metis mult_pos_pos unat_0 less_irrefl)
  let ?b = "hash_code code mod (?wd * ?wt)"
  have b: "unat ?b = bucket_nat r code" by (simp add: bucket_nat_def unat_mod prod)
  have lt: "bucket_nat r code < ?d * ?t" using d(2) t(2) by (simp add: bucket_nat_def)
  then have "bucket_nat r code div ?t < ?d" by (simp add: less_mult_imp_div_less)
  then have "to_c_int (?b div ?wt) = int (bucket_nat r code div ?t)"
    using d(3) by (subst to_c_int_small) (simp_all add: unat_div b t)
  moreover have "to_c_int (?b mod ?wt) = int (bucket_nat r code mod ?t)"
    using t by (subst to_c_int_small) (simp_all only: unat_mod [of ?b] b less_trans [OF mod_less_divisor])
  ultimately show ?thesis by (simp add: route_for_code_def Let_def ne)
qed

lemma bucket_bounds:
  assumes "wf_router r"
  shows "bucket_nat r code div nat (table_count r) < nat (database_count r)"
    and "bucket_nat r code mod nat (table_count r) < nat (table_count r)"
  using assms by (auto simp: wf_router_def bucket_nat_def less_mult_imp_div_less)

section \<open>Table names\<close>

lemma backtick_not_digit [simp]: "\<not> is_digit CHR ''`''"
  by (simp add: is_digit_def)

lemma setw2_takeWhile: "takeWhile is_digit (setw2 n @ CHR ''`'' # s) = setw2 n"
  and setw2_dropWhile: "dropWhile is_digit (setw2 n @ CHR ''`'' # s) = CHR ''`'' # s"
  using takeWhile_dropWhile_append [of "setw2 n" is_digit "CHR ''`''" s, OF setw2_digits]
  by simp_all

lemma setw2_backtick_cancel:
  assumes "setw2 m @ CHR ''`'' # s = setw2 n @ CHR ''`'' # t"
  shows "m = n \<and> s = t"
proof
  show "m = n" using arg_cong [OF assms, of "takeWhile is_digit"] by (simp add: setw2_takeWhile)
  then show "s = t" using assms by simp
qed

lemma qualified_route_inject:
  assumes "qualified_name (format_name p (int a)) (format_name q (int b)) =
           qualified_name (format_name p (int c)) (format_name q (int d))"
  shows "a = c \<and> b = d"
proof -
  from assms have "setw2 a @ CHR ''`'' # (''.`'' @ q @ setw2 b @ ''`'')
      = setw2 c @ CHR ''`'' # (''.`'' @ q @ setw2 d @ ''`'')"
    by (simp add: qualified_name_def format_name_def)
  from setw2_backtick_cancel [OF this]
  have "a = c" and "setw2 b @ CHR ''`'' # [] = setw2 d @ CHR ''`'' # []" by simp_all
  then show ?thesis using setw2_backtick_cancel by blast
qed

lemma route_at_tables_inject:
  assumes "0 \<le> a" "0 \<le> b" "0 \<le> c" "0 \<le> d"
    and "qualified_table (route_at r a b) = qualified_table (route_at r c d)"
  shows "a = c \<and> b = d"
  using qualified_route_inject [of _ "nat a" _ "nat b" "nat c" "nat d"] assms
  by (simp add: route_at_def Let_def) (metis nat_eq_iff2 nat_0_le)

text \<open>The list of routes, flattened to index pairs.\<close>

lemma all_routes_pairs:
  "all_routes r = map (\<lambda>(db, t). route_at r db t)
     (List.product [0..database_count r - 1] [0..table_count r - 1])"
  by (simp add: all_routes_def product_concat_map map_concat comp_def)

lemma set_all_routes:
  "set (all_routes r) =
     {route_at r db t | db t. 0 \<le> db \<and> db < database_count r \<and> 0 \<le> t \<and> t < table_count r}"
  by (auto simp: all_routes_pairs image_iff Bex_def) blast

lemma route_for_code_in:
  assumes "wf_router r"
  shows "route_for_code r code \<in> set (all_routes r)"
proof -
  have "int (bucket_nat r code div nat (table_count r)) < database_count r"
    "int (bucket_nat r code mod nat (table_count r)) < table_count r"
    using bucket_bounds [OF assms, of code] by linarith+
  then show ?thesis unfolding route_for_code_nat [OF assms] set_all_routes mem_Collect_eq
    by (metis of_nat_0_le_iff)
qed

section \<open>Properties\<close>

text \<open>The table a code is routed to is one of the configured shards (so the start-up scan of
  \<open>list_active_codes\<close> visits it), with both indices inside the configured counts.\<close>

theorem route_for_code_listed:
  assumes "wf_router r"
  shows "route_for_code r code \<in> set (all_routes r)
    \<and> 0 \<le> database_index (route_for_code r code)
    \<and> database_index (route_for_code r code) < database_count r
    \<and> 0 \<le> table_index (route_for_code r code)
    \<and> table_index (route_for_code r code) < table_count r"
proof -
  have "int (bucket_nat r code div nat (table_count r)) < database_count r"
    "int (bucket_nat r code mod nat (table_count r)) < table_count r"
    using bucket_bounds [OF assms, of code] by linarith+
  then show ?thesis
    by (auto simp: route_for_code_nat [OF assms] set_all_routes)
      (simp_all add: route_at_def Let_def)
qed

theorem route_for_code_listed_witness:
  "route_for_code shard_router_new ''abc'' \<in> set (all_routes shard_router_new)"
proof -
  have "wf_router shard_router_new" by (simp add: wf_router_def shard_router_new_def)
  from route_for_code_listed [OF this] show ?thesis by blast
qed

text \<open>Different shards have different fully qualified table names, whatever the prefixes, and
  \<open>all_routes\<close> lists each of the \<open>database_count * table_count\<close> shards exactly once.\<close>

theorem shard_tables_distinct:
  "distinct (map qualified_table (all_routes r))
   \<and> length (all_routes r) = nat (database_count r) * nat (table_count r)"
proof -
  let ?ps = "List.product [0..database_count r - 1] [0..table_count r - 1]"
  have "inj_on (\<lambda>p. qualified_table (route_at r (fst p) (snd p))) (set ?ps)"
    by (rule inj_onI) (auto dest!: route_at_tables_inject [rotated 4] simp: prod_eq_iff)
  then have "distinct (map (\<lambda>p. qualified_table (route_at r (fst p) (snd p))) ?ps)"
    by (simp add: distinct_map distinct_product)
  then show ?thesis
    by (simp add: all_routes_pairs split_def comp_def length_product)
qed

end
