(* ===== verification/Protocol_Utils.thy ===== *)
theory Protocol_Utils
  imports Prelude
begin

text \<open>
  \<open>src/http/protocol_utils.h\<close>: the framing and \<open>Location\<close>-safety helpers.  A C string argument
  is the list of its characters before the terminating NUL.  \<open>unsigned long long\<close> arithmetic is on
  64-bit words; \<open>ULLONG_MAX\<close> is \<open>- 1\<close> there.
\<close>

definition LONG_MAX :: nat where
  "LONG_MAX = 9223372036854775807"

fun content_length_loop :: "u64 \<Rightarrow> string \<Rightarrow> u64 option" where
  "content_length_loop val [] = Some val"
| "content_length_loop val (c # text) =
     (if \<not> is_digit c then None
      else let digit = of_nat (digit_value c)
           in if val > (- 1 - digit) div 10 then None
              else content_length_loop (val * 10 + digit) text)"

definition parse_content_length :: "string \<Rightarrow> int option" where
  "parse_content_length text =
     (case text of
        [] \<Rightarrow> None
      | c # cs \<Rightarrow>
          if c = CHR ''-'' then None
          else let t = (if c = CHR ''+'' then cs else text)
               in if t = [] then None
                  else case content_length_loop 0 t of
                         None \<Rightarrow> None
                       | Some val \<Rightarrow>
                           if unat val > LONG_MAX then None else Some (int (unat val)))"

definition contains_ctl_or_separator :: "string \<Rightarrow> bool" where
  "contains_ctl_or_separator s \<longleftrightarrow>
     list_ex (\<lambda>c. (of_char c :: nat) < 0x20 \<or> (of_char c :: nat) = 0x7f) s"

definition is_http_url_safe_for_location :: "string \<Rightarrow> bool" where
  "is_http_url_safe_for_location url =
     (if length url < 8 \<or> length url > 2048 then False
      else if contains_ctl_or_separator url then False
      else starts_with url ''http://'' \<or> starts_with url ''https://'')"

definition is_unsupported_body_encoding_header :: "string \<Rightarrow> bool" where
  "is_unsupported_body_encoding_header text \<longleftrightarrow>
     strncaseeq text ''Transfer-Encoding:'' \<or> strncaseeq text ''Content-Encoding:''"

function strip_slashes :: "string \<Rightarrow> string" where
  "strip_slashes out =
     (if out \<noteq> [] \<and> out ! (length out - 1) = CHR ''/'' then strip_slashes (take (length out - 1) out)
      else out)"
  by pat_completeness auto
termination
  by (relation "measure length") auto

declare strip_slashes.simps [simp del]

definition join_public_base_url :: "string \<Rightarrow> string \<Rightarrow> string" where
  "join_public_base_url base code =
     (if base = [] then ''/'' @ code else strip_slashes base @ ''/'' @ code)"

section \<open>Content-Length\<close>

definition dec_from :: "nat \<Rightarrow> string \<Rightarrow> nat" where
  "dec_from a s = foldl (\<lambda>acc c. acc * 10 + digit_value c) a s"

lemma dec_from_simps [simp]:
  "dec_from a [] = a" "dec_from a (c # s) = dec_from (a * 10 + digit_value c) s"
  by (simp_all add: dec_from_def)

lemma dec_from_0: "dec_from 0 s = dec_value s"
  by (simp add: dec_from_def dec_value_def)

lemma dec_from_ge: "a \<le> dec_from a s"
proof (induction s arbitrary: a)
  case (Cons c s)
  show ?case using Cons.IH [of "a * 10 + digit_value c"] by simp
qed simp

lemma digit_value_less: "is_digit c \<Longrightarrow> digit_value c < 10"
  by (auto simp: is_digit_def digit_value_def)

lemma overflow_test:
  assumes "d < 10"
  shows "val > (- 1 - of_nat d) div 10 \<longleftrightarrow> 2 ^ 64 \<le> unat (val :: u64) * 10 + d"
proof -
  have d: "unat (of_nat d :: u64) = d" using assms by (simp add: unat_of_nat)
  have m: "unat (- 1 :: u64) = 2 ^ 64 - 1" by (simp add: unsigned_minus_1_eq_mask mask_eq_exp_minus_1)
  have "of_nat d \<le> (- 1 :: u64)" by simp
  then have "unat (- 1 - of_nat d :: u64) = 2 ^ 64 - 1 - d"
    using d m by (simp add: unat_sub)
  then have "unat ((- 1 - of_nat d :: u64) div 10) = (2 ^ 64 - 1 - d) div 10"
    by (simp add: unat_div)
  then have "val > (- 1 - of_nat d) div 10 \<longleftrightarrow> (2 ^ 64 - 1 - d) div 10 < unat val"
    by (simp add: word_less_nat_alt)
  also have "\<dots> \<longleftrightarrow> 2 ^ 64 - 1 - d < unat val * 10"
    by (rule div_less_iff_less_mult) simp
  also have "\<dots> \<longleftrightarrow> 2 ^ 64 \<le> unat val * 10 + d" using assms by auto
  finally show ?thesis .
qed

lemma accumulate:
  assumes "d < 10" "unat (val :: u64) * 10 + d < 2 ^ 64"
  shows "unat (val * 10 + of_nat d) = unat val * 10 + d"
  using assms by (simp add: unat_word_ariths unat_of_nat)

lemma content_length_loop_iff:
  "content_length_loop val s = Some w \<longleftrightarrow>
     (\<forall>c \<in> set s. is_digit c) \<and> dec_from (unat val) s < 2 ^ 64 \<and> unat w = dec_from (unat val) s"
proof (induction val s rule: content_length_loop.induct)
  case (1 val)
  show ?case using unat_u64_less [of w] by (auto simp: word_unat_eq_iff)
next
  case (2 val c cs)
  show ?case
  proof (cases "is_digit c")
    case True
    note d = digit_value_less [OF True]
    show ?thesis
    proof (cases "2 ^ 64 \<le> unat val * 10 + digit_value c")
      case over: True
      then have "\<not> dec_from (unat val * 10 + digit_value c) cs < 2 ^ 64"
        using dec_from_ge [of "unat val * 10 + digit_value c" cs] by simp
      with True over show ?thesis by (simp add: Let_def overflow_test [OF d])
    next
      case fits: False
      then have "unat (val * 10 + of_nat (digit_value c)) = unat val * 10 + digit_value c"
        using d by (intro accumulate) simp_all
      with True fits 2 show ?thesis
        by (simp add: Let_def overflow_test [OF d] del: of_nat_mult of_nat_add)
    qed
  qed simp
qed

lemma content_length_loop_Some_iff:
  "content_length_loop 0 s = Some w \<longleftrightarrow>
     (\<forall>c \<in> set s. is_digit c) \<and> dec_value s < 2 ^ 64 \<and> unat w = dec_value s"
  using content_length_loop_iff [of 0 s w] by (simp add: dec_from_0)

lemma sign_not_digit [simp]: "\<not> is_digit CHR ''-''" "\<not> is_digit CHR ''+''"
  by (simp_all add: is_digit_def)

section \<open>The public URL\<close>

lemma strip_slashes_eq: "strip_slashes s = rev (dropWhile (\<lambda>c. c = CHR ''/'') (rev s))"
proof (induction s rule: rev_induct)
  case (snoc c s)
  then show ?case by (simp add: strip_slashes.simps [of "s @ [c]"])
qed (simp add: strip_slashes.simps)

lemma strip_slashes_last: "strip_slashes s \<noteq> [] \<Longrightarrow> last (strip_slashes s) \<noteq> CHR ''/''"
  unfolding strip_slashes_eq last_rev using hd_dropWhile [of "\<lambda>c. c = CHR ''/''" "rev s"] by auto

section \<open>Properties\<close>

lemma digits_value_iff:
  "t \<noteq> [] \<Longrightarrow>
   (case content_length_loop 0 t of None \<Rightarrow> None
    | Some val \<Rightarrow> if unat val > LONG_MAX then None else Some (int (unat val))) = Some n \<longleftrightarrow>
   (\<forall>c \<in> set t. is_digit c) \<and> dec_value t \<le> LONG_MAX \<and> n = int (dec_value t)"
proof (cases "content_length_loop 0 t")
  case None
  have "\<not> ((\<forall>c \<in> set t. is_digit c) \<and> dec_value t < 2 ^ 64)"
  proof
    assume "(\<forall>c \<in> set t. is_digit c) \<and> dec_value t < 2 ^ 64"
    then have "content_length_loop 0 t = Some (of_nat (dec_value t))"
      by (simp add: content_length_loop_Some_iff unat_of_nat)
    with None show False by simp
  qed
  with None show ?thesis by (auto simp: LONG_MAX_def)
next
  case (Some w)
  with content_length_loop_Some_iff [of t w] show ?thesis by (auto simp: LONG_MAX_def)
qed

lemma parse_content_length_digits:
  assumes "list_all is_digit s" "s \<noteq> []" "dec_value s \<le> LONG_MAX"
  shows "parse_content_length s = Some (int (dec_value s))"
proof -
  obtain c cs where s: "s = c # cs" using assms(2) by (cases s) simp_all
  with assms(1) have "c \<noteq> CHR ''-''" "c \<noteq> CHR ''+''" by auto
  with digits_value_iff [of s "int (dec_value s)"] assms show ?thesis
    by (simp add: parse_content_length_def s list_all_iff)
qed

lemma parse_content_length_nonneg: "parse_content_length s = Some n \<Longrightarrow> 0 \<le> n"
  by (cases s) (auto simp: parse_content_length_def Let_def simp del: of_nat_unat split: if_splits option.splits)

text \<open>C12: \<open>parse_content_length\<close> accepts exactly an optional plus sign followed by one or more digits
  whose value fits a \<open>long\<close>, and returns that value: no overflow is ever missed, and no sign, space
  or trailing byte is ever let through.\<close>

theorem parse_content_length_exact:
  "parse_content_length s = Some n \<longleftrightarrow>
     (\<exists>ds. (s = ds \<or> s = CHR ''+'' # ds) \<and> ds \<noteq> [] \<and> list_all is_digit ds
        \<and> dec_value ds \<le> LONG_MAX \<and> n = int (dec_value ds))"
proof (cases s)
  case Nil
  then show ?thesis by (simp add: parse_content_length_def)
next
  case (Cons c cs)
  consider "c = CHR ''-''" | "c = CHR ''+''" | "c \<noteq> CHR ''-''" "c \<noteq> CHR ''+''" by blast
  then show ?thesis
  proof cases
    case 1
    then show ?thesis by (auto simp: parse_content_length_def Cons)
  next
    case 2
    then show ?thesis
      by (cases "cs = []") (auto simp: parse_content_length_def Cons digits_value_iff list_all_iff)
  next
    case 3
    then have "parse_content_length s = Some n \<longleftrightarrow>
      (\<forall>c \<in> set s. is_digit c) \<and> dec_value s \<le> LONG_MAX \<and> n = int (dec_value s)"
      using digits_value_iff [of s n] by (simp add: parse_content_length_def Cons)
    with 3 show ?thesis by (auto simp: Cons list_all_iff)
  qed
qed


text \<open>In particular no byte of an accepted URL ends a header line or a C string.\<close>

lemma safe_location_bytes:
  assumes "is_http_url_safe_for_location url"
  shows "CHR 0x0D \<notin> set url \<and> CHR 0x0A \<notin> set url \<and> CHR 0x00 \<notin> set url"
  using assms by (auto simp: is_http_url_safe_for_location_def contains_ctl_or_separator_def list_ex_iff split: if_splits)

text \<open>\<open>join_public_base_url\<close> puts exactly one slash between the base and the code, however many
  slashes end the base.\<close>

lemma join_public_base_url_one_slash:
  "\<exists>prefix. join_public_base_url base code = prefix @ ''/'' @ code
     \<and> (prefix = [] \<or> last prefix \<noteq> CHR ''/'')"
  using strip_slashes_last [of base] by (auto simp: join_public_base_url_def)

lemma join_public_base_url_trailing:
  "base \<noteq> [] \<Longrightarrow>
     join_public_base_url (base @ replicate n CHR ''/'') code = join_public_base_url base code"
  by (simp add: join_public_base_url_def strip_slashes_eq dropWhile_append)

end
