(* ===== verification/Http_Message.thy ===== *)
theory Http_Message
  imports Prelude
begin

text \<open>
  \<open>src/http/request.h\<close>, \<open>response.h\<close> and \<open>response.cpp\<close>.

  An \<open>unordered_map\<close> is a map; where the code iterates over one, the order of iteration is a
  parameter: any listing of the map without repetitions (\<open>lists_map\<close>).  The JSON library is the
  parameter record \<open>json_lib\<close>: \<open>json_parse\<close> and \<open>json_dump\<close> may throw, and which exceptions they
  throw is left to the library.
\<close>

section \<open>JSON values\<close>

datatype json =
    JNull
  | JBool bool
  | JInt int
  | JStr string
  | JArr "json list"
  | JObj "(string \<times> json) list"

record json_lib =
  json_parse :: "string \<Rightarrow> exn + json"   \<comment> \<open>\<open>nlohmann::json::parse\<close>\<close>
  json_dump :: "json \<Rightarrow> exn + string"    \<comment> \<open>\<open>nlohmann::json::dump\<close>\<close>

section \<open>Requests\<close>

record http_request =
  req_method :: string
  req_path :: string
  req_query :: string
  route_pattern :: string
  req_headers :: "string \<rightharpoonup> string"
  req_body :: string
  req_params :: "string \<rightharpoonup> string"

definition http_request_new :: http_request where
  "http_request_new =
     \<lparr>req_method = [], req_path = [], req_query = [], route_pattern = [],
      req_headers = Map.empty, req_body = [], req_params = Map.empty\<rparr>"

definition header_or_empty :: "http_request \<Rightarrow> string \<Rightarrow> string" where
  "header_or_empty req name = (case req_headers req name of None \<Rightarrow> [] | Some v \<Rightarrow> v)"

section \<open>Responses\<close>

record http_response =
  status_code :: int
  resp_headers :: "string \<rightharpoonup> string"
  resp_body :: string

definition http_response_new :: http_response where
  "http_response_new = \<lparr>status_code = 200, resp_headers = Map.empty, resp_body = []\<rparr>"

definition set_status :: "int \<Rightarrow> http_response \<Rightarrow> http_response" where
  "set_status code resp = resp\<lparr>status_code := code\<rparr>"

definition set_header :: "string \<Rightarrow> string \<Rightarrow> http_response \<Rightarrow> http_response" where
  "set_header k v resp = resp\<lparr>resp_headers := (resp_headers resp)(k \<mapsto> v)\<rparr>"

definition set_body :: "string \<Rightarrow> http_response \<Rightarrow> http_response" where
  "set_body b resp = resp\<lparr>resp_body := b\<rparr>"

definition set_json :: "json_lib \<Rightarrow> json \<Rightarrow> http_response \<Rightarrow> exn + http_response" where
  "set_json lib j resp =
     (let resp' = set_header ''Content-Type'' ''application/json'' resp
      in case json_dump lib j of
           Inl e \<Rightarrow> Inl e
         | Inr s \<Rightarrow> Inr (resp'\<lparr>resp_body := s\<rparr>))"

definition status_text :: "int \<Rightarrow> string" where
  "status_text code =
     (if code = 200 then ''OK''
      else if code = 201 then ''Created''
      else if code = 301 then ''Moved Permanently''
      else if code = 302 then ''Found''
      else if code = 400 then ''Bad Request''
      else if code = 403 then ''Forbidden''
      else if code = 404 then ''Not Found''
      else if code = 405 then ''Method Not Allowed''
      else if code = 410 then ''Gone''
      else if code = 409 then ''Conflict''
      else if code = 413 then ''Payload Too Large''
      else if code = 500 then ''Internal Server Error''
      else if code = 503 then ''Service Unavailable''
      else ''Unknown'')"

abbreviation CR :: char where "CR \<equiv> CHR 0x0D"
abbreviation LF :: char where "LF \<equiv> CHR 0x0A"
abbreviation CRLF :: string where "CRLF \<equiv> [CR, LF]"

definition status_line :: "http_response \<Rightarrow> string" where
  "status_line resp = ''HTTP/1.1 '' @ to_string (status_code resp) @ '' '' @ status_text (status_code resp)"

definition header_line :: "string \<times> string \<Rightarrow> string" where
  "header_line h = fst h @ '': '' @ snd h"

text \<open>\<open>hs\<close> is the order in which \<open>for (const auto& h : headers_)\<close> meets the headers.\<close>

definition serialize :: "(string \<times> string) list \<Rightarrow> http_response \<Rightarrow> string" where
  "serialize hs resp =
     status_line resp @ CRLF
     @ ''Content-Length: '' @ to_string (int (length (resp_body resp))) @ CRLF
     @ concat (map (\<lambda>h. header_line h @ CRLF) hs)
     @ CRLF
     @ resp_body resp"

definition lists_map :: "(string \<times> string) list \<Rightarrow> (string \<rightharpoonup> string) \<Rightarrow> bool" where
  "lists_map hs m \<longleftrightarrow> distinct (map fst hs) \<and> map_of hs = m"

section \<open>How a client reads a response\<close>

text \<open>The reference reader: lines end at CRLF, the first empty line ends the head, and what follows it
  is the body.\<close>

fun crlf_line :: "string \<Rightarrow> (string \<times> string) option" where
  "crlf_line [] = None"
| "crlf_line (c # s) =
     (if c = CR \<and> s \<noteq> [] \<and> hd s = LF then Some ([], tl s)
      else map_option (\<lambda>(l, r). (c # l, r)) (crlf_line s))"

lemma crlf_line_shorter: "crlf_line s = Some (l, r) \<Longrightarrow> length r < length s"
  by (induction s arbitrary: l r) (auto split: if_splits)

function read_head :: "string \<Rightarrow> (string list \<times> string) option" where
  "read_head s =
     (case crlf_line s of
        None \<Rightarrow> None
      | Some (l, r) \<Rightarrow>
          if l = [] then Some ([], r)
          else map_option (\<lambda>(ls, b). (l # ls, b)) (read_head r))"
  by pat_completeness auto
termination
  by (relation "measure length") (auto dest: crlf_line_shorter)

declare read_head.simps [simp del]

lemma crlf_line_append: "CR \<notin> set l \<Longrightarrow> crlf_line (l @ CR # LF # s) = Some (l, s)"
  by (induction l) auto

lemma read_head_line:
  "CR \<notin> set l \<Longrightarrow> l \<noteq> [] \<Longrightarrow>
     read_head (l @ CR # LF # s) = map_option (\<lambda>(ls, b). (l # ls, b)) (read_head s)"
  by (subst read_head.simps) (simp add: crlf_line_append)

lemma read_head_end: "read_head (CR # LF # s) = Some ([], s)"
  by (subst read_head.simps) simp

lemma read_head_lines:
  "(\<And>l. l \<in> set ls \<Longrightarrow> CR \<notin> set l \<and> l \<noteq> []) \<Longrightarrow>
     read_head (concat (map (\<lambda>l. l @ CRLF) ls) @ CRLF @ b) = Some (ls, b)"
  by (induction ls) (auto simp: read_head_line read_head_end)

lemma to_string_no_cr: "CR \<notin> set (to_string i)"
  by (auto simp: to_string_def is_digit_def dest!: dec_digits_are_digits split: if_splits)

lemma status_line_no_cr: "CR \<notin> set (status_line resp)"
  by (simp add: status_line_def status_text_def to_string_no_cr)

section \<open>Properties\<close>

text \<open>C14: A serialized response is framed exactly as intended: when no header name or value contains
  a carriage return, a client that reads lines up to the first empty line sees the status line, a
  \<open>Content-Length\<close> line with the exact byte length of the body, each header once, and then the body
  unchanged.\<close>

theorem serialize_framing:
  assumes "lists_map hs (resp_headers resp)"
    and "\<forall>(k, v) \<in> set hs. CR \<notin> set k \<and> CR \<notin> set v"
  shows "read_head (serialize hs resp) =
    Some (status_line resp
          # (''Content-Length: '' @ to_string (int (length (resp_body resp))))
          # map header_line hs, resp_body resp)"
proof -
  let ?ls = "status_line resp
    # (''Content-Length: '' @ to_string (int (length (resp_body resp)))) # map header_line hs"
  have "CR \<notin> set l \<and> l \<noteq> []" if "l \<in> set ?ls" for l
    using that assms(2) status_line_no_cr [of resp] to_string_no_cr
    by (auto simp: header_line_def) (simp_all add: status_line_def)
  then have "read_head (concat (map (\<lambda>l. l @ CRLF) ?ls) @ CRLF @ resp_body resp) =
      Some (?ls, resp_body resp)"
    by (rule read_head_lines)
  then show ?thesis by (simp add: serialize_def comp_def)
qed

theorem serialize_framing_witness:
  "read_head (serialize [(''Location'', ''http://a.b/'')]
      (set_header ''Location'' ''http://a.b/'' (set_status 302 http_response_new)))
   = Some ([''HTTP/1.1 302 Found'', ''Content-Length: 0'', ''Location: http://a.b/''], [])"
proof -
  let ?resp = "set_header ''Location'' ''http://a.b/'' (set_status 302 http_response_new)"
  have 1: "lists_map [(''Location'', ''http://a.b/'')] (resp_headers ?resp)"
    by (simp add: lists_map_def set_header_def set_status_def http_response_new_def)
  have 2: "\<forall>(k, v) \<in> set [(''Location'', ''http://a.b/'')]. CR \<notin> set k \<and> CR \<notin> set v" by simp
  have 3: "status_line ?resp = ''HTTP/1.1 302 Found''"
    and 4: "to_string 0 = ''0''" and 5: "resp_body ?resp = []"
    by code_simp+
  show ?thesis using serialize_framing [OF 1 2] by (simp add: 3 4 5 header_line_def)
qed

end
