(* ===== verification/Router.thy ===== *)
theory Router
  imports Http_Message
begin

text \<open>
  \<open>src/http/router.h\<close> and \<open>router.cpp\<close>: the route table and its matching.  A handler is a
  function of the request, the response being built and the program state \<open>'s\<close> it may change; it
  returns the finished response or the exception that leaves it.
\<close>

type_synonym 's handler = "http_request \<Rightarrow> http_response \<Rightarrow> 's \<Rightarrow> (exn + http_response) \<times> 's"

record 's route =
  r_method :: string
  r_pattern :: string
  r_segments :: "string list"
  r_handler :: "'s handler"

text \<open>\<open>std::getline(ss, seg, '/')\<close> in a loop: the text up to the next slash, the slash dropped, until
  nothing is left; empty segments are skipped.\<close>

function split_path :: "string \<Rightarrow> string list" where
  "split_path path =
     (if path = [] then []
      else let seg = takeWhile (\<lambda>c. c \<noteq> CHR ''/'') path;
               rest = drop (Suc (length seg)) path
           in if seg \<noteq> [] then seg # split_path rest else split_path rest)"
  by pat_completeness auto
termination
  by (relation "measure length") auto

declare split_path.simps [simp del]

definition router_get :: "string \<Rightarrow> 's handler \<Rightarrow> 's route list \<Rightarrow> 's route list" where
  "router_get pattern h routes =
     routes @ [\<lparr>r_method = ''GET'', r_pattern = pattern, r_segments = split_path pattern, r_handler = h\<rparr>]"

definition router_post :: "string \<Rightarrow> 's handler \<Rightarrow> 's route list \<Rightarrow> 's route list" where
  "router_post pattern h routes =
     routes @ [\<lparr>r_method = ''POST'', r_pattern = pattern, r_segments = split_path pattern, r_handler = h\<rparr>]"

definition is_placeholder :: "string \<Rightarrow> bool" where
  "is_placeholder pat \<longleftrightarrow> length pat \<ge> 3 \<and> hd pat = CHR ''{'' \<and> last pat = CHR ''}''"

fun match_segments ::
  "string list \<Rightarrow> string list \<Rightarrow> (string \<rightharpoonup> string) \<Rightarrow> (string \<rightharpoonup> string) option" where
  "match_segments (pat # pats) (seg # segs) params =
     (if is_placeholder pat
      then match_segments pats segs (params(take (length pat - 2) (drop 1 pat) \<mapsto> seg))
      else if pat \<noteq> seg then None
      else match_segments pats segs params)"
| "match_segments _ _ params = Some params"

definition router_match :: "'s route \<Rightarrow> http_request \<Rightarrow> (string \<rightharpoonup> string) option" where
  "router_match r req =
     (if r_method r \<noteq> req_method req then None
      else let req_segs = split_path (req_path req)
           in if length req_segs \<noteq> length (r_segments r) then None
              else match_segments (r_segments r) req_segs Map.empty)"

text \<open>\<open>Router::dispatch\<close>: the request with the fields the router fills in, whether a route matched
  and the response (or the exception of the handler), and the new program state.\<close>

fun dispatch ::
  "'s route list \<Rightarrow> http_request \<Rightarrow> http_response \<Rightarrow> 's \<Rightarrow>
     http_request \<times> (exn + bool \<times> http_response) \<times> 's" where
  "dispatch [] req resp s = (req, Inr (False, resp), s)"
| "dispatch (r # routes) req resp s =
     (case router_match r req of
        Some params \<Rightarrow>
          (let req' = req\<lparr>req_params := params, route_pattern := r_pattern r\<rparr>
           in case r_handler r req' resp s of
                (Inl e, s') \<Rightarrow> (req', Inl e, s')
              | (Inr resp', s') \<Rightarrow> (req', Inr (True, resp'), s'))
      | None \<Rightarrow> dispatch routes req resp s)"

section \<open>Paths\<close>

text \<open>Reference view: the segments of a path written with any number of slashes between them.\<close>

lemma split_path_Nil [simp]: "split_path [] = []"
  by (simp add: split_path.simps)

lemma split_path_slash [simp]: "split_path (CHR ''/'' # p) = split_path p"
  by (subst split_path.simps) simp

lemma split_path_segment:
  assumes "seg \<noteq> []" and "CHR ''/'' \<notin> set seg"
  shows "split_path (seg @ CHR ''/'' # p) = seg # split_path p" and "split_path seg = [seg]"
proof -
  have 1: "takeWhile (\<lambda>c. c \<noteq> CHR ''/'') (seg @ CHR ''/'' # p) = seg"
    using assms(2) by (subst takeWhile_tail) (auto simp: takeWhile_append2)
  show "split_path (seg @ CHR ''/'' # p) = seg # split_path p"
    using assms(1) by (subst split_path.simps) (simp add: 1)
  have 2: "takeWhile (\<lambda>c. c \<noteq> CHR ''/'') seg = seg"
    using assms(2) by (auto simp: takeWhile_eq_all_conv)
  show "split_path seg = [seg]"
    using assms(1) by (subst split_path.simps) (simp add: 2)
qed

definition wf_segment :: "string \<Rightarrow> bool" where
  "wf_segment seg \<longleftrightarrow> seg \<noteq> [] \<and> CHR ''/'' \<notin> set seg"

definition join_path :: "string list \<Rightarrow> string" where
  "join_path segs = concat (map (\<lambda>seg. CHR ''/'' # seg) segs)"

lemma split_join_path: "list_all wf_segment segs \<Longrightarrow> split_path (join_path segs) = segs"
proof (induction segs)
  case (Cons seg segs)
  then show ?case
  proof (cases segs)
    case (Cons seg' segs')
    have "join_path (seg # segs) = CHR ''/'' # seg @ CHR ''/'' # (seg' @ join_path segs')"
      by (simp add: join_path_def Cons)
    moreover have "join_path segs = CHR ''/'' # (seg' @ join_path segs')"
      by (simp add: join_path_def Cons)
    ultimately show ?thesis
      using Cons.IH Cons.prems split_path_segment(1) [of seg "seg' @ join_path segs'"]
      by (simp add: wf_segment_def)
  qed (auto simp: join_path_def wf_segment_def split_path_segment)
qed (simp add: join_path_def)

lemma split_path_segments_wf: "list_all wf_segment (split_path p)"
proof (induction p rule: split_path.induct)
  case (1 p)
  have seg: "wf_segment (takeWhile (\<lambda>c. c \<noteq> CHR ''/'') p)"
    if "takeWhile (\<lambda>c. c \<noteq> CHR ''/'') p \<noteq> []"
    using that by (auto simp: wf_segment_def dest: set_takeWhileD)
  from 1 show ?case
    by (subst split_path.simps) (simp add: Let_def seg)
qed

text \<open>Splitting a path into segments inverts writing it with one slash before each segment, and
  only ever yields non-empty segments without slashes, so leading, trailing and doubled slashes do not
  change which route a request reaches.\<close>

theorem split_path_roundtrip:
  "list_all wf_segment (split_path p) \<and> split_path (join_path (split_path p)) = split_path p"
  by (simp add: split_path_segments_wf split_join_path)

end
