(* ===== verification/Http_Conn.thy ===== *)
theory Http_Conn
  imports Protocol_Utils Router
begin

text \<open>
  \<open>src/http/http_conn.h\<close> and \<open>http_conn.cpp\<close>: one client connection, its request parser and
  its output side.

  The two character arrays are stores from indices to bytes; a \<open>char*\<close> into one of them is an index
  (\<open>None\<close> is the null pointer), and the in-place writes of NUL bytes that the parser makes are made
  on the store.  Reading a C string stops at the first NUL or at the end of the array.  System calls
  are driven by scripts of results (\<open>recv_result\<close>, \<open>writev_result\<close>), one per call, and
  re-arming of the descriptor (\<open>modfd\<close>) is recorded as an action.  Not modelled: the peer address,
  the log lines and the \<open>mysql\<close> and \<open>m_state\<close> members, which nothing reads.
\<close>

section \<open>State\<close>

definition READ_BUFFER_SIZE :: nat where "READ_BUFFER_SIZE = 8192"
definition WRITE_BUFFER_SIZE :: nat where "WRITE_BUFFER_SIZE = 8192"

datatype http_method = GET | POST | PUT | DELETE | HEAD | OPTIONS

datatype check_state =
  CHECK_STATE_REQUESTLINE | CHECK_STATE_HEADER | CHECK_STATE_CONTENT

datatype http_code =
  NO_REQUEST | GET_REQUEST | BAD_REQUEST | REQUEST_ENTITY_TOO_LARGE | INTERNAL_ERROR
| CLOSED_CONNECTION

datatype line_status = LINE_OK | LINE_BAD | LINE_OPEN

abbreviation NUL :: char where "NUL \<equiv> CHR 0x00"

type_synonym buffer = "nat \<Rightarrow> char"

record http_conn =
  m_sockfd :: int
  m_read_buf :: buffer
  m_read_idx :: nat
  m_checked_idx :: nat
  m_start_line :: nat
  m_write_buf :: buffer
  m_write_idx :: nat
  m_check_state :: check_state
  m_method :: http_method
  m_request :: http_request
  m_url :: "nat option"
  m_version :: "nat option"
  m_host :: "nat option"
  m_content_length :: int
  m_linger :: bool
  m_iov_base :: nat
  m_iov_len :: int
  bytes_to_send :: int
  bytes_have_send :: int
  m_TRIGMode :: int
  m_generation :: u64
  m_pending_close :: bool

section \<open>C strings inside a buffer\<close>

function cstr :: "buffer \<Rightarrow> nat \<Rightarrow> string" where
  "cstr buf i =
     (if i < READ_BUFFER_SIZE \<and> buf i \<noteq> NUL then buf i # cstr buf (Suc i) else [])"
  by pat_completeness auto
termination
  by (relation "measure (\<lambda>(buf, i). READ_BUFFER_SIZE - i)") auto

declare cstr.simps [simp del]

text \<open>\<open>strpbrk\<close> and \<open>strchr\<close> (for a non-NUL character): the first index from \<open>i\<close> on whose
  character is wanted.\<close>

function find_char :: "(char \<Rightarrow> bool) \<Rightarrow> buffer \<Rightarrow> nat \<Rightarrow> nat option" where
  "find_char P buf i =
     (if i < READ_BUFFER_SIZE \<and> buf i \<noteq> NUL
      then if P (buf i) then Some i else find_char P buf (Suc i)
      else None)"
  by pat_completeness auto
termination
  by (relation "measure (\<lambda>(P, buf, i). READ_BUFFER_SIZE - i)") auto

declare find_char.simps [simp del]

text \<open>\<open>p += strspn(p, accept)\<close>.\<close>

function skip_chars :: "(char \<Rightarrow> bool) \<Rightarrow> buffer \<Rightarrow> nat \<Rightarrow> nat" where
  "skip_chars P buf i =
     (if i < READ_BUFFER_SIZE \<and> buf i \<noteq> NUL \<and> P (buf i) then skip_chars P buf (Suc i) else i)"
  by pat_completeness auto
termination
  by (relation "measure (\<lambda>(P, buf, i). READ_BUFFER_SIZE - i)") auto

declare skip_chars.simps [simp del]

definition is_ws :: "char \<Rightarrow> bool" where
  "is_ws c \<longleftrightarrow> c = CHR '' '' \<or> c = CHR 0x09"

text \<open>\<open>memcpy\<close> of a byte string into a buffer at an offset.\<close>

definition mem_store :: "buffer \<Rightarrow> nat \<Rightarrow> string \<Rightarrow> buffer" where
  "mem_store buf off s = (\<lambda>k. if off \<le> k \<and> k < off + length s then s ! (k - off) else buf k)"

definition mem_load :: "buffer \<Rightarrow> nat \<Rightarrow> nat \<Rightarrow> string" where
  "mem_load buf off n = map buf [off..<off + n]"

section \<open>Life cycle\<close>

definition current_generation :: "http_conn \<Rightarrow> u64" where
  "current_generation c = m_generation c"

definition generation_matches :: "http_conn \<Rightarrow> u64 \<Rightarrow> bool" where
  "generation_matches c expected \<longleftrightarrow> current_generation c = expected"

definition invalidate :: "http_conn \<Rightarrow> http_conn" where
  "invalidate c = c\<lparr>m_generation := m_generation c + 1, m_pending_close := False, m_sockfd := - 1\<rparr>"

text \<open>The private \<open>init()\<close>: the parser and output reset between requests.\<close>

definition init_parser :: "http_conn \<Rightarrow> http_conn" where
  "init_parser c =
     c\<lparr>bytes_to_send := 0, bytes_have_send := 0, m_check_state := CHECK_STATE_REQUESTLINE,
       m_linger := True, m_method := GET, m_url := None, m_version := None,
       m_content_length := 0, m_host := None, m_start_line := 0, m_checked_idx := 0,
       m_read_idx := 0, m_write_idx := 0, m_pending_close := False,
       m_request := http_request_new, m_read_buf := (\<lambda>_. NUL), m_write_buf := (\<lambda>_. NUL)\<rparr>"

definition conn_init :: "int \<Rightarrow> int \<Rightarrow> http_conn \<Rightarrow> http_conn" where
  "conn_init sockfd trig c =
     init_parser (c\<lparr>m_sockfd := sockfd, m_TRIGMode := trig, m_generation := m_generation c + 1\<rparr>)"

definition has_pipelined_input :: "http_conn \<Rightarrow> bool" where
  "has_pipelined_input c \<longleftrightarrow> m_read_idx c > m_checked_idx c"

section \<open>Lines\<close>

function parse_line :: "http_conn \<Rightarrow> line_status \<times> http_conn" where
  "parse_line c =
     (let i = m_checked_idx c; buf = m_read_buf c
      in if i < m_read_idx c then
           if buf i = CR then
             if i + 1 = m_read_idx c then (LINE_OPEN, c)
             else if buf (i + 1) = LF
             then (LINE_OK, c\<lparr>m_read_buf := buf(i := NUL, i + 1 := NUL), m_checked_idx := i + 2\<rparr>)
             else (LINE_BAD, c)
           else if buf i = LF then
             if i > 1 \<and> buf (i - 1) = CR
             then (LINE_OK, c\<lparr>m_read_buf := buf(i - 1 := NUL, i := NUL), m_checked_idx := i + 1\<rparr>)
             else (LINE_BAD, c)
           else parse_line (c\<lparr>m_checked_idx := i + 1\<rparr>)
         else (LINE_OPEN, c))"
  by pat_completeness auto
termination
  by (relation "measure (\<lambda>c. m_read_idx c - m_checked_idx c)") auto

declare parse_line.simps [simp del]

section \<open>The request line\<close>

definition method_of :: "string \<Rightarrow> http_method option" where
  "method_of s =
     (if strcaseeq s ''GET'' then Some GET
      else if strcaseeq s ''POST'' then Some POST
      else if strcaseeq s ''PUT'' then Some PUT
      else if strcaseeq s ''DELETE'' then Some DELETE
      else None)"

fun method_name :: "http_method \<Rightarrow> string" where
  "method_name GET = ''GET''"
| "method_name POST = ''POST''"
| "method_name PUT = ''PUT''"
| "method_name DELETE = ''DELETE''"
| "method_name HEAD = ''HEAD''"
| "method_name OPTIONS = ''OPTIONS''"

text \<open>The part of \<open>parse_request_line\<close> after the URL has been reduced to its path (\<open>m_url\<close> at
  \<open>w\<close>): the query is cut off and the request is filled in.\<close>

definition finish_request_line :: "nat \<Rightarrow> http_conn \<Rightarrow> http_code \<times> http_conn" where
  "finish_request_line w c =
     (let buf = m_read_buf c;
          req = (m_request c)\<lparr>req_method := method_name (m_method c)\<rparr>
      in case find_char (\<lambda>ch. ch = CHR ''?'') buf w of
           None \<Rightarrow>
             (NO_REQUEST, c\<lparr>m_request := req\<lparr>req_path := cstr buf w\<rparr>,
                            m_check_state := CHECK_STATE_HEADER\<rparr>)
         | Some q \<Rightarrow>
             (let buf' = buf(q := NUL)
              in (NO_REQUEST, c\<lparr>m_read_buf := buf',
                    m_request := req\<lparr>req_query := cstr buf' (q + 1), req_path := cstr buf' w\<rparr>,
                    m_check_state := CHECK_STATE_HEADER\<rparr>)))"

text \<open>From the version check on; \<open>m_url\<close> and \<open>m_version\<close> are set.\<close>

definition parse_target :: "nat \<Rightarrow> nat \<Rightarrow> http_conn \<Rightarrow> http_code \<times> http_conn" where
  "parse_target url ver c =
     (let buf = m_read_buf c
      in if \<not> strcaseeq (cstr buf ver) ''HTTP/1.1'' then (BAD_REQUEST, c)
         else case (if strncaseeq (cstr buf url) ''http://''
                    then find_char (\<lambda>ch. ch = CHR ''/'') buf (url + 7) else Some url) of
                None \<Rightarrow> (BAD_REQUEST, c\<lparr>m_url := None\<rparr>)
              | Some url1 \<Rightarrow>
                  (case (if strncaseeq (cstr buf url1) ''https://''
                         then find_char (\<lambda>ch. ch = CHR ''/'') buf (url1 + 8) else Some url1) of
                     None \<Rightarrow> (BAD_REQUEST, c\<lparr>m_url := None\<rparr>)
                   | Some w \<Rightarrow>
                       if buf w \<noteq> CHR ''/'' then (BAD_REQUEST, c\<lparr>m_url := Some w\<rparr>)
                       else finish_request_line w (c\<lparr>m_url := Some w\<rparr>)))"

definition parse_request_line :: "nat \<Rightarrow> http_conn \<Rightarrow> http_code \<times> http_conn" where
  "parse_request_line t c =
     (case find_char is_ws (m_read_buf c) t of
        None \<Rightarrow> (BAD_REQUEST, c\<lparr>m_url := None\<rparr>)
      | Some u \<Rightarrow>
          (let buf1 = (m_read_buf c)(u := NUL);
               c1 = c\<lparr>m_read_buf := buf1, m_url := Some (u + 1)\<rparr>
           in case method_of (cstr buf1 t) of
                None \<Rightarrow> (BAD_REQUEST, c1)
              | Some m \<Rightarrow>
                  (let url = skip_chars is_ws buf1 (u + 1);
                       c2 = c1\<lparr>m_method := m, m_url := Some url\<rparr>
                   in case find_char is_ws buf1 url of
                        None \<Rightarrow> (BAD_REQUEST, c2\<lparr>m_version := None\<rparr>)
                      | Some v \<Rightarrow>
                          (let buf2 = buf1(v := NUL);
                               ver = skip_chars is_ws buf2 (v + 1)
                           in parse_target url ver
                                (c2\<lparr>m_read_buf := buf2, m_version := Some ver\<rparr>)))))"

section \<open>Header lines\<close>

definition set_request_header :: "string \<Rightarrow> string \<Rightarrow> http_conn \<Rightarrow> http_conn" where
  "set_request_header k v c =
     c\<lparr>m_request := (m_request c)\<lparr>req_headers := (req_headers (m_request c))(k \<mapsto> v)\<rparr>\<rparr>"

definition parse_headers :: "nat \<Rightarrow> http_conn \<Rightarrow> http_code \<times> http_conn" where
  "parse_headers t c =
     (let buf = m_read_buf c; line = cstr buf t
      in if buf t = NUL then
           if m_content_length c \<noteq> 0 then
             if m_content_length c < 0
                \<or> int (m_checked_idx c) + m_content_length c \<ge> int READ_BUFFER_SIZE
             then (REQUEST_ENTITY_TOO_LARGE, c)
             else (NO_REQUEST, c\<lparr>m_check_state := CHECK_STATE_CONTENT\<rparr>)
           else (GET_REQUEST, c)
         else if strncaseeq line ''Connection:'' then
           (let v = cstr buf (skip_chars is_ws buf (t + 11));
                c' = (if strcaseeq v ''keep-alive'' then c\<lparr>m_linger := True\<rparr>
                      else if strcaseeq v ''close'' then c\<lparr>m_linger := False\<rparr> else c)
            in (NO_REQUEST, set_request_header ''Connection'' v c'))
         else if strncaseeq line ''Content-length:'' then
           (let v = cstr buf (skip_chars is_ws buf (t + 15))
            in case parse_content_length v of
                 None \<Rightarrow> (BAD_REQUEST, c)
               | Some len \<Rightarrow>
                   if len \<ge> int READ_BUFFER_SIZE then (REQUEST_ENTITY_TOO_LARGE, c)
                   else (NO_REQUEST,
                         set_request_header ''Content-Length'' v (c\<lparr>m_content_length := len\<rparr>)))
         else if is_unsupported_body_encoding_header line then (BAD_REQUEST, c)
         else if strncaseeq line ''Host:'' then
           (let h = skip_chars is_ws buf (t + 5)
            in (NO_REQUEST, set_request_header ''Host'' (cstr buf h) (c\<lparr>m_host := Some h\<rparr>)))
         else
           (case find_char (\<lambda>ch. ch = CHR '':'') buf t of
              None \<Rightarrow> (NO_REQUEST, c)
            | Some colon \<Rightarrow>
                (NO_REQUEST,
                 set_request_header (mem_load buf t (colon - t))
                   (cstr buf (skip_chars is_ws buf (colon + 1))) c)))"

section \<open>The body\<close>

definition parse_content :: "nat \<Rightarrow> http_conn \<Rightarrow> http_code \<times> http_conn" where
  "parse_content t c =
     (if int (m_read_idx c) \<ge> m_content_length c + int (m_checked_idx c)
      then (GET_REQUEST,
            c\<lparr>m_request := (m_request c)\<lparr>req_body := mem_load (m_read_buf c) t (nat (m_content_length c))\<rparr>,
              m_checked_idx := m_checked_idx c + nat (m_content_length c)\<rparr>)
      else (NO_REQUEST, c))"

section \<open>The state machine\<close>

datatype flow = Return http_code | Continue line_status

text \<open>The body of the \<open>while\<close> loop of \<open>process_read\<close>, entered with a complete line (or in the
  content state).\<close>

definition process_line :: "http_conn \<Rightarrow> flow \<times> http_conn" where
  "process_line c0 =
     (let t = m_start_line c0; c = c0\<lparr>m_start_line := m_checked_idx c0\<rparr>
      in case m_check_state c of
           CHECK_STATE_REQUESTLINE \<Rightarrow>
             (case parse_request_line t c of
                (ret, c') \<Rightarrow> if ret = BAD_REQUEST then (Return BAD_REQUEST, c')
                             else (Continue LINE_OK, c'))
         | CHECK_STATE_HEADER \<Rightarrow>
             (case parse_headers t c of
                (ret, c') \<Rightarrow> if ret = BAD_REQUEST then (Return BAD_REQUEST, c')
                             else if ret = REQUEST_ENTITY_TOO_LARGE
                             then (Return REQUEST_ENTITY_TOO_LARGE, c')
                             else if ret = GET_REQUEST then (Return GET_REQUEST, c')
                             else (Continue LINE_OK, c'))
         | CHECK_STATE_CONTENT \<Rightarrow>
             (case parse_content t c of
                (ret, c') \<Rightarrow> if ret = GET_REQUEST then (Return GET_REQUEST, c')
                             else (Continue LINE_OPEN, c')))"

text \<open>The loop condition: in the content state a line status of \<open>LINE_OK\<close> enters the body without
  looking for a line end; otherwise \<open>parse_line\<close> decides.\<close>

definition next_line_status :: "line_status \<Rightarrow> http_conn \<Rightarrow> line_status \<times> http_conn" where
  "next_line_status ls c =
     (if m_check_state c = CHECK_STATE_CONTENT \<and> ls = LINE_OK then (LINE_OK, c) else parse_line c)"


text \<open>What the steps of the loop keep of the cursors; the loop terminates because a line found moves
  the cursor on, and in the content state the body is tried once before lines are looked for.\<close>

lemma parse_line_cursor:
  "parse_line c = (ls, c') \<Longrightarrow>
     m_read_idx c' = m_read_idx c \<and> m_checked_idx c \<le> m_checked_idx c'
     \<and> (ls = LINE_OK \<longrightarrow> m_checked_idx c < m_checked_idx c' \<and> m_checked_idx c' \<le> m_read_idx c')
     \<and> (m_checked_idx c \<le> m_read_idx c \<longrightarrow> m_checked_idx c' \<le> m_read_idx c')
     \<and> m_start_line c' = m_start_line c \<and> m_check_state c' = m_check_state c
     \<and> m_content_length c' = m_content_length c \<and> m_request c' = m_request c
     \<and> m_linger c' = m_linger c"
proof (induction c arbitrary: ls c' rule: parse_line.induct)
  case (1 c)
  from 1(2) show ?case
    by (subst (asm) parse_line.simps)
      (use 1(1) in \<open>fastforce simp: Let_def split: if_splits\<close>)
qed

lemma parse_request_line_cursor:
  "parse_request_line t c = (ret, c') \<Longrightarrow>
     m_read_idx c' = m_read_idx c \<and> m_checked_idx c' = m_checked_idx c
     \<and> m_start_line c' = m_start_line c \<and> m_content_length c' = m_content_length c
     \<and> m_linger c' = m_linger c
     \<and> (ret = BAD_REQUEST \<or> ret = NO_REQUEST \<and> m_check_state c' = CHECK_STATE_HEADER)"
  by (auto simp: parse_request_line_def parse_target_def finish_request_line_def Let_def
      split: option.splits if_splits)

lemma parse_headers_cursor:
  "parse_headers t c = (ret, c') \<Longrightarrow>
     m_read_idx c' = m_read_idx c \<and> m_checked_idx c' = m_checked_idx c
     \<and> m_start_line c' = m_start_line c \<and> m_read_buf c' = m_read_buf c
     \<and> ret \<in> {NO_REQUEST, GET_REQUEST, BAD_REQUEST, REQUEST_ENTITY_TOO_LARGE}"
  by (auto simp: parse_headers_def set_request_header_def Let_def split: option.splits if_splits)

lemma process_line_Continue:
  assumes "process_line c = (Continue ls, c')"
  shows "m_read_idx c' = m_read_idx c \<and> m_checked_idx c' = m_checked_idx c
    \<and> m_start_line c' = m_checked_idx c
    \<and> (if m_check_state c = CHECK_STATE_CONTENT
       then ls = LINE_OPEN \<and> m_check_state c' = CHECK_STATE_CONTENT else ls = LINE_OK)"
  using assms
  by (auto simp: process_line_def parse_content_def Let_def split: check_state.splits if_splits prod.splits
      dest!: parse_request_line_cursor parse_headers_cursor)

definition loop_flag :: "line_status \<Rightarrow> http_conn \<Rightarrow> nat" where
  "loop_flag ls c = (if m_check_state c = CHECK_STATE_CONTENT \<and> ls = LINE_OK then 1 else 0)"

lemma loop_measure:
  assumes "next_line_status ls c = (LINE_OK, c1)" and "process_line c1 = (Continue ls', c2)"
  shows "m_read_idx c2 - m_checked_idx c2 < m_read_idx c - m_checked_idx c
    \<or> m_read_idx c2 - m_checked_idx c2 = m_read_idx c - m_checked_idx c
      \<and> loop_flag ls' c2 < loop_flag ls c"
proof (cases "m_check_state c = CHECK_STATE_CONTENT \<and> ls = LINE_OK")
  case True
  with assms show ?thesis
    by (auto simp: next_line_status_def loop_flag_def dest!: process_line_Continue)
next
  case False
  with assms(1) have "m_checked_idx c < m_checked_idx c1" "m_checked_idx c1 \<le> m_read_idx c1"
    "m_read_idx c1 = m_read_idx c"
    by (auto simp: next_line_status_def dest!: parse_line_cursor)
  with process_line_Continue [OF assms(2)] show ?thesis by linarith
qed

function process_read_loop :: "line_status \<Rightarrow> http_conn \<Rightarrow> http_code \<times> http_conn" where
  "process_read_loop ls c =
     (case next_line_status ls c of
        (LINE_OK, c1) \<Rightarrow>
          (case process_line c1 of
             (Return ret, c2) \<Rightarrow> (ret, c2)
           | (Continue ls', c2) \<Rightarrow> process_read_loop ls' c2)
      | (LINE_BAD, c1) \<Rightarrow> (BAD_REQUEST, c1)
      | (LINE_OPEN, c1) \<Rightarrow>
          (if m_read_idx c1 \<ge> READ_BUFFER_SIZE then (REQUEST_ENTITY_TOO_LARGE, c1)
           else (NO_REQUEST, c1)))"
  by pat_completeness auto
termination
  by (relation "measures [\<lambda>(ls, c). m_read_idx c - m_checked_idx c, \<lambda>(ls, c). loop_flag ls c]")
    (auto dest: loop_measure [OF sym sym])

declare process_read_loop.simps [simp del]

definition process_read :: "http_conn \<Rightarrow> http_code \<times> http_conn" where
  "process_read c = process_read_loop LINE_OK c"

section \<open>Reading from the socket\<close>

text \<open>One \<open>recv\<close>: the bytes delivered (none at the end of the stream), would-block, or another error.
  The kernel never delivers more than was asked for; a script that has run out stands for a socket
  with nothing to read.\<close>

datatype recv_result = Received string | RecvAgain | RecvError

definition store_received :: "string \<Rightarrow> http_conn \<Rightarrow> http_conn" where
  "store_received bs c =
     (let got = take (READ_BUFFER_SIZE - m_read_idx c) bs
      in c\<lparr>m_read_buf := mem_store (m_read_buf c) (m_read_idx c) got,
           m_read_idx := m_read_idx c + length got\<rparr>)"

fun read_loop :: "recv_result list \<Rightarrow> bool \<Rightarrow> http_conn \<Rightarrow> bool \<times> http_conn" where
  "read_loop [] got_data c = (got_data \<or> m_read_idx c \<ge> READ_BUFFER_SIZE, c)"
| "read_loop (r # rs) got_data c =
     (if m_read_idx c < READ_BUFFER_SIZE then
        (case r of
           RecvAgain \<Rightarrow> (got_data \<or> m_read_idx c \<ge> READ_BUFFER_SIZE, c)
         | RecvError \<Rightarrow> (False, c)
         | Received bs \<Rightarrow>
             if bs = [] then (got_data, c) else read_loop rs True (store_received bs c))
      else (got_data \<or> m_read_idx c \<ge> READ_BUFFER_SIZE, c))"

definition read_once :: "recv_result list \<Rightarrow> http_conn \<Rightarrow> bool \<times> http_conn" where
  "read_once rs c =
     (if m_read_idx c \<ge> READ_BUFFER_SIZE then (True, c)
      else if m_TRIGMode c = 0 then
        (case rs of
           Received bs # _ \<Rightarrow> if bs = [] then (False, c) else (True, store_received bs c)
         | _ \<Rightarrow> (False, c))
      else read_loop rs False c)"

section \<open>Writing to the socket\<close>

datatype epoll_ev = EPOLLIN | EPOLLOUT

text \<open>\<open>modfd(m_epollfd, fd, ev, trig)\<close>.\<close>

datatype epoll_op = Modfd int epoll_ev int

text \<open>\<open>hs\<close> is the order in which \<open>serialize\<close> meets the response headers.\<close>

definition process_write :: "(string \<times> string) list \<Rightarrow> http_response \<Rightarrow> http_conn \<Rightarrow> bool \<times> http_conn" where
  "process_write hs resp c =
     (let raw = serialize hs resp
      in if length raw \<ge> WRITE_BUFFER_SIZE then (False, c)
         else (True, c\<lparr>m_write_buf := mem_store (m_write_buf c) 0 raw, m_write_idx := length raw,
                       m_iov_base := 0, m_iov_len := int (length raw),
                       bytes_to_send := int (length raw)\<rparr>))"

definition retain_pipelined_bytes :: "http_conn \<Rightarrow> http_conn" where
  "retain_pipelined_bytes c =
     (let checked = m_checked_idx c; leftover = int (m_read_idx c) - int checked
      in if leftover > 0
         then (let saved = mem_load (m_read_buf c) checked (nat leftover); c' = init_parser c
               in c'\<lparr>m_read_buf := mem_store (m_read_buf c') 0 saved, m_read_idx := nat leftover\<rparr>)
         else (init_parser c)\<lparr>m_read_idx := nat leftover\<rparr>)"

datatype writev_result = Sent nat | WriteAgain | WriteIntr | WriteError

text \<open>The send loop.  A call that sends \<open>n\<close> bytes puts the next \<open>min n iov_len\<close> bytes of the write
  buffer on the wire; a script that has run out stands for a socket that would block.  The result is
  the return value, the connection, the descriptor operations and the bytes sent.\<close>

fun write_loop ::
  "writev_result list \<Rightarrow> http_conn \<Rightarrow> bool \<times> http_conn \<times> epoll_op list \<times> string" where
  "write_loop [] c = (True, c, [Modfd (m_sockfd c) EPOLLOUT (m_TRIGMode c)], [])"
| "write_loop (WriteIntr # ws) c = write_loop ws c"
| "write_loop (WriteAgain # ws) c = (True, c, [Modfd (m_sockfd c) EPOLLOUT (m_TRIGMode c)], [])"
| "write_loop (WriteError # ws) c = (False, c, [], [])"
| "write_loop (Sent n # ws) c =
     (let temp = min n (nat (m_iov_len c));
          out = mem_load (m_write_buf c) (m_iov_base c) temp;
          have_send = bytes_have_send c + int temp; to_send = bytes_to_send c - int temp;
          c1 = c\<lparr>bytes_have_send := have_send, bytes_to_send := to_send,
                 m_iov_base := nat have_send, m_iov_len := to_send\<rparr>
      in if to_send \<le> 0
         then if m_linger c1
              then (True, retain_pipelined_bytes c1, [Modfd (m_sockfd c) EPOLLIN (m_TRIGMode c)], out)
              else (False, c1, [Modfd (m_sockfd c) EPOLLIN (m_TRIGMode c)], out)
         else case write_loop ws c1 of (ok, c2, ops, out') \<Rightarrow> (ok, c2, ops, out @ out'))"

definition conn_write ::
  "writev_result list \<Rightarrow> http_conn \<Rightarrow> bool \<times> http_conn \<times> epoll_op list \<times> string" where
  "conn_write ws c =
     (if m_pending_close c then (False, c\<lparr>m_pending_close := False\<rparr>, [], [])
      else if bytes_to_send c = 0
      then (True, retain_pipelined_bytes c, [Modfd (m_sockfd c) EPOLLIN (m_TRIGMode c)], [])
      else write_loop ws c)"

definition overload_body :: string where
  "overload_body = ''{'' @ [CHR 0x22] @ ''error'' @ [CHR 0x22] @ '':'' @ [CHR 0x22] @ ''service unavailable'' @ [CHR 0x22] @ ''}''"

definition overload_response :: string where
  "overload_response =
     ''HTTP/1.1 503 Service Unavailable'' @ CRLF @ ''Content-Type: application/json'' @ CRLF
     @ ''Connection: close'' @ CRLF @ ''Content-Length: '' @ to_string (int (length overload_body)) @ CRLF
     @ CRLF @ overload_body"

text \<open>The response fits the array of 256 bytes that \<open>snprintf\<close> fills (\<open>overload_response_fits\<close>), so all of it
  is sent.\<close>

definition reject_overload :: "http_conn \<Rightarrow> string option" where
  "reject_overload c = (if m_sockfd c < 0 then None else Some overload_response)"


lemma overload_response_fits: "length overload_response < 256"
  by (simp add: overload_response_def overload_body_def to_string_def dec_digits.simps)


section \<open>Worker entry\<close>

definition arm_epoll_if_current :: "u64 \<Rightarrow> epoll_ev \<Rightarrow> http_conn \<Rightarrow> bool \<times> epoll_op list" where
  "arm_epoll_if_current expected_generation ev c =
     (if \<not> generation_matches c expected_generation \<or> m_sockfd c < 0 then (False, [])
      else (generation_matches c expected_generation, [Modfd (m_sockfd c) ev (m_TRIGMode c)]))"

definition error_json :: "string \<Rightarrow> json" where
  "error_json msg = JObj [(''error'', JStr msg)]"

text \<open>What the metrics registry and the access log are told about a request; the durations and the
  peer address are not modelled.\<close>

datatype observation =
    HttpRequestObserved string string int   \<comment> \<open>method, route, status\<close>
  | AccessLogged http_request int

definition with_request :: "http_request \<Rightarrow> http_conn \<Rightarrow> http_conn" where
  "with_request req c = c\<lparr>m_request := req\<rparr>"

text \<open>The part of \<open>process\<close> that builds the response for a finished read.  An exception of the JSON
  library or of a handler leaves it.\<close>

definition response_for ::
  "json_lib \<Rightarrow> 's route list \<Rightarrow> http_code \<Rightarrow> http_conn \<Rightarrow> 's \<Rightarrow> (exn + http_response) \<times> http_conn \<times> 's" where
  "response_for lib routes read_ret c s =
     (if read_ret = BAD_REQUEST then
        (set_json lib (error_json ''bad request'') (set_status 400 http_response_new), c, s)
      else if read_ret = REQUEST_ENTITY_TOO_LARGE then
        (set_json lib (error_json ''request entity too large'') (set_status 413 http_response_new),
         c\<lparr>m_linger := False\<rparr>, s)
      else if read_ret = INTERNAL_ERROR then
        (set_json lib (error_json ''internal server error'') (set_status 500 http_response_new), c, s)
      else
        (case dispatch routes (m_request c) http_response_new s of
           (req, Inl e, s') \<Rightarrow> (Inl e, with_request req c, s')
         | (req, Inr (True, resp), s') \<Rightarrow> (Inr resp, with_request req c, s')
         | (req, Inr (False, resp), s') \<Rightarrow>
             (set_json lib (JObj [(''error'', JStr ''not found''), (''path'', JStr (req_path req))])
                (set_status 404 resp),
              with_request (req\<lparr>route_pattern := ''unmatched''\<rparr>) c, s')))"

definition observe_request :: "http_request \<Rightarrow> int \<Rightarrow> observation list" where
  "observe_request req status =
     [HttpRequestObserved (if req_method req = [] then ''UNKNOWN'' else req_method req)
        (if route_pattern req = [] then ''parse_error'' else route_pattern req) status,
      AccessLogged req status]"

text \<open>From the second generation check on.\<close>

definition process_finish ::
  "(string \<times> string) list \<Rightarrow> u64 \<Rightarrow> http_response \<Rightarrow> http_conn \<Rightarrow> http_conn \<times> epoll_op list" where
  "process_finish hs expected_generation resp c =
     (if \<not> generation_matches c expected_generation then (c, [])
      else case process_write hs resp c of
             (False, c') \<Rightarrow>
               (if generation_matches c' expected_generation \<and> m_sockfd c' \<ge> 0
                then (let c'' = c'\<lparr>m_pending_close := True\<rparr>
                      in (c'', snd (arm_epoll_if_current expected_generation EPOLLOUT c'')))
                else (c', []))
           | (True, c') \<Rightarrow> (c', snd (arm_epoll_if_current expected_generation EPOLLOUT c')))"

text \<open>\<open>process\<close>, run by a worker that no other thread disturbs.  \<open>order\<close> gives the iteration order of the
  response headers.  The worker among other threads is the step relation \<open>worker_step\<close> below.\<close>

definition connection_header :: "http_conn \<Rightarrow> http_response \<Rightarrow> http_response" where
  "connection_header c resp = set_header ''Connection'' (if m_linger c then ''keep-alive'' else ''close'') resp"

definition process ::
  "((string \<rightharpoonup> string) \<Rightarrow> (string \<times> string) list) \<Rightarrow> json_lib \<Rightarrow> 's route list
     \<Rightarrow> u64 \<Rightarrow> http_conn \<Rightarrow> 's \<Rightarrow> (exn + http_conn \<times> epoll_op list \<times> observation list) \<times> 's" where
  "process order lib routes expected_generation c s =
     (if \<not> generation_matches c expected_generation then (Inr (c, [], []), s)
      else case process_read c of
             (read_ret, c1) \<Rightarrow>
               if read_ret = NO_REQUEST
               then (Inr (c1, snd (arm_epoll_if_current expected_generation EPOLLIN c1), []), s)
               else (case response_for lib routes read_ret c1 s of
                       (Inl e, c2, s') \<Rightarrow> (Inl e, s')
                     | (Inr resp, c2, s') \<Rightarrow>
                         (let resp' = connection_header c2 resp;
                              (c3, ops) = process_finish (order (resp_headers resp')) expected_generation resp' c2
                          in (Inr (c3, ops, observe_request (m_request c2) (status_code resp')), s'))))"

section \<open>The worker among other threads\<close>

text \<open>\<open>process\<close> step by step.  Between two steps the event loop may close the slot, give it to a new connection,
  or act on it in any other way, and other threads may change the services.  One step is one turn of the loop of \<open>process_read\<close>, the
  construction of the response, the header and the observations, a test of the generation (with
  \<open>m_sockfd\<close>), \<open>process_write\<close>, the assignment to \<open>m_pending_close\<close>, or the call of \<open>modfd\<close>, which reads
  \<open>m_sockfd\<close> again.  (The members are plain variables, so threads that meet inside such a step have a data race.)\<close>

definition read_turn :: "line_status \<Rightarrow> http_conn \<Rightarrow> (line_status + http_code) \<times> http_conn" where
  "read_turn ls c =
     (case next_line_status ls c of
        (LINE_OK, c1) \<Rightarrow>
          (case process_line c1 of
             (Return ret, c2) \<Rightarrow> (Inr ret, c2)
           | (Continue ls', c2) \<Rightarrow> (Inl ls', c2))
      | (LINE_BAD, c1) \<Rightarrow> (Inr BAD_REQUEST, c1)
      | (LINE_OPEN, c1) \<Rightarrow>
          (Inr (if m_read_idx c1 \<ge> READ_BUFFER_SIZE then REQUEST_ENTITY_TOO_LARGE else NO_REQUEST), c1))"

datatype worker_pc =
    PcStart
  | PcReading line_status
  | PcAnswering http_code
  | PcAnswered http_response
  | PcFinishing http_response     \<comment> \<open>before the second test of the generation\<close>
  | PcWriting http_response       \<comment> \<open>after it\<close>
  | PcFailed                      \<comment> \<open>the response did not fit\<close>
  | PcPending
  | PcArming epoll_ev             \<comment> \<open>\<open>arm_epoll_if_current\<close>, before its test\<close>
  | PcModfd epoll_ev              \<comment> \<open>after it\<close>
  | PcDone
  | PcThrown exn

text \<open>The program counter, the slot, the services, and what the worker has told epoll, the metrics and the log.\<close>

type_synonym 's worker_config = "worker_pc \<times> http_conn \<times> 's \<times> epoll_op list \<times> observation list"

fun worker_next ::
  "((string \<rightharpoonup> string) \<Rightarrow> (string \<times> string) list) \<Rightarrow> json_lib \<Rightarrow> 's route list \<Rightarrow> u64
     \<Rightarrow> 's worker_config \<Rightarrow> 's worker_config option" where
  "worker_next order lib routes gen (PcStart, c, s, ops, obs) =
     Some (if generation_matches c gen then PcReading LINE_OK else PcDone, c, s, ops, obs)"
| "worker_next order lib routes gen (PcReading ls, c, s, ops, obs) =
     (case read_turn ls c of
        (Inl ls', c1) \<Rightarrow> Some (PcReading ls', c1, s, ops, obs)
      | (Inr ret, c1) \<Rightarrow> Some (if ret = NO_REQUEST then PcArming EPOLLIN else PcAnswering ret, c1, s, ops, obs))"
| "worker_next order lib routes gen (PcAnswering ret, c, s, ops, obs) =
     (case response_for lib routes ret c s of
        (Inl e, c1, s') \<Rightarrow> Some (PcThrown e, c1, s', ops, obs)
      | (Inr resp, c1, s') \<Rightarrow> Some (PcAnswered resp, c1, s', ops, obs))"
| "worker_next order lib routes gen (PcAnswered resp, c, s, ops, obs) =
     (let resp' = connection_header c resp
      in Some (PcFinishing resp', c, s, ops, obs @ observe_request (m_request c) (status_code resp')))"
| "worker_next order lib routes gen (PcFinishing resp, c, s, ops, obs) =
     Some (if generation_matches c gen then PcWriting resp else PcDone, c, s, ops, obs)"
| "worker_next order lib routes gen (PcWriting resp, c, s, ops, obs) =
     (case process_write (order (resp_headers resp)) resp c of
        (False, c1) \<Rightarrow> Some (PcFailed, c1, s, ops, obs)
      | (True, c1) \<Rightarrow> Some (PcArming EPOLLOUT, c1, s, ops, obs))"
| "worker_next order lib routes gen (PcFailed, c, s, ops, obs) =
     Some (if generation_matches c gen \<and> m_sockfd c \<ge> 0 then PcPending else PcDone, c, s, ops, obs)"
| "worker_next order lib routes gen (PcPending, c, s, ops, obs) =
     Some (PcArming EPOLLOUT, c\<lparr>m_pending_close := True\<rparr>, s, ops, obs)"
| "worker_next order lib routes gen (PcArming ev, c, s, ops, obs) =
     Some (if \<not> generation_matches c gen \<or> m_sockfd c < 0 then PcDone else PcModfd ev, c, s, ops, obs)"
| "worker_next order lib routes gen (PcModfd ev, c, s, ops, obs) =
     Some (PcDone, c, s, ops @ [Modfd (m_sockfd c) ev (m_TRIGMode c)], obs)"
| "worker_next order lib routes gen (PcDone, c, s, ops, obs) = None"
| "worker_next order lib routes gen (PcThrown e, c, s, ops, obs) = None"

text \<open>The worker and the other threads.  Only \<open>invalidate\<close> and \<open>init\<close> change the generation; the last component
  counts how often they have run.\<close>

inductive worker_step ::
  "((string \<rightharpoonup> string) \<Rightarrow> (string \<times> string) list) \<Rightarrow> json_lib \<Rightarrow> 's route list \<Rightarrow> u64
     \<Rightarrow> 's worker_config \<times> nat \<Rightarrow> 's worker_config \<times> nat \<Rightarrow> bool"
  for order :: "(string \<rightharpoonup> string) \<Rightarrow> (string \<times> string) list" and lib :: json_lib and routes :: "'s route list" and gen :: u64 where
  worker_acts: "worker_next order lib routes gen w = Some w' \<Longrightarrow> worker_step order lib routes gen (w, n) (w', n)"
| slot_closed: "worker_step order lib routes gen ((pc, c, s, ops, obs), n) ((pc, invalidate c, s, ops, obs), Suc n)"
| slot_reused: "worker_step order lib routes gen ((pc, c, s, ops, obs), n) ((pc, conn_init fd trig c, s, ops, obs), Suc n)"
| slot_used: "m_generation d = m_generation c \<Longrightarrow>
    worker_step order lib routes gen ((pc, c, s, ops, obs), n) ((pc, d, s', ops, obs), n)"

end
