(* ===== verification/Http_Parser.thy ===== *)
theory Http_Parser
  imports Http_Conn
begin

text \<open>
  What the request parser of \<open>Http_Conn\<close> computes, said on byte strings.

  The parser works in place: it cuts lines and words by writing NUL bytes into the read buffer and
  hands out pointers.  The reference parser here (\<open>spec_request_line\<close>, \<open>spec_header\<close>,
  \<open>spec_run\<close>) takes strings apart and never mentions an index.  \<open>process_read_refines\<close> relates
  the two; the properties of the connection follow from it: framing, bounds, and that the way the head
  of a request is cut into packets does not matter.
\<close>

section \<open>C strings\<close>

lemma cstr_bound: "i + length (cstr buf i) \<le> max i READ_BUFFER_SIZE"
proof (induction buf i rule: cstr.induct)
  case (1 buf i)
  then show ?case by (subst cstr.simps) auto
qed

lemma cstr_no_NUL: "NUL \<notin> set (cstr buf i)"
proof (induction buf i rule: cstr.induct)
  case (1 buf i)
  then show ?case by (subst cstr.simps) auto
qed

lemma cstr_drop: "n \<le> length (cstr buf i) \<Longrightarrow> cstr buf (i + n) = drop n (cstr buf i)"
proof (induction n arbitrary: i)
  case (Suc n)
  from Suc.prems have "i < READ_BUFFER_SIZE \<and> buf i \<noteq> NUL"
    by (subst (asm) cstr.simps) (auto split: if_splits)
  then have "cstr buf i = buf i # cstr buf (Suc i)" by (subst cstr.simps) simp
  with Suc.IH [of "Suc i"] Suc.prems show ?case by simp
qed simp

lemma cstr_nth: "n < length (cstr buf i) \<Longrightarrow> buf (i + n) = cstr buf i ! n"
proof (induction n arbitrary: i)
  case 0
  then have "cstr buf i = buf i # cstr buf (Suc i)" by (subst (asm) cstr.simps, subst cstr.simps) (auto split: if_splits)
  then show ?case by simp
next
  case (Suc n)
  from Suc.prems have "i < READ_BUFFER_SIZE \<and> buf i \<noteq> NUL"
    by (subst (asm) cstr.simps) (auto split: if_splits)
  then have "cstr buf i = buf i # cstr buf (Suc i)" by (subst cstr.simps) simp
  with Suc.IH [of "Suc i"] Suc.prems show ?case by simp
qed

lemma find_char_cstr:
  "find_char P buf i =
     (if list_ex P (cstr buf i) then Some (i + length (takeWhile (\<lambda>c. \<not> P c) (cstr buf i))) else None)"
proof (induction P buf i rule: find_char.induct)
  case (1 P buf i)
  then show ?case by (subst find_char.simps, subst (1 2) cstr.simps) auto
qed

lemma skip_chars_cstr: "skip_chars P buf i = i + length (takeWhile P (cstr buf i))"
proof (induction P buf i rule: skip_chars.induct)
  case (1 P buf i)
  then show ?case by (subst skip_chars.simps, subst cstr.simps) auto
qed

lemma cstr_cut:
  "j \<le> length (cstr buf i) \<Longrightarrow> i + j < READ_BUFFER_SIZE \<Longrightarrow> cstr (buf(i + j := NUL)) i = take j (cstr buf i)"
proof (induction j arbitrary: i)
  case 0
  then show ?case by (subst cstr.simps) simp
next
  case (Suc j)
  from Suc.prems(1) have i: "i < READ_BUFFER_SIZE \<and> buf i \<noteq> NUL"
    by (subst (asm) cstr.simps) (auto split: if_splits)
  then have "cstr buf i = buf i # cstr buf (Suc i)" by (subst cstr.simps) simp
  with Suc.IH [of "Suc i"] Suc.prems i show ?case by (subst cstr.simps) (simp add: fun_upd_def)
qed

lemma cstr_cut_before: "j < i \<Longrightarrow> cstr (buf(j := NUL)) i = cstr buf i"
proof (induction buf i rule: cstr.induct)
  case (1 buf i)
  then show ?case by (subst (1 2) cstr.simps) (auto simp: fun_upd_def)
qed

lemma mem_load_cstr: "n \<le> length (cstr buf i) \<Longrightarrow> mem_load buf i n = take n (cstr buf i)"
  by (rule nth_equalityI) (auto simp: mem_load_def cstr_nth)

text \<open>A C string that is cut out of the buffer by a NUL at \<open>i + length s\<close>.\<close>

lemma cstr_load:
  assumes "NUL \<notin> set (mem_load buf i n)" "buf (i + n) = NUL \<or> i + n \<ge> READ_BUFFER_SIZE" "i + n \<le> READ_BUFFER_SIZE"
  shows "cstr buf i = mem_load buf i n"
  using assms
proof (induction n arbitrary: i)
  case 0
  then show ?case by (subst cstr.simps) (auto simp: mem_load_def)
next
  case (Suc n)
  have "mem_load buf i (Suc n) = buf i # mem_load buf (Suc i) n"
    by (simp add: mem_load_def upt_conv_Cons del: upt_Suc)
  with Suc.IH [of "Suc i"] Suc.prems show ?case by (subst cstr.simps) auto
qed

lemma cstr_takeWhile:
  assumes "buf (i + n) = NUL" "i + n < READ_BUFFER_SIZE"
  shows "cstr buf i = takeWhile (\<lambda>c. c \<noteq> NUL) (mem_load buf i n)"
  using assms
proof (induction n arbitrary: i)
  case 0
  then show ?case by (subst cstr.simps) (auto simp: mem_load_def)
next
  case (Suc n)
  have "mem_load buf i (Suc n) = buf i # mem_load buf (Suc i) n"
    by (simp add: mem_load_def upt_conv_Cons del: upt_Suc)
  with Suc.IH [of "Suc i"] Suc.prems show ?case by (subst cstr.simps) simp
qed


lemma cstr_skip: "cstr buf (skip_chars P buf i) = dropWhile P (cstr buf i)"
  by (simp add: skip_chars_cstr cstr_drop length_takeWhile_le dropWhile_eq_drop)

lemma find_char_None: "find_char P buf i = None \<longleftrightarrow> dropWhile (\<lambda>c. \<not> P c) (cstr buf i) = []"
  by (auto simp: find_char_cstr list_ex_iff)

lemma find_char_Some:
  assumes "find_char P buf i = Some j"
  defines "w \<equiv> takeWhile (\<lambda>c. \<not> P c) (cstr buf i)" and "r \<equiv> dropWhile (\<lambda>c. \<not> P c) (cstr buf i)"
  shows "j = i + length w" "j < READ_BUFFER_SIZE" "j < i + length (cstr buf i)" "r \<noteq> []" "P (hd r)"
    "cstr buf j = r" "cstr (buf(j := NUL)) i = w" "cstr (buf(j := NUL)) (j + 1) = tl r"
proof -
  from assms(1) have ex: "list_ex P (cstr buf i)" and j: "j = i + length w"
    by (auto simp: find_char_cstr w_def split: if_splits)
  then show "j = i + length w" by simp
  from ex show r: "r \<noteq> []" by (auto simp: r_def list_ex_iff)
  then show "P (hd r)" unfolding r_def using hd_dropWhile by blast
  have len: "length w < length (cstr buf i)"
    using r unfolding r_def w_def dropWhile_eq_drop by simp
  with j show "j < i + length (cstr buf i)" by simp
  with cstr_bound [of i buf] j show lim: "j < READ_BUFFER_SIZE" by simp
  show "cstr buf j = r" using len unfolding j r_def
    by (simp add: cstr_drop w_def dropWhile_eq_drop)
  show "cstr (buf(j := NUL)) i = w" using cstr_cut [of "length w" buf i] len lim j
    by (simp add: w_def takeWhile_eq_take [symmetric])
  have "cstr (buf(j := NUL)) (j + 1) = cstr buf (i + Suc (length w))"
    by (simp add: cstr_cut_before j)
  also have "\<dots> = drop (Suc (length w)) (cstr buf i)" using len by (intro cstr_drop) simp
  also have "\<dots> = tl r" by (simp add: r_def w_def dropWhile_eq_drop drop_Suc tl_drop)
  finally show "cstr (buf(j := NUL)) (j + 1) = tl r" .
qed

section \<open>Reference request line\<close>

definition nonws :: "char \<Rightarrow> bool" where
  "nonws c \<longleftrightarrow> \<not> is_ws c"

definition strip_scheme :: "string \<Rightarrow> string \<Rightarrow> string option" where
  "strip_scheme scheme t =
     (if strncaseeq t scheme
      then (let r = dropWhile (\<lambda>c. c \<noteq> CHR ''/'') (drop (length scheme) t)
            in if r = [] then None else Some r)
      else Some t)"

definition spec_target :: "string \<Rightarrow> string option" where
  "spec_target t =
     (case strip_scheme ''http://'' t of
        None \<Rightarrow> None
      | Some t1 \<Rightarrow>
          (case strip_scheme ''https://'' t1 of
             None \<Rightarrow> None
           | Some t2 \<Rightarrow> if t2 \<noteq> [] \<and> hd t2 = CHR ''/'' then Some t2 else None))"

definition set_target :: "http_method \<Rightarrow> string \<Rightarrow> http_request \<Rightarrow> http_request" where
  "set_target m t req =
     (let path = takeWhile (\<lambda>c. c \<noteq> CHR ''?'') t; rest = dropWhile (\<lambda>c. c \<noteq> CHR ''?'') t
      in req\<lparr>req_method := method_name m, req_path := path,
             req_query := (if rest = [] then req_query req else tl rest)\<rparr>)"

definition spec_request_line :: "string \<Rightarrow> http_request \<Rightarrow> http_request option" where
  "spec_request_line l req =
     (let r1 = dropWhile nonws l; t0 = dropWhile is_ws r1; r2 = dropWhile nonws t0
      in if r1 = [] \<or> r2 = [] \<or> \<not> strcaseeq (dropWhile is_ws r2) ''HTTP/1.1'' then None
         else case method_of (takeWhile nonws l) of
                None \<Rightarrow> None
              | Some m \<Rightarrow> map_option (\<lambda>t. set_target m t req) (spec_target (takeWhile nonws t0)))"

text \<open>The part of the buffer outside the line is left alone.\<close>

definition same_outside :: "nat \<Rightarrow> nat \<Rightarrow> buffer \<Rightarrow> buffer \<Rightarrow> bool" where
  "same_outside i j buf buf' \<longleftrightarrow> (\<forall>k. k < i \<or> j \<le> k \<longrightarrow> buf' k = buf k)"

lemma same_outside_refl [simp]: "same_outside i j buf buf"
  by (simp add: same_outside_def)

lemma same_outside_trans:
  "same_outside i j buf buf1 \<Longrightarrow> same_outside i j buf1 buf2 \<Longrightarrow> same_outside i j buf buf2"
  by (simp add: same_outside_def)

lemma same_outside_cut:
  "same_outside i j buf buf' \<Longrightarrow> i \<le> k \<Longrightarrow> k < j \<Longrightarrow> same_outside i j buf (buf'(k := NUL))"
  by (auto simp: same_outside_def)

lemma finish_request_line_spec:
  assumes "finish_request_line w c = (ret, c')"
  shows "ret = NO_REQUEST \<and> m_check_state c' = CHECK_STATE_HEADER
    \<and> m_request c' = set_target (m_method c) (cstr (m_read_buf c) w) (m_request c)
    \<and> (i \<le> w \<and> w + length (cstr (m_read_buf c) w) \<le> e \<longrightarrow> same_outside i e (m_read_buf c) (m_read_buf c'))"
proof (cases "find_char (\<lambda>ch. ch = CHR ''?'') (m_read_buf c) w")
  case None
  then have c': "ret = NO_REQUEST" "m_check_state c' = CHECK_STATE_HEADER" "m_read_buf c' = m_read_buf c"
    "m_request c' = (m_request c)\<lparr>req_method := method_name (m_method c),
       req_path := cstr (m_read_buf c) w\<rparr>"
    using assms by (auto simp: finish_request_line_def Let_def)
  from None have none: "dropWhile (\<lambda>c. c \<noteq> CHR ''?'') (cstr (m_read_buf c) w) = []"
    by (simp only: find_char_None)
  then have all: "takeWhile (\<lambda>c. c \<noteq> CHR ''?'') (cstr (m_read_buf c) w) = cstr (m_read_buf c) w"
    by (metis append_Nil2 takeWhile_dropWhile_id)
  show ?thesis unfolding c' set_target_def Let_def none all by simp
next
  case (Some q)
  note q = find_char_Some [OF Some, simplified]
  from assms Some have c': "ret = NO_REQUEST" "m_check_state c' = CHECK_STATE_HEADER"
    "m_read_buf c' = (m_read_buf c)(q := NUL)"
    "m_request c' = (m_request c)\<lparr>req_method := method_name (m_method c),
       req_query := cstr ((m_read_buf c)(q := NUL)) (q + 1),
       req_path := cstr ((m_read_buf c)(q := NUL)) w\<rparr>"
    by (auto simp: finish_request_line_def Let_def)
  have "m_request c' = set_target (m_method c) (cstr (m_read_buf c) w) (m_request c)"
    using find_char_Some(4,7,8) [OF Some] unfolding c'(4) set_target_def Let_def
    by (simp del: dropWhile_eq_Nil_conv)
  moreover have "same_outside i e (m_read_buf c) (m_read_buf c')"
    if "i \<le> w \<and> w + length (cstr (m_read_buf c) w) \<le> e"
    unfolding c'(3) using that q(1,3) by (intro same_outside_cut) auto
  ultimately show ?thesis using c'(1,2) by blast
qed


lemma length_takeWhile_dropWhile: "length (takeWhile P xs) + length (dropWhile P xs) = length xs"
  by (metis length_append takeWhile_dropWhile_id)

text \<open>The step that skips \<open>scheme://host\<close> in an absolute request target.\<close>

definition skip_scheme :: "string \<Rightarrow> nat \<Rightarrow> buffer \<Rightarrow> nat \<Rightarrow> nat option" where
  "skip_scheme lit n buf url =
     (if strncaseeq (cstr buf url) lit
      then find_char (\<lambda>ch. ch = CHR ''/'') buf (url + n) else Some url)"

lemma skip_scheme_None:
  assumes "skip_scheme lit n buf url = None" "n = length lit"
  shows "strip_scheme lit (cstr buf url) = None"
proof -
  from assms(1) have eq: "strncaseeq (cstr buf url) lit"
    and f: "find_char (\<lambda>ch. ch = CHR ''/'') buf (url + n) = None"
    by (auto simp: skip_scheme_def split: if_splits)
  then have "n \<le> length (cstr buf url)" using assms(2) by (simp add: strncaseeq_length)
  with f eq assms(2) show ?thesis
    by (simp add: strip_scheme_def find_char_None cstr_drop del: dropWhile_eq_Nil_conv)
qed

lemma skip_scheme_Some:
  assumes "skip_scheme lit n buf url = Some w" "n = length lit"
  shows "strip_scheme lit (cstr buf url) = Some (cstr buf w)" "url \<le> w"
    "w + length (cstr buf w) = url + length (cstr buf url)"
proof -
  have "strip_scheme lit (cstr buf url) = Some (cstr buf w) \<and> url \<le> w
    \<and> w + length (cstr buf w) = url + length (cstr buf url)"
  proof (cases "strncaseeq (cstr buf url) lit")
    case True
    with assms(1) have f: "find_char (\<lambda>ch. ch = CHR ''/'') buf (url + n) = Some w"
      by (simp add: skip_scheme_def)
    note q = find_char_Some [OF this]
    from True have len: "n \<le> length (cstr buf url)" using assms(2) by (simp add: strncaseeq_length)
    then have d: "cstr buf (url + n) = drop n (cstr buf url)" by (rule cstr_drop)
    have "w + length (cstr buf w) = url + length (cstr buf url)"
      using len length_takeWhile_dropWhile [of "\<lambda>c. c \<noteq> CHR ''/''" "drop n (cstr buf url)"]
      unfolding q(6) unfolding q(1) unfolding d by simp
    moreover have "strip_scheme lit (cstr buf url) = Some (cstr buf w)"
      using q(4) True assms(2) unfolding strip_scheme_def q(6) d Let_def by (simp del: dropWhile_eq_Nil_conv)
    ultimately show ?thesis using q(1) by simp
  next
    case False
    with assms(1) show ?thesis by (simp add: skip_scheme_def strip_scheme_def)
  qed
  then show "strip_scheme lit (cstr buf url) = Some (cstr buf w)" "url \<le> w"
    "w + length (cstr buf w) = url + length (cstr buf url)" by blast+
qed

lemma parse_target_skip:
  "parse_target url ver c =
     (if \<not> strcaseeq (cstr (m_read_buf c) ver) ''HTTP/1.1'' then (BAD_REQUEST, c)
      else case skip_scheme ''http://'' 7 (m_read_buf c) url of
             None \<Rightarrow> (BAD_REQUEST, c\<lparr>m_url := None\<rparr>)
           | Some url1 \<Rightarrow>
               (case skip_scheme ''https://'' 8 (m_read_buf c) url1 of
                  None \<Rightarrow> (BAD_REQUEST, c\<lparr>m_url := None\<rparr>)
                | Some w \<Rightarrow>
                    if m_read_buf c w \<noteq> CHR ''/'' then (BAD_REQUEST, c\<lparr>m_url := Some w\<rparr>)
                    else finish_request_line w (c\<lparr>m_url := Some w\<rparr>)))"
  unfolding parse_target_def skip_scheme_def Let_def by (rule refl)

lemma spec_target_skip:
  assumes http: "skip_scheme ''http://'' 7 buf url = Some u" and https: "skip_scheme ''https://'' 8 buf u = Some w"
    and lim: "url + length (cstr buf url) \<le> e" "e < READ_BUFFER_SIZE"
  shows "spec_target (cstr buf url) = (if buf w = CHR ''/'' then Some (cstr buf w) else None)"
    "url \<le> w" "w + length (cstr buf w) \<le> e"
proof -
  note u = skip_scheme_Some [OF http, simplified] and w = skip_scheme_Some [OF https, simplified]
  show "url \<le> w" "w + length (cstr buf w) \<le> e" using u(2,3) w(2,3) lim by linarith+
  then have "w < READ_BUFFER_SIZE" using lim by linarith
  then have "cstr buf w \<noteq> [] \<and> hd (cstr buf w) = CHR ''/'' \<longleftrightarrow> buf w = CHR ''/''"
    by (subst (1 2) cstr.simps) auto
  then show "spec_target (cstr buf url) = (if buf w = CHR ''/'' then Some (cstr buf w) else None)"
    unfolding spec_target_def using u(1) w(1) by simp
qed

lemma parse_target_spec:
  assumes run: "parse_target url ver c = (ret, c')"
    and lim: "i \<le> url" "url + length (cstr (m_read_buf c) url) \<le> e" "e < READ_BUFFER_SIZE"
  shows "same_outside i e (m_read_buf c) (m_read_buf c') \<and>
    (case if strcaseeq (cstr (m_read_buf c) ver) ''HTTP/1.1''
          then spec_target (cstr (m_read_buf c) url) else None of
       None \<Rightarrow> ret = BAD_REQUEST
     | Some t \<Rightarrow> ret = NO_REQUEST \<and> m_check_state c' = CHECK_STATE_HEADER
                \<and> m_request c' = set_target (m_method c) t (m_request c))"
proof -
  let ?buf = "m_read_buf c"
  consider (ver) "\<not> strcaseeq (cstr ?buf ver) ''HTTP/1.1''"
  | (http) "strcaseeq (cstr ?buf ver) ''HTTP/1.1''" "skip_scheme ''http://'' 7 ?buf url = None"
  | (https) u where "strcaseeq (cstr ?buf ver) ''HTTP/1.1''" "skip_scheme ''http://'' 7 ?buf url = Some u"
      "skip_scheme ''https://'' 8 ?buf u = None"
  | (target) u w where "strcaseeq (cstr ?buf ver) ''HTTP/1.1''" "skip_scheme ''http://'' 7 ?buf url = Some u"
      "skip_scheme ''https://'' 8 ?buf u = Some w"
    by (meson not_Some_eq)
  then show ?thesis
  proof cases
    case ver
    with run show ?thesis by (auto simp: parse_target_skip)
  next
    case http
    from http(2) have "strip_scheme ''http://'' (cstr ?buf url) = None"
      by (rule skip_scheme_None) simp
    with http run show ?thesis by (auto simp: parse_target_skip spec_target_def)
  next
    case (https u)
    from https(2) have "strip_scheme ''http://'' (cstr ?buf url) = Some (cstr ?buf u)"
      by (rule skip_scheme_Some) simp
    moreover from https(3) have "strip_scheme ''https://'' (cstr ?buf u) = None"
      by (rule skip_scheme_None) simp
    ultimately show ?thesis using https run by (auto simp: parse_target_skip spec_target_def)
  next
    case (target u w)
    note t = spec_target_skip [OF target(2,3) lim(2,3)]
    show ?thesis
    proof (cases "?buf w = CHR ''/''")
      case True
      with target run have "finish_request_line w (c\<lparr>m_url := Some w\<rparr>) = (ret, c')"
        by (simp add: parse_target_skip)
      from finish_request_line_spec [OF this, of i e] lim(1) True t target(1) show ?thesis by simp
    next
      case False
      with target run t show ?thesis by (auto simp: parse_target_skip)
    qed
  qed
qed


text \<open>A word of the line is cut off at the white space behind it: what the buffer holds at the word, and at the
  first byte \<open>w\<close> of the next one.\<close>

lemma word_cut:
  assumes cut: "find_char is_ws buf t = Some u" and e: "e = t + length (cstr buf t)"
  defines "l \<equiv> cstr buf t" and "buf1 \<equiv> buf(u := NUL)" and "w \<equiv> skip_chars is_ws (buf(u := NUL)) (u + 1)"
  shows "dropWhile nonws l \<noteq> []" "cstr buf1 t = takeWhile nonws l"
    "cstr buf1 w = dropWhile is_ws (dropWhile nonws l)" "t \<le> w" "e = w + length (cstr buf1 w)"
    "same_outside t e buf buf1"
proof -
  note u = find_char_Some [OF cut, folded buf1_def l_def nonws_def [abs_def]]
  note w = w_def [folded buf1_def]
  define r where "r = dropWhile nonws l"
  show "dropWhile nonws l \<noteq> []" "cstr buf1 t = takeWhile nonws l" by (fact u(4), fact u(7))
  have "dropWhile is_ws r = dropWhile is_ws (tl r)" using u(4,5) unfolding r_def by (cases "dropWhile nonws l") auto
  then show rest: "cstr buf1 w = dropWhile is_ws (dropWhile nonws l)"
    unfolding w cstr_skip u(8) by (simp add: r_def)
  show "t \<le> w" using u(1) by (simp add: w skip_chars_cstr)
  have "w + length (cstr buf1 w) = u + 1 + length (tl r)"
    unfolding w cstr_skip unfolding skip_chars_cstr u(8)
    using length_takeWhile_dropWhile [of is_ws "tl r"] by (simp add: r_def)
  moreover have "u + length r = e"
    using length_takeWhile_dropWhile [of nonws l] e u(1) by (simp add: r_def l_def)
  ultimately show "e = w + length (cstr buf1 w)" using u(4) by (cases "dropWhile nonws l") (auto simp: r_def)
  show "same_outside t e buf buf1"
    unfolding buf1_def using u(1,3) e by (intro same_outside_cut) (auto simp: l_def)
qed

lemma spec_request_line_words:
  assumes "dropWhile nonws l \<noteq> []" "dropWhile nonws (dropWhile is_ws (dropWhile nonws l)) \<noteq> []"
    "method_of (takeWhile nonws l) = Some m"
  shows "spec_request_line l req = map_option (\<lambda>t. set_target m t req)
    (if strcaseeq (dropWhile is_ws (dropWhile nonws (dropWhile is_ws (dropWhile nonws l)))) ''HTTP/1.1''
     then spec_target (takeWhile nonws (dropWhile is_ws (dropWhile nonws l))) else None)"
  using assms unfolding spec_request_line_def Let_def by (simp del: dropWhile_eq_Nil_conv)

lemma parse_request_line_spec:
  assumes run: "parse_request_line t c = (ret, c')"
    and e: "e = t + length (cstr (m_read_buf c) t)" "e < READ_BUFFER_SIZE"
  shows "same_outside t e (m_read_buf c) (m_read_buf c') \<and>
    (case spec_request_line (cstr (m_read_buf c) t) (m_request c) of
       None \<Rightarrow> ret = BAD_REQUEST
     | Some req \<Rightarrow> ret = NO_REQUEST \<and> m_check_state c' = CHECK_STATE_HEADER \<and> m_request c' = req)"
proof (cases "find_char is_ws (m_read_buf c) t")
  case None
  then have "spec_request_line (cstr (m_read_buf c) t) (m_request c) = None"
    by (simp add: find_char_None spec_request_line_def nonws_def [abs_def] del: dropWhile_eq_Nil_conv)
  with None run show ?thesis by (auto simp: parse_request_line_def)
next
  case (Some u)
  define buf1 where "buf1 = (m_read_buf c)(u := NUL)"
  define url where "url = skip_chars is_ws buf1 (u + 1)"
  note w1 = word_cut [OF Some e(1), folded buf1_def, folded url_def]
  note run = run [unfolded parse_request_line_def Some option.case Let_def, folded buf1_def, folded url_def,
      unfolded w1(2)]
  show ?thesis
  proof (cases "method_of (takeWhile nonws (cstr (m_read_buf c) t))")
    case None
    then have "spec_request_line (cstr (m_read_buf c) t) (m_request c) = None"
      by (simp add: spec_request_line_def Let_def)
    with None run w1(6) show ?thesis by auto
  next
    case m: (Some m)
    show ?thesis
    proof (cases "find_char is_ws buf1 url")
      case None
      then have "dropWhile nonws (cstr buf1 url) = []"
        by (simp add: find_char_None nonws_def [abs_def] del: dropWhile_eq_Nil_conv)
      with None run m w1(3,6) show ?thesis
        by (auto simp: spec_request_line_def Let_def simp del: dropWhile_eq_Nil_conv)
    next
      case v: (Some v)
      define buf2 where "buf2 = buf1(v := NUL)"
      define ver where "ver = skip_chars is_ws buf2 (v + 1)"
      define tgt where "tgt = (if strcaseeq (cstr buf2 ver) ''HTTP/1.1'' then spec_target (cstr buf2 url) else None)"
      note w2 = word_cut [OF v w1(5), folded buf2_def, folded ver_def]
      define c2 where "c2 = c\<lparr>m_method := m, m_url := Some url, m_read_buf := buf2, m_version := Some ver\<rparr>"
      have c2: "m_read_buf c2 = buf2" "m_method c2 = m" "m_request c2 = m_request c" by (simp_all add: c2_def)
      have run2: "parse_target url ver c2 = (ret, c')"
        using run m v by (simp add: buf2_def [symmetric] ver_def c2_def)
      have "url + length (cstr buf2 url) \<le> e" using w1(5) w2(2) length_takeWhile_le [of nonws] by simp
      from parse_target_spec [OF run2 w1(4), unfolded c2, folded tgt_def, OF this e(2)]
      have res: "same_outside t e buf2 (m_read_buf c')" "case tgt of None \<Rightarrow> ret = BAD_REQUEST
          | Some x \<Rightarrow> ret = NO_REQUEST \<and> m_check_state c' = CHECK_STATE_HEADER
            \<and> m_request c' = set_target m x (m_request c)"
        by blast+
      have "spec_request_line (cstr (m_read_buf c) t) (m_request c) = map_option (\<lambda>x. set_target m x (m_request c)) tgt"
        using spec_request_line_words [OF w1(1) _ m] w1(3) w2(1,2,3) by (simp add: tgt_def)
      moreover have "same_outside t e buf1 buf2" using w1(4) w2(6) by (auto simp: same_outside_def)
      ultimately show ?thesis using res w1(6) by (cases tgt) (auto intro: same_outside_trans)
    qed
  qed
qed


section \<open>Reference header line\<close>

text \<open>The parser's state between lines, without its buffer.\<close>

record pstate =
  p_state :: check_state
  p_req :: http_request
  p_len :: int
  p_linger :: bool

definition pstate_of :: "http_conn \<Rightarrow> pstate" where
  "pstate_of c = \<lparr>p_state = m_check_state c, p_req = m_request c, p_len = m_content_length c,
                  p_linger = m_linger c\<rparr>"

lemma pstate_of_simps [simp]:
  "p_state (pstate_of c) = m_check_state c" "p_req (pstate_of c) = m_request c"
  "p_len (pstate_of c) = m_content_length c" "p_linger (pstate_of c) = m_linger c"
  by (simp_all add: pstate_of_def)

definition put_header :: "string \<Rightarrow> string \<Rightarrow> pstate \<Rightarrow> pstate" where
  "put_header k v p = p\<lparr>p_req := (p_req p)\<lparr>req_headers := (req_headers (p_req p))(k \<mapsto> v)\<rparr>\<rparr>"

text \<open>One header line; \<open>pos\<close> is the number of bytes consumed so far, the line included.  The value is
  what follows the colon with leading blanks removed.\<close>

definition header_value :: "nat \<Rightarrow> string \<Rightarrow> string" where
  "header_value n l = dropWhile is_ws (drop n l)"

definition spec_header :: "nat \<Rightarrow> string \<Rightarrow> pstate \<Rightarrow> http_code \<times> pstate" where
  "spec_header pos l p =
     (if l = [] then
        if p_len p = 0 then (GET_REQUEST, p)
        else if p_len p < 0 \<or> int pos + p_len p \<ge> int READ_BUFFER_SIZE then (REQUEST_ENTITY_TOO_LARGE, p)
        else (NO_REQUEST, p\<lparr>p_state := CHECK_STATE_CONTENT\<rparr>)
      else if strncaseeq l ''Connection:'' then
        (let v = header_value 11 l
         in (NO_REQUEST, put_header ''Connection'' v
               (p\<lparr>p_linger := (if strcaseeq v ''keep-alive'' then True
                               else if strcaseeq v ''close'' then False else p_linger p)\<rparr>)))
      else if strncaseeq l ''Content-length:'' then
        (let v = header_value 15 l
         in case parse_content_length v of
              None \<Rightarrow> (BAD_REQUEST, p)
            | Some n \<Rightarrow> if n \<ge> int READ_BUFFER_SIZE then (REQUEST_ENTITY_TOO_LARGE, p)
                        else (NO_REQUEST, put_header ''Content-Length'' v (p\<lparr>p_len := n\<rparr>)))
      else if is_unsupported_body_encoding_header l then (BAD_REQUEST, p)
      else if strncaseeq l ''Host:'' then (NO_REQUEST, put_header ''Host'' (header_value 5 l) p)
      else if CHR '':'' \<in> set l then
        (let k = takeWhile (\<lambda>c. c \<noteq> CHR '':'') l
         in (NO_REQUEST, put_header k (header_value (Suc (length k)) l) p))
      else (NO_REQUEST, p))"

lemma header_value_cstr:
  "n \<le> length (cstr buf t) \<Longrightarrow> cstr buf (skip_chars is_ws buf (t + n)) = header_value n (cstr buf t)"
  by (simp add: header_value_def cstr_skip cstr_drop)

lemma pstate_of_set_request_header:
  "pstate_of (set_request_header k v c) = put_header k v (pstate_of c)"
  by (simp add: pstate_of_def set_request_header_def put_header_def)

lemma cstr_Nil: "t < READ_BUFFER_SIZE \<Longrightarrow> cstr buf t = [] \<longleftrightarrow> buf t = NUL"
  by (subst cstr.simps) auto

lemma colon_key:
  assumes "find_char (\<lambda>ch. ch = CHR '':'') buf t = Some j"
  defines "l \<equiv> cstr buf t"
  defines "k \<equiv> takeWhile (\<lambda>c. c \<noteq> CHR '':'') l"
  shows "CHR '':'' \<in> set l" "mem_load buf t (j - t) = k"
    "cstr buf (skip_chars is_ws buf (j + 1)) = header_value (Suc (length k)) l"
proof -
  note q = find_char_Some [OF assms(1), folded l_def]
  from q(4) show "CHR '':'' \<in> set l" by (auto simp: dropWhile_eq_Nil_conv)
  have len: "length k < length l" using q(1,3) by (simp add: k_def)
  with q(1) show "mem_load buf t (j - t) = k"
    using mem_load_cstr [of "length k" buf t] by (simp add: k_def l_def takeWhile_eq_take [symmetric])
  show "cstr buf (skip_chars is_ws buf (j + 1)) = header_value (Suc (length k)) l"
    using header_value_cstr [of "Suc (length k)" buf t] len q(1) by (simp add: l_def k_def)
qed

text \<open>A header line that is neither \<open>Connection\<close> nor \<open>Content-length\<close>.\<close>

lemma parse_headers_rest:
  assumes run: "parse_headers t c = (ret, c')" "t < READ_BUFFER_SIZE"
  defines "l \<equiv> cstr (m_read_buf c) t"
  assumes rest: "l \<noteq> []" "\<not> strncaseeq l ''Connection:''" "\<not> strncaseeq l ''Content-length:''"
  shows "(ret, pstate_of c') = spec_header (m_checked_idx c) l (pstate_of c)"
proof -
  let ?buf = "m_read_buf c"
  note simps = parse_headers_def Let_def spec_header_def cstr_Nil pstate_of_set_request_header l_def
    and rest = rest [unfolded l_def]
  consider (enc) "is_unsupported_body_encoding_header l"
  | (host) "\<not> is_unsupported_body_encoding_header l" "strncaseeq l ''Host:''"
  | (plain) "\<not> is_unsupported_body_encoding_header l" "\<not> strncaseeq l ''Host:''"
      "find_char (\<lambda>ch. ch = CHR '':'') ?buf t = None"
  | (field) j where "\<not> is_unsupported_body_encoding_header l" "\<not> strncaseeq l ''Host:''"
      "find_char (\<lambda>ch. ch = CHR '':'') ?buf t = Some j"
    by (meson not_Some_eq)
  then show ?thesis
  proof cases
    case enc
    with run rest show ?thesis by (auto simp: simps)
  next
    case host
    with run rest strncaseeq_length [of "cstr ?buf t" "''Host:''"] header_value_cstr [of 5 ?buf t] show ?thesis
      by (auto simp: simps) (simp_all add: pstate_of_def)
  next
    case plain
    then have "CHR '':'' \<notin> set (cstr ?buf t)" by (auto simp: find_char_None)
    with plain run rest show ?thesis by (auto simp: simps)
  next
    case (field j)
    with colon_key [OF field(3), simplified] run rest show ?thesis by (auto simp: simps)
  qed
qed

lemma parse_headers_spec:
  assumes "parse_headers t c = (ret, c')" "t < READ_BUFFER_SIZE"
  shows "(ret, pstate_of c') = spec_header (m_checked_idx c) (cstr (m_read_buf c) t) (pstate_of c)"
proof -
  let ?buf = "m_read_buf c" and ?l = "cstr (m_read_buf c) t"
  note len = strncaseeq_length [of ?l]
  consider (empty) "?l = []"
  | (connection) "?l \<noteq> []" "strncaseeq ?l ''Connection:''"
  | (length) "?l \<noteq> []" "\<not> strncaseeq ?l ''Connection:''" "strncaseeq ?l ''Content-length:''"
  | (rest) "?l \<noteq> []" "\<not> strncaseeq ?l ''Connection:''" "\<not> strncaseeq ?l ''Content-length:''"
    by blast
  then show ?thesis
  proof cases
    case empty
    with assms show ?thesis
      by (auto simp: parse_headers_def Let_def spec_header_def cstr_Nil pstate_of_def split: if_splits)
  next
    case connection
    with assms len [of "''Connection:''"] header_value_cstr [of 11 ?buf t] show ?thesis
      by (auto simp: parse_headers_def Let_def spec_header_def cstr_Nil pstate_of_set_request_header)
        (simp_all add: pstate_of_def)
  next
    case length
    with assms len [of "''Content-length:''"] header_value_cstr [of 15 ?buf t] show ?thesis
      by (auto simp: parse_headers_def Let_def spec_header_def cstr_Nil pstate_of_set_request_header
          split: option.splits if_splits)
        (simp_all add: pstate_of_def)
  next
    case rest
    with assms show ?thesis by (intro parse_headers_rest)
  qed
qed


section \<open>Reference line splitting\<close>

definition eol :: "char \<Rightarrow> bool" where
  "eol c \<longleftrightarrow> c = CR \<or> c = LF"

lemma eol_CR_LF [simp]: "eol CR" "eol LF"
  by (simp_all add: eol_def)

datatype line_result = Line string string | LineBad | LineOpen

definition next_line :: "string \<Rightarrow> line_result" where
  "next_line s =
     (case dropWhile (\<lambda>c. \<not> eol c) s of
        [] \<Rightarrow> LineOpen
      | [c] \<Rightarrow> if c = CR then LineOpen else LineBad
      | c # d # r \<Rightarrow> if c = CR \<and> d = LF then Line (takeWhile (\<lambda>c. \<not> eol c) s) r else LineBad)"

lemma next_line_append:
  assumes "list_all (\<lambda>c. \<not> eol c) l"
  shows "next_line l = LineOpen"
    "next_line (l @ [CR]) = LineOpen"
    "next_line (l @ CR # LF # r) = Line l r"
    "c \<noteq> LF \<Longrightarrow> next_line (l @ CR # c # r) = LineBad"
    "next_line (l @ LF # r) = LineBad"
proof -
  have dw: "dropWhile (\<lambda>c. \<not> eol c) (l @ s) = dropWhile (\<lambda>c. \<not> eol c) s"
    and tw: "takeWhile (\<lambda>c. \<not> eol c) (l @ s) = l @ takeWhile (\<lambda>c. \<not> eol c) s" for s
    using assms by (simp_all add: list_all_iff dropWhile_append2 takeWhile_append2)
  from dw [of "[]"] show "next_line l = LineOpen"
    unfolding next_line_def by (simp del: dropWhile_eq_Nil_conv)
  show "next_line (l @ [CR]) = LineOpen" "next_line (l @ CR # LF # r) = Line l r"
    "c \<noteq> LF \<Longrightarrow> next_line (l @ CR # c # r) = LineBad" "next_line (l @ LF # r) = LineBad"
    by (simp_all add: next_line_def dw tw split: list.splits)
qed

text \<open>The bytes not yet consumed, and what holds between two lines: the bytes already looked at hold no
  line end, and the byte before the line is not a carriage return.\<close>

definition input :: "http_conn \<Rightarrow> string" where
  "input c = mem_load (m_read_buf c) (m_start_line c) (m_read_idx c - m_start_line c)"

definition cursors_ok :: "http_conn \<Rightarrow> bool" where
  "cursors_ok c \<longleftrightarrow> m_start_line c \<le> m_checked_idx c \<and> m_checked_idx c \<le> m_read_idx c
     \<and> m_read_idx c \<le> READ_BUFFER_SIZE"

definition clean :: "http_conn \<Rightarrow> bool" where
  "clean c \<longleftrightarrow> cursors_ok c
     \<and> (\<forall>k. m_start_line c \<le> k \<and> k < m_checked_idx c \<longrightarrow> \<not> eol (m_read_buf c k))
     \<and> (m_start_line c = 0 \<or> m_read_buf c (m_start_line c - 1) = NUL)"

lemma mem_load_split:
  assumes "i \<le> j" "j < k"
  shows "mem_load buf i (k - i) = mem_load buf i (j - i) @ buf j # mem_load buf (Suc j) (k - Suc j)"
proof -
  have "[i..<k] = [i..<j] @ j # [Suc j..<k]"
    using assms upt_add_eq_append [of i j "k - j"] by (simp add: upt_conv_Cons)
  with assms show ?thesis by (simp add: mem_load_def)
qed

lemma length_mem_load [simp]: "length (mem_load buf i n) = n"
  by (simp add: mem_load_def)

lemma mem_load_drop: "n \<le> k - i \<Longrightarrow> drop n (mem_load buf i (k - i)) = mem_load buf (i + n) (k - (i + n))"
  by (simp add: mem_load_def drop_map) (cases "i \<le> k"; simp)

lemma mem_load_cong: "(\<And>k. i \<le> k \<Longrightarrow> k < i + n \<Longrightarrow> buf k = buf' k) \<Longrightarrow> mem_load buf i n = mem_load buf' i n"
  by (simp add: mem_load_def)

lemma mem_load_no_eol:
  "(\<And>k. i \<le> k \<Longrightarrow> k < i + n \<Longrightarrow> \<not> eol (buf k)) \<Longrightarrow> list_all (\<lambda>c. \<not> eol c) (mem_load buf i n)"
  by (auto simp: mem_load_def list_all_iff)

text \<open>What a clean connection has at its cursor: the bytes of the line already looked at, and the next one.\<close>

lemma clean_cursor:
  assumes "clean c"
  defines "pre \<equiv> mem_load (m_read_buf c) (m_start_line c) (m_checked_idx c - m_start_line c)"
  shows "list_all (\<lambda>c. \<not> eol c) pre"
    "m_checked_idx c > 1 \<Longrightarrow> m_read_buf c (m_checked_idx c - 1) \<noteq> CR"
    "m_checked_idx c = m_read_idx c \<Longrightarrow> input c = pre"
    "m_checked_idx c < m_read_idx c \<Longrightarrow> input c = pre @ m_read_buf c (m_checked_idx c)
       # mem_load (m_read_buf c) (Suc (m_checked_idx c)) (m_read_idx c - Suc (m_checked_idx c))"
    "m_start_line c + length pre = m_checked_idx c" "m_checked_idx c \<le> m_read_idx c"
proof -
  let ?i = "m_checked_idx c" and ?s = "m_start_line c" and ?buf = "m_read_buf c"
  from assms(1) have ord: "?s \<le> ?i" "?i \<le> m_read_idx c" and scanned: "\<And>k. ?s \<le> k \<Longrightarrow> k < ?i \<Longrightarrow> \<not> eol (?buf k)"
    and before: "?s = 0 \<or> ?buf (?s - 1) = NUL"
    by (auto simp: clean_def cursors_ok_def)
  show "list_all (\<lambda>c. \<not> eol c) pre" unfolding pre_def using ord scanned by (intro mem_load_no_eol) auto
  show "?buf (?i - 1) \<noteq> CR" if "?i > 1"
    using that scanned [of "?i - 1"] before ord by (cases "?s = ?i") (auto simp: eol_def)
  show "input c = pre" if "?i = m_read_idx c" using that by (simp add: input_def pre_def)
  show "input c = pre @ ?buf ?i # mem_load ?buf (Suc ?i) (m_read_idx c - Suc ?i)" if "?i < m_read_idx c"
    unfolding input_def pre_def using that ord by (intro mem_load_split) auto
  show "?s + length pre = ?i" "?i \<le> m_read_idx c" using ord by (simp_all add: pre_def)
qed

text \<open>\<open>parse_line\<close> finds the line that \<open>next_line\<close> names: what it promises for each of the three cases.\<close>

definition line_found :: "http_conn \<Rightarrow> line_status \<Rightarrow> http_conn \<Rightarrow> bool" where
  "line_found c ls c' \<longleftrightarrow> (case next_line (input c) of
      Line l r \<Rightarrow> ls = LINE_OK \<and> m_checked_idx c' = m_start_line c + length l + 2
        \<and> m_checked_idx c' \<le> m_read_idx c
        \<and> m_read_buf c' = (m_read_buf c)(m_start_line c + length l := NUL, m_start_line c + length l + 1 := NUL)
        \<and> mem_load (m_read_buf c) (m_start_line c) (length l) = l
        \<and> mem_load (m_read_buf c) (m_checked_idx c') (m_read_idx c - m_checked_idx c') = r
    | LineBad \<Rightarrow> ls = LINE_BAD \<and> m_read_buf c' = m_read_buf c
        \<and> m_checked_idx c' = m_start_line c + length (takeWhile (\<lambda>c. \<not> eol c) (input c))
    | LineOpen \<Rightarrow> ls = LINE_OPEN \<and> m_read_buf c' = m_read_buf c \<and> clean c')"

lemma parse_line_at_CR:
  assumes "clean c" "parse_line c = (ls, c')" "m_checked_idx c < m_read_idx c" "m_read_buf c (m_checked_idx c) = CR"
  shows "line_found c ls c'"
proof -
  let ?i = "m_checked_idx c" and ?s = "m_start_line c" and ?n = "m_read_idx c" and ?buf = "m_read_buf c"
  let ?pre = "mem_load ?buf ?s (?i - ?s)"
  note cl = clean_cursor [OF assms(1)]
  note inp = cl(4) [OF assms(3), unfolded assms(4)]
  consider (last) "Suc ?i = ?n" | (lf) "Suc ?i < ?n" "?buf (Suc ?i) = LF" | (bad) "Suc ?i < ?n" "?buf (Suc ?i) \<noteq> LF"
    using assms(3) by fastforce
  then show ?thesis
  proof cases
    case last
    then have "input c = ?pre @ [CR]" by (simp add: inp mem_load_def)
    with last assms cl(1) show ?thesis
      by (subst (asm) parse_line.simps) (auto simp: line_found_def Let_def next_line_append)
  next
    case lf
    then have "mem_load ?buf (Suc ?i) (?n - Suc ?i) = LF # mem_load ?buf (?i + 2) (?n - (?i + 2))"
      using mem_load_split [of "Suc ?i" "Suc ?i" ?n ?buf] by (simp add: mem_load_def)
    with inp cl(1) have "next_line (input c) = Line ?pre (mem_load ?buf (?i + 2) (?n - (?i + 2)))"
      by (simp add: next_line_append)
    with lf assms(2-4) cl(5) show ?thesis
      by (subst (asm) parse_line.simps) (auto simp: line_found_def Let_def)
  next
    case bad
    then have "mem_load ?buf (Suc ?i) (?n - Suc ?i) = ?buf (Suc ?i) # mem_load ?buf (?i + 2) (?n - (?i + 2))"
      using mem_load_split [of "Suc ?i" "Suc ?i" ?n ?buf] by (simp add: mem_load_def)
    with inp bad cl(1) have "next_line (input c) = LineBad" by (simp add: next_line_append)
    moreover have "takeWhile (\<lambda>c. \<not> eol c) (input c) = ?pre"
      using cl(1) by (simp add: inp takeWhile_tail list_all_iff eol_def)
    ultimately show ?thesis using bad assms(2-4) cl(5)
      by (subst (asm) parse_line.simps) (auto simp: line_found_def Let_def)
  qed
qed

lemma parse_line_spec:
  assumes "clean c" "parse_line c = (ls, c')"
  shows "line_found c ls c'"
  using assms
proof (induction c arbitrary: ls c' rule: parse_line.induct)
  case (1 c)
  let ?i = "m_checked_idx c" and ?buf = "m_read_buf c"
  note cl = clean_cursor [OF 1(2)]
  consider (all) "?i = m_read_idx c" | (cr) "?i < m_read_idx c" "?buf ?i = CR" | (lf) "?i < m_read_idx c" "?buf ?i = LF"
    | (other) "?i < m_read_idx c" "\<not> eol (?buf ?i)"
    using cl(6) by (fastforce simp: eol_def)
  then show ?case
  proof cases
    case all
    with 1(2,3) cl(1,3) show ?thesis
      by (subst (asm) parse_line.simps) (auto simp: line_found_def next_line_append)
  next
    case cr
    with 1(2,3) show ?thesis by (intro parse_line_at_CR)
  next
    case lf
    note inp = cl(4) [OF lf(1)]
    have "takeWhile (\<lambda>c. \<not> eol c) (input c) = mem_load ?buf (m_start_line c) (?i - m_start_line c)"
      using cl(1) lf by (simp add: inp takeWhile_tail list_all_iff eol_def)
    moreover have "parse_line c = (LINE_BAD, c)"
      using lf cl(2) by (subst parse_line.simps) (auto simp: Let_def)
    ultimately show ?thesis using 1(3) lf cl(1,5) inp by (simp add: line_found_def next_line_append)
  next
    case other
    let ?c1 = "c\<lparr>m_checked_idx := ?i + 1\<rparr>"
    have "clean ?c1" using 1(2) other by (auto simp: clean_def cursors_ok_def less_Suc_eq)
    moreover have "parse_line ?c1 = (ls, c')"
      using 1(3) other by (subst (asm) parse_line.simps) (auto simp: Let_def eol_def)
    ultimately have "line_found ?c1 ls c'" using 1(1) [OF refl refl other(1)] other(2) by (simp add: eol_def)
    moreover have "input ?c1 = input c" by (simp add: input_def)
    ultimately show ?thesis by (cases "next_line (input c)") (simp_all add: line_found_def)
  qed
qed


section \<open>Reference parser\<close>

text \<open>\<open>Done code p pos rest\<close>: the read is finished with \<open>code\<close> after \<open>pos\<close> bytes; \<open>WaitLine\<close> and
  \<open>WaitBody\<close>: more bytes are needed, of which \<open>rest\<close> have arrived.\<close>

datatype outcome =
    Done http_code pstate nat string
  | WaitLine pstate nat string
  | WaitBody pstate nat string

definition text_of :: "string \<Rightarrow> string" where
  "text_of l = takeWhile (\<lambda>c. c \<noteq> NUL) l"

definition set_req_body :: "string \<Rightarrow> pstate \<Rightarrow> pstate" where
  "set_req_body b p = p\<lparr>p_req := (p_req p)\<lparr>req_body := b\<rparr>\<rparr>"

lemma next_line_shorter: "next_line s = Line l r \<Longrightarrow> length s = length l + 2 + length r"
  using length_takeWhile_dropWhile [of "\<lambda>c. \<not> eol c" s]
  by (auto simp: next_line_def split: list.splits if_splits)

function spec_run :: "nat \<Rightarrow> pstate \<Rightarrow> string \<Rightarrow> outcome" where
  "spec_run pos p s =
     (if p_state p = CHECK_STATE_CONTENT then
        if int (length s) \<ge> p_len p
        then Done GET_REQUEST (set_req_body (take (nat (p_len p)) s) p) (pos + nat (p_len p)) (drop (nat (p_len p)) s)
        else WaitBody p pos s
      else case next_line s of
             LineOpen \<Rightarrow> WaitLine p pos s
           | LineBad \<Rightarrow> Done BAD_REQUEST p (pos + length (takeWhile (\<lambda>c. \<not> eol c) s)) (dropWhile (\<lambda>c. \<not> eol c) s)
           | Line l r \<Rightarrow>
               (let pos' = pos + length l + 2
                in if p_state p = CHECK_STATE_REQUESTLINE then
                     (case spec_request_line (text_of l) (p_req p) of
                        None \<Rightarrow> Done BAD_REQUEST p pos' r
                      | Some req \<Rightarrow> spec_run pos' (p\<lparr>p_state := CHECK_STATE_HEADER, p_req := req\<rparr>) r)
                   else (case spec_header pos' (text_of l) p of
                           (code, p') \<Rightarrow> if code = NO_REQUEST then spec_run pos' p' r
                                         else Done code p' pos' r)))"
  by pat_completeness auto
termination
  by (relation "measure (\<lambda>(pos, p, s). length s)") (auto dest!: next_line_shorter)

declare spec_run.simps [simp del]

lemma spec_run_content:
  "p_state p = CHECK_STATE_CONTENT \<Longrightarrow> spec_run pos p s =
     (if int (length s) \<ge> p_len p
      then Done GET_REQUEST (set_req_body (take (nat (p_len p)) s) p) (pos + nat (p_len p)) (drop (nat (p_len p)) s)
      else WaitBody p pos s)"
  by (subst spec_run.simps) simp

lemma spec_run_open:
  "p_state p \<noteq> CHECK_STATE_CONTENT \<Longrightarrow> next_line s = LineOpen \<Longrightarrow> spec_run pos p s = WaitLine p pos s"
  by (subst spec_run.simps) simp

lemma spec_run_bad:
  "p_state p \<noteq> CHECK_STATE_CONTENT \<Longrightarrow> next_line s = LineBad \<Longrightarrow> spec_run pos p s =
     Done BAD_REQUEST p (pos + length (takeWhile (\<lambda>c. \<not> eol c) s)) (dropWhile (\<lambda>c. \<not> eol c) s)"
  by (subst spec_run.simps) simp

lemma spec_run_request_line:
  "p_state p = CHECK_STATE_REQUESTLINE \<Longrightarrow> next_line s = Line l r \<Longrightarrow> spec_run pos p s =
     (case spec_request_line (text_of l) (p_req p) of
        None \<Rightarrow> Done BAD_REQUEST p (pos + length l + 2) r
      | Some req \<Rightarrow> spec_run (pos + length l + 2) (p\<lparr>p_state := CHECK_STATE_HEADER, p_req := req\<rparr>) r)"
  by (subst spec_run.simps) (simp split: option.split)

lemma spec_run_header:
  "p_state p = CHECK_STATE_HEADER \<Longrightarrow> next_line s = Line l r \<Longrightarrow>
   spec_header (pos + length l + 2) (text_of l) p = (code, p') \<Longrightarrow> spec_run pos p s =
     (if code = NO_REQUEST then spec_run (pos + length l + 2) p' r else Done code p' (pos + length l + 2) r)"
  by (subst spec_run.simps) simp

text \<open>What the connection shows of an outcome.  When the body is not complete, the rest of the run is the
  run of the loop on a connection at the start of the body.\<close>

definition agrees :: "outcome \<Rightarrow> http_code \<Rightarrow> http_conn \<Rightarrow> bool" where
  "agrees out ret c \<longleftrightarrow>
     (case out of
        Done code p pos rest \<Rightarrow>
          ret = code \<and> pstate_of c = p \<and> m_checked_idx c = pos \<and> pos \<le> m_read_idx c
          \<and> mem_load (m_read_buf c) pos (m_read_idx c - pos) = rest
      | WaitLine p pos rest \<Rightarrow>
          ret = (if m_read_idx c \<ge> READ_BUFFER_SIZE then REQUEST_ENTITY_TOO_LARGE else NO_REQUEST)
          \<and> pstate_of c = p \<and> m_start_line c = pos \<and> input c = rest \<and> clean c
      | WaitBody p pos rest \<Rightarrow>
          (\<exists>c1. clean c1 \<and> pstate_of c1 = p \<and> m_start_line c1 = pos \<and> m_checked_idx c1 = pos \<and> input c1 = rest
             \<and> process_read_loop LINE_OK c1 = (ret, c)))"

lemma parse_request_line_bad:
  "parse_request_line t c = (BAD_REQUEST, c') \<Longrightarrow>
     m_request c' = m_request c \<and> m_check_state c' = m_check_state c"
  by (auto simp: parse_request_line_def parse_target_def finish_request_line_def Let_def
      split: option.splits if_splits)

text \<open>One turn of the loop on a complete line: \<open>c1\<close> is the connection after \<open>parse_line\<close>.\<close>

lemma line_taken:
  assumes "clean c" "parse_line c = (LINE_OK, c1)" "next_line (input c) = Line l r"
  shows "cstr (m_read_buf c1) (m_start_line c1) = text_of l"
    "m_start_line c1 + length (text_of l) < m_checked_idx c1" "m_start_line c1 = m_start_line c"
    "m_checked_idx c1 = m_start_line c + length l + 2" "m_checked_idx c1 \<le> m_read_idx c1"
    "m_read_idx c1 = m_read_idx c" "m_read_idx c \<le> READ_BUFFER_SIZE"
    "mem_load (m_read_buf c1) (m_checked_idx c1) (m_read_idx c1 - m_checked_idx c1) = r"
    "m_read_buf c1 (m_checked_idx c1 - 1) = NUL" "pstate_of c1 = pstate_of c"
proof -
  note sp = parse_line_spec [OF assms(1,2), unfolded line_found_def assms(3), simplified]
  note cur = parse_line_cursor [OF assms(2)]
  let ?s = "m_start_line c"
  from cur show st: "m_start_line c1 = m_start_line c" and rd: "m_read_idx c1 = m_read_idx c"
    and "pstate_of c1 = pstate_of c"
    by (simp_all add: pstate_of_def)
  from assms(1) show lim: "m_read_idx c \<le> READ_BUFFER_SIZE" by (simp add: clean_def cursors_ok_def)
  from sp cur show ch: "m_checked_idx c1 = ?s + length l + 2" and "m_checked_idx c1 \<le> m_read_idx c1" by simp_all
  have "mem_load (m_read_buf c1) ?s (length l) = mem_load (m_read_buf c) ?s (length l)"
    using sp by (intro mem_load_cong) auto
  also have "\<dots> = l" using sp by simp
  finally have ld: "mem_load (m_read_buf c1) ?s (length l) = l" .
  have "m_read_buf c1 (?s + length l) = NUL" using sp by simp
  with cstr_takeWhile [of "m_read_buf c1" ?s "length l"] ld ch sp lim show "cstr (m_read_buf c1) (m_start_line c1) = text_of l"
    by (simp add: st text_of_def)
  show "m_start_line c1 + length (text_of l) < m_checked_idx c1"
    using ch st length_takeWhile_le [of "\<lambda>c. c \<noteq> NUL" l] by (simp add: text_of_def)
  show "m_read_buf c1 (m_checked_idx c1 - 1) = NUL" using sp by simp
  have "mem_load (m_read_buf c1) (m_checked_idx c1) (m_read_idx c1 - m_checked_idx c1)
      = mem_load (m_read_buf c) (m_checked_idx c1) (m_read_idx c - m_checked_idx c1)"
    unfolding rd using sp by (intro mem_load_cong) auto
  moreover have "mem_load (m_read_buf c) (m_checked_idx c1) (m_read_idx c - m_checked_idx c1) = r"
    using sp by blast
  ultimately show "mem_load (m_read_buf c1) (m_checked_idx c1) (m_read_idx c1 - m_checked_idx c1) = r"
    by (rule trans)
qed


lemma spec_header_len: "spec_header pos l p = (code, p') \<Longrightarrow> 0 \<le> p_len p \<Longrightarrow> 0 \<le> p_len p'"
  by (auto simp: spec_header_def put_header_def Let_def dest: parse_content_length_nonneg
      split: if_splits option.splits)

text \<open>After a line has been dealt with, the connection is clean again and its input is the rest.\<close>

lemma next_clean:
  assumes "m_start_line c2 = m_checked_idx c1" "m_checked_idx c2 = m_checked_idx c1"
    "m_read_idx c2 = m_read_idx c1" "m_checked_idx c1 \<le> m_read_idx c1" "m_read_idx c1 \<le> READ_BUFFER_SIZE"
    "m_read_buf c1 (m_checked_idx c1 - 1) = NUL" "same_outside t e (m_read_buf c1) (m_read_buf c2)"
    "e \<le> m_checked_idx c1 - 1"
  shows "clean c2" "input c2 = mem_load (m_read_buf c1) (m_checked_idx c1) (m_read_idx c1 - m_checked_idx c1)"
  using assms by (auto simp: clean_def cursors_ok_def input_def same_outside_def intro: mem_load_cong)

lemma request_line_turn:
  assumes "clean c" "parse_line c = (LINE_OK, c1)" "next_line (input c) = Line l r"
    "m_check_state c = CHECK_STATE_REQUESTLINE" "process_line c1 = (fl, c2)"
  shows "case spec_request_line (text_of l) (m_request c) of
      None \<Rightarrow> fl = Return BAD_REQUEST \<and> pstate_of c2 = pstate_of c
        \<and> m_checked_idx c2 = m_start_line c + length l + 2 \<and> m_checked_idx c2 \<le> m_read_idx c2
        \<and> mem_load (m_read_buf c2) (m_checked_idx c2) (m_read_idx c2 - m_checked_idx c2) = r
    | Some req \<Rightarrow> fl = Continue LINE_OK \<and> clean c2 \<and> input c2 = r
        \<and> m_start_line c2 = m_start_line c + length l + 2 \<and> m_checked_idx c2 = m_start_line c2
        \<and> pstate_of c2 = (pstate_of c)\<lparr>p_state := CHECK_STATE_HEADER, p_req := req\<rparr>"
proof -
  note lt = line_taken [OF assms(1-3)]
  let ?c1 = "c1\<lparr>m_start_line := m_checked_idx c1\<rparr>" and ?t = "m_start_line c1"
  obtain ret where run: "parse_request_line ?t ?c1 = (ret, c2)"
    and fl: "fl = (if ret = BAD_REQUEST then Return BAD_REQUEST else Continue LINE_OK)"
    using assms(4,5) parse_line_cursor [OF assms(2)]
    by (auto simp: process_line_def Let_def split: prod.splits if_splits)
  from lt(1,2,5,6,7) have sp: "same_outside ?t (?t + length (text_of l)) (m_read_buf c1) (m_read_buf c2) \<and>
    (case spec_request_line (text_of l) (m_request c1) of
       None \<Rightarrow> ret = BAD_REQUEST
     | Some req \<Rightarrow> ret = NO_REQUEST \<and> m_check_state c2 = CHECK_STATE_HEADER \<and> m_request c2 = req)"
    using parse_request_line_spec [OF run refl] by simp
  note cur = parse_request_line_cursor [OF run, simplified]
  have nc: "clean c2" "input c2 = r" "m_start_line c2 = m_checked_idx c1"
    using next_clean [of c2 c1 ?t "?t + length (text_of l)"] cur lt sp by auto
  have req: "m_request c1 = m_request c" "m_check_state c1 = m_check_state c"
    using arg_cong [OF lt(10), of p_req] arg_cong [OF lt(10), of p_state] by simp_all
  show ?thesis
  proof (cases "spec_request_line (text_of l) (m_request c)")
    case None
    with sp req have "ret = BAD_REQUEST" by simp
    with None fl nc cur lt parse_request_line_bad [of ?t ?c1 c2] run show ?thesis
      by (auto simp: input_def pstate_of_def)
  next
    case (Some rq)
    with sp req have "ret = NO_REQUEST" "m_check_state c2 = CHECK_STATE_HEADER" "m_request c2 = rq" by simp_all
    with Some fl nc cur lt show ?thesis by (auto simp: pstate_of_def)
  qed
qed

lemma header_turn:
  assumes "clean c" "parse_line c = (LINE_OK, c1)" "next_line (input c) = Line l r"
    "m_check_state c = CHECK_STATE_HEADER" "process_line c1 = (fl, c2)"
    "spec_header (m_start_line c + length l + 2) (text_of l) (pstate_of c) = (code, p)"
  shows "pstate_of c2 = p \<and> clean c2 \<and> input c2 = r
    \<and> m_start_line c2 = m_start_line c + length l + 2 \<and> m_checked_idx c2 = m_start_line c2
    \<and> fl = (if code = NO_REQUEST then Continue LINE_OK else Return code)"
proof -
  note lt = line_taken [OF assms(1-3)]
  let ?c1 = "c1\<lparr>m_start_line := m_checked_idx c1\<rparr>" and ?t = "m_start_line c1"
  have st: "m_check_state c1 = CHECK_STATE_HEADER"
    using arg_cong [OF lt(10), of p_state] assms(4) by simp
  obtain ret where run: "parse_headers ?t ?c1 = (ret, c2)" by (cases "parse_headers ?t ?c1") (use assms(5) st in
    \<open>auto simp: process_line_def Let_def split: if_splits\<close>)
  have "pstate_of ?c1 = pstate_of c" using lt(10) by (simp add: pstate_of_def)
  moreover have "?t < READ_BUFFER_SIZE" using lt(2,5,6,7) by simp
  ultimately have sp: "(ret, pstate_of c2) = (code, p)"
    using parse_headers_spec [OF run] assms(6) lt(1,4) by simp
  note cur = parse_headers_cursor [OF run, simplified]
  have "clean c2" "input c2 = r"
    using next_clean [of c2 c1 ?t "?t + length (text_of l)"] cur lt by auto
  moreover have "fl = (if code = NO_REQUEST then Continue LINE_OK else Return code)"
    using assms(5) st run sp cur by (auto simp: process_line_def Let_def split: if_splits)
  ultimately show ?thesis using cur lt sp by simp
qed


lemma content_turn:
  assumes "m_check_state c = CHECK_STATE_CONTENT" "m_checked_idx c = m_start_line c" "0 \<le> m_content_length c"
    "cursors_ok c" "process_line c = (fl, c')"
    "m_content_length c \<le> int (length (input c))"
  shows "fl = Return GET_REQUEST \<and> pstate_of c' = set_req_body (take (nat (m_content_length c)) (input c)) (pstate_of c)
    \<and> m_checked_idx c' = m_start_line c + nat (m_content_length c) \<and> m_checked_idx c' \<le> m_read_idx c'
    \<and> mem_load (m_read_buf c') (m_checked_idx c') (m_read_idx c' - m_checked_idx c')
      = drop (nat (m_content_length c)) (input c)"
proof -
  let ?n = "nat (m_content_length c)" and ?s = "m_start_line c"
  have fits: "?s + ?n \<le> m_read_idx c" using assms(3,4,6) by (simp add: input_def cursors_ok_def)
  have "fl = Return GET_REQUEST" and c': "c' = c\<lparr>m_start_line := ?s,
      m_request := (m_request c)\<lparr>req_body := mem_load (m_read_buf c) ?s ?n\<rparr>, m_checked_idx := ?s + ?n\<rparr>"
    using assms(1-3,5) fits by (auto simp: process_line_def parse_content_def Let_def split: if_splits)
  moreover have "take ?n (input c) = mem_load (m_read_buf c) ?s ?n"
    and "drop ?n (input c) = mem_load (m_read_buf c) (?s + ?n) (m_read_idx c - (?s + ?n))"
    using fits by (auto simp: input_def mem_load_def take_map drop_map)
  ultimately show ?thesis using fits by (simp add: pstate_of_def set_req_body_def)
qed

text \<open>The loop from a connection in the body, and from one whose next line is not complete or malformed.\<close>

lemma read_loop_content:
  assumes "clean c" "0 \<le> m_content_length c" "m_check_state c = CHECK_STATE_CONTENT" "m_checked_idx c = m_start_line c"
    "process_read_loop LINE_OK c = (ret, c')"
  shows "agrees (spec_run (m_start_line c) (pstate_of c) (input c)) ret c'"
proof (cases "m_content_length c \<le> int (length (input c))")
  case True
  let ?n = "nat (m_content_length c)"
  obtain fl c2 where pl: "process_line c = (fl, c2)" by (cases "process_line c")
  have cur: "cursors_ok c" using assms(1) by (simp add: clean_def)
  from content_turn [OF assms(3,4,2) cur pl True]
  have t: "fl = Return GET_REQUEST" and c2: "agrees (Done GET_REQUEST
     (set_req_body (take ?n (input c)) (pstate_of c)) (m_start_line c + ?n) (drop ?n (input c))) GET_REQUEST c2"
    by (auto simp: agrees_def)
  from assms(3,5) pl t have "ret = GET_REQUEST" "c' = c2"
    by (subst (asm) process_read_loop.simps, simp add: next_line_status_def)+
  with c2 True assms(3) show ?thesis by (simp add: spec_run_content)
next
  case False
  with assms show ?thesis by (auto simp: spec_run_content agrees_def)
qed

lemma read_loop_bad_line:
  assumes "clean c" "m_check_state c \<noteq> CHECK_STATE_CONTENT" "parse_line c = (ls, c1)" "next_line (input c) = LineBad"
  shows "ls = LINE_BAD \<and> agrees (spec_run (m_start_line c) (pstate_of c) (input c)) BAD_REQUEST c1"
proof -
  let ?s = "m_start_line c" and ?k = "length (takeWhile (\<lambda>c. \<not> eol c) (input c))"
  note psp = parse_line_spec [OF assms(1,3), unfolded line_found_def] and cur = parse_line_cursor [OF assms(3)]
  have "?k \<le> m_read_idx c - ?s"
    using length_takeWhile_le [of "\<lambda>c. \<not> eol c" "input c"] by (simp add: input_def)
  then have "mem_load (m_read_buf c) (?s + ?k) (m_read_idx c - (?s + ?k)) = dropWhile (\<lambda>c. \<not> eol c) (input c)"
    using mem_load_drop [of ?k "m_read_idx c" ?s "m_read_buf c"] by (simp add: dropWhile_eq_drop input_def)
  moreover have "m_checked_idx c1 \<le> m_read_idx c1"
    using cur assms(1) by (simp add: clean_def cursors_ok_def)
  ultimately show ?thesis using assms psp cur by (auto simp: spec_run_bad agrees_def pstate_of_def)
qed

text \<open>The loop from a connection with a complete line, provided that it agrees on every shorter input.\<close>

lemma read_loop_request_line:
  assumes c: "clean c" "0 \<le> m_content_length c" "m_check_state c = CHECK_STATE_REQUESTLINE"
    and line: "parse_line c = (LINE_OK, c1)" "next_line (input c) = Line l r"
    and run: "(case process_line c1 of (Return ret, c2) \<Rightarrow> (ret, c2)
        | (Continue ls, c2) \<Rightarrow> process_read_loop ls c2) = (ret, c')"
    and IH: "\<And>d. input d = r \<Longrightarrow> clean d \<Longrightarrow> 0 \<le> m_content_length d \<Longrightarrow> m_checked_idx d = m_start_line d \<Longrightarrow>
      process_read_loop LINE_OK d = (ret, c') \<Longrightarrow> agrees (spec_run (m_start_line d) (pstate_of d) (input d)) ret c'"
  shows "agrees (spec_run (m_start_line c) (pstate_of c) (input c)) ret c'"
proof -
  obtain fl c2 where pr: "process_line c1 = (fl, c2)" by (cases "process_line c1")
  note turn = request_line_turn [OF c(1) line c(3) pr]
  show ?thesis
  proof (cases "spec_request_line (text_of l) (m_request c)")
    case None
    with turn run pr c(3) line(2) show ?thesis by (auto simp: spec_run_request_line agrees_def)
  next
    case (Some req)
    from Some turn have t: "fl = Continue LINE_OK" "clean c2" "input c2 = r" "m_checked_idx c2 = m_start_line c2"
      "m_start_line c2 = m_start_line c + length l + 2"
      "pstate_of c2 = (pstate_of c)\<lparr>p_state := CHECK_STATE_HEADER, p_req := req\<rparr>" by simp_all
    have "0 \<le> m_content_length c2" using arg_cong [OF t(6), of p_len] c(2) by simp
    moreover have "process_read_loop LINE_OK c2 = (ret, c')" using run pr t(1) by simp
    ultimately have "agrees (spec_run (m_start_line c2) (pstate_of c2) (input c2)) ret c'"
      by (intro IH) (use t in simp_all)
    with t Some line(2) c(3) show ?thesis by (simp add: spec_run_request_line)
  qed
qed

lemma read_loop_header:
  assumes c: "clean c" "0 \<le> m_content_length c" "m_check_state c = CHECK_STATE_HEADER"
    and line: "parse_line c = (LINE_OK, c1)" "next_line (input c) = Line l r"
    and run: "(case process_line c1 of (Return ret, c2) \<Rightarrow> (ret, c2)
        | (Continue ls, c2) \<Rightarrow> process_read_loop ls c2) = (ret, c')"
    and IH: "\<And>d. input d = r \<Longrightarrow> clean d \<Longrightarrow> 0 \<le> m_content_length d \<Longrightarrow> m_checked_idx d = m_start_line d \<Longrightarrow>
      process_read_loop LINE_OK d = (ret, c') \<Longrightarrow> agrees (spec_run (m_start_line d) (pstate_of d) (input d)) ret c'"
  shows "agrees (spec_run (m_start_line c) (pstate_of c) (input c)) ret c'"
proof -
  obtain fl c2 where pr: "process_line c1 = (fl, c2)" by (cases "process_line c1")
  obtain code p where sh: "spec_header (m_start_line c + length l + 2) (text_of l) (pstate_of c) = (code, p)"
    by (cases "spec_header (m_start_line c + length l + 2) (text_of l) (pstate_of c)")
  note turn = header_turn [OF c(1) line c(3) pr sh]
  show ?thesis
  proof (cases "code = NO_REQUEST")
    case True
    have "0 \<le> m_content_length c2" using spec_header_len [OF sh] c(2) turn by auto
    moreover from True turn run pr have "process_read_loop LINE_OK c2 = (ret, c')" by simp
    ultimately have "agrees (spec_run (m_start_line c2) (pstate_of c2) (input c2)) ret c'"
      by (intro IH) (use turn in simp_all)
    with turn True line(2) c(3) sh show ?thesis by (simp add: spec_run_header)
  next
    case False
    with turn run pr line(2) c(3) sh show ?thesis
      by (auto simp: spec_run_header agrees_def input_def clean_def cursors_ok_def)
  qed
qed

lemma process_read_loop_refines:
  assumes "clean c" "0 \<le> m_content_length c"
    "m_check_state c = CHECK_STATE_CONTENT \<Longrightarrow> m_checked_idx c = m_start_line c"
    "process_read_loop LINE_OK c = (ret, c')"
  shows "agrees (spec_run (m_start_line c) (pstate_of c) (input c)) ret c'"
  using assms
proof (induction "length (input c)" arbitrary: c rule: less_induct)
  case less
  show ?case
  proof (cases "m_check_state c = CHECK_STATE_CONTENT")
    case True
    with less.prems show ?thesis by (intro read_loop_content) auto
  next
    case state: False
    obtain ls c1 where pl: "parse_line c = (ls, c1)" by (cases "parse_line c")
    note psp = parse_line_spec [OF less.prems(1) pl, unfolded line_found_def] and cur = parse_line_cursor [OF pl]
    from less.prems(4) state pl have run: "(case ls of
        LINE_OK \<Rightarrow> (case process_line c1 of (Return ret, c2) \<Rightarrow> (ret, c2) | (Continue ls', c2) \<Rightarrow> process_read_loop ls' c2)
      | LINE_BAD \<Rightarrow> (BAD_REQUEST, c1)
      | LINE_OPEN \<Rightarrow> (if m_read_idx c1 \<ge> READ_BUFFER_SIZE then (REQUEST_ENTITY_TOO_LARGE, c1)
           else (NO_REQUEST, c1))) = (ret, c')"
      by (subst (asm) process_read_loop.simps) (simp add: next_line_status_def)
    show ?thesis
    proof (cases "next_line (input c)")
      case LineOpen
      with psp cur run state show ?thesis
        by (auto simp: spec_run_open agrees_def pstate_of_def input_def split: if_splits)
    next
      case LineBad
      from read_loop_bad_line [OF less.prems(1) state pl this] run show ?thesis by auto
    next
      case (Line l r)
      with psp have ok: "ls = LINE_OK" by simp
      have shorter: "length r < length (input c)" using next_line_shorter [OF Line] by simp
      note turn = read_loop_request_line [OF less.prems(1,2) _ pl [unfolded ok] Line]
        read_loop_header [OF less.prems(1,2) _ pl [unfolded ok] Line]
      show ?thesis using state run less.hyps shorter
        by (cases "m_check_state c") (auto simp: ok intro: turn)
    qed
  qed
qed

end
