(* ===== verification/Http_Session.thy ===== *)
theory Http_Session
  imports Http_Parser
begin

text \<open>
  The connection over time: bytes arriving in pieces, requests in one packet, responses leaving, and
  the slot being closed and reused.  The facts about the parser come from \<open>Http_Parser\<close>.
\<close>

text \<open>A slot that no connection has used yet.\<close>

definition blank :: http_conn where
  "blank = \<lparr>m_sockfd = - 1, m_read_buf = (\<lambda>_. NUL), m_read_idx = 0, m_checked_idx = 0, m_start_line = 0,
     m_write_buf = (\<lambda>_. NUL), m_write_idx = 0, m_check_state = CHECK_STATE_REQUESTLINE, m_method = GET,
     m_request = http_request_new, m_url = None, m_version = None, m_host = None, m_content_length = 0,
     m_linger = True, m_iov_base = 0, m_iov_len = 0, bytes_to_send = 0, bytes_have_send = 0, m_TRIGMode = 0,
     m_generation = 0, m_pending_close = False\<rparr>"

section \<open>Bytes arriving\<close>

lemma store_received_fields [simp]:
  "m_start_line (store_received bs c) = m_start_line c" "m_checked_idx (store_received bs c) = m_checked_idx c"
  "m_check_state (store_received bs c) = m_check_state c" "m_content_length (store_received bs c) = m_content_length c"
  "pstate_of (store_received bs c) = pstate_of c"
  "m_read_idx (store_received bs c) = m_read_idx c + min (length bs) (READ_BUFFER_SIZE - m_read_idx c)"
  by (simp_all add: store_received_def Let_def pstate_of_def)

lemma mem_store_below: "k < off \<Longrightarrow> mem_store buf off s k = buf k"
  by (simp add: mem_store_def)

lemma mem_store_load: "n = length s \<Longrightarrow> mem_load (mem_store buf off s) off n = s"
  by (rule nth_equalityI) (auto simp: mem_load_def mem_store_def)

lemma mem_load_append: "mem_load buf i (n + m) = mem_load buf i n @ mem_load buf (i + n) m"
proof -
  have "[i..<i + (n + m)] = [i..<i + n] @ [i + n..<i + n + m]"
    using upt_add_eq_append [of i "i + n" m] by (simp add: add.assoc)
  then show ?thesis by (simp add: mem_load_def add.assoc)
qed

lemma store_received_input:
  assumes "cursors_ok c" "m_read_idx c + length bs \<le> READ_BUFFER_SIZE"
  shows "input (store_received bs c) = input c @ bs"
proof -
  let ?s = "m_start_line c" and ?n = "m_read_idx c"
  let ?b = "mem_store (m_read_buf c) ?n bs"
  have "take (READ_BUFFER_SIZE - ?n) bs = bs" "?n + length bs - ?s = (?n - ?s) + length bs"
    using assms by (auto simp: cursors_ok_def)
  then have "input (store_received bs c) = mem_load ?b ?s ((?n - ?s) + length bs)"
    by (simp add: input_def store_received_def Let_def)
  also have "\<dots> = mem_load ?b ?s (?n - ?s) @ mem_load ?b ?n (length bs)"
    using assms(1) by (simp only: mem_load_append) (simp add: cursors_ok_def)
  also have "mem_load ?b ?s (?n - ?s) = input c"
    unfolding input_def by (intro mem_load_cong) (auto simp: mem_store_below)
  also have "mem_load ?b ?n (length bs) = bs" by (simp add: mem_store_load)
  finally show ?thesis .
qed

lemma store_received_clean:
  assumes "clean c"
  shows "clean (store_received bs c)"
proof -
  let ?c = "store_received bs c"
  have same: "k < m_read_idx c \<Longrightarrow> m_read_buf ?c k = m_read_buf c k" for k
    by (simp add: store_received_def Let_def mem_store_below)
  have "cursors_ok ?c" using assms by (auto simp: clean_def cursors_ok_def min_def)
  moreover have "m_start_line c = 0 \<or> m_start_line c - 1 < m_read_idx c"
    using assms by (auto simp: clean_def cursors_ok_def)
  ultimately show ?thesis using assms same by (auto simp: clean_def cursors_ok_def)
qed

section \<open>A head arriving in pieces\<close>

lemma eol_found:
  assumes "dropWhile (\<lambda>c. \<not> eol c) s \<noteq> []"
  shows "dropWhile (\<lambda>c. \<not> eol c) (s @ t) = dropWhile (\<lambda>c. \<not> eol c) s @ t"
    "takeWhile (\<lambda>c. \<not> eol c) (s @ t) = takeWhile (\<lambda>c. \<not> eol c) s"
proof -
  from assms obtain x where "x \<in> set s" "eol x" by (auto simp: dropWhile_eq_Nil_conv)
  then show "dropWhile (\<lambda>c. \<not> eol c) (s @ t) = dropWhile (\<lambda>c. \<not> eol c) s @ t"
    "takeWhile (\<lambda>c. \<not> eol c) (s @ t) = takeWhile (\<lambda>c. \<not> eol c) s"
    by (simp_all add: dropWhile_append1 takeWhile_append1)
qed

lemma next_line_Line_more: "next_line s = Line l r \<Longrightarrow> next_line (s @ t) = Line l (r @ t)"
proof -
  assume "next_line s = Line l r"
  then have s: "dropWhile (\<lambda>c. \<not> eol c) s = CR # LF # r" "takeWhile (\<lambda>c. \<not> eol c) s = l"
    by (auto simp: next_line_def split: list.splits if_splits)
  with eol_found [of s t] show ?thesis by (simp add: next_line_def)
qed

lemma next_line_Bad_more:
  assumes "next_line s = LineBad"
  shows "next_line (s @ t) = LineBad" "dropWhile (\<lambda>c. \<not> eol c) s \<noteq> []"
proof -
  from assms show found: "dropWhile (\<lambda>c. \<not> eol c) s \<noteq> []"
    unfolding next_line_def by (auto simp del: dropWhile_eq_Nil_conv)
  with assms eol_found(1) [OF found, of t] show "next_line (s @ t) = LineBad"
    by (cases t) (auto simp: next_line_def split: list.splits if_splits)
qed

lemma spec_run_more:
  "(spec_run pos p s = WaitLine p' pos' s' \<longrightarrow> spec_run pos p (s @ t) = spec_run pos' p' (s' @ t)) \<and>
   (spec_run pos p s = WaitBody p' pos' s' \<longrightarrow> spec_run pos p (s @ t) = spec_run pos' p' (s' @ t)) \<and>
   (0 \<le> p_len p \<longrightarrow> spec_run pos p s = Done code p' pos' s' \<longrightarrow> spec_run pos p (s @ t) = Done code p' pos' (s' @ t))"
proof (induction pos p s rule: spec_run.induct)
  case (1 pos p s)
  show ?case
  proof (cases "p_state p = CHECK_STATE_CONTENT")
    case True
    then show ?thesis by (auto simp: spec_run_content)
  next
    case state: False
    show ?thesis
    proof (cases "next_line s")
      case LineOpen
      with state show ?thesis by (simp add: spec_run_open)
    next
      case LineBad
      with state next_line_Bad_more [OF LineBad] eol_found [of s t] show ?thesis
        by (auto simp: spec_run_bad)
    next
      case (Line l r)
      let ?pos = "pos + length l + 2"
      note more = next_line_Line_more [OF Line, of t]
      show ?thesis
      proof (cases "p_state p = CHECK_STATE_REQUESTLINE")
        case rl: True
        note step = spec_run_request_line [OF rl Line] spec_run_request_line [OF rl more]
        show ?thesis
          using 1(1) [OF state Line refl rl] step
          by (cases "spec_request_line (text_of l) (p_req p)") auto
      next
        case False
        with state have hd: "p_state p = CHECK_STATE_HEADER" by (cases "p_state p") simp_all
        obtain cd q where sh: "spec_header ?pos (text_of l) p = (cd, q)" by (cases "spec_header ?pos (text_of l) p")
        note step = spec_run_header [OF hd Line sh] spec_run_header [OF hd more sh]
        show ?thesis
          using 1(2) [OF state Line refl False sh [symmetric]] spec_header_len [OF sh] step
          by (cases "cd = NO_REQUEST") auto
      qed
    qed
  qed
qed


text \<open>Whether the bytes at hand end inside a body.\<close>

definition awaits_body :: "http_conn \<Rightarrow> bool" where
  "awaits_body c =
     (case spec_run (m_start_line c) (pstate_of c) (input c) of WaitBody p pos s \<Rightarrow> True | _ \<Rightarrow> False)"

text \<open>A connection that is between lines and has not started on a body.\<close>

definition between_lines :: "http_conn \<Rightarrow> bool" where
  "between_lines c \<longleftrightarrow> clean c \<and> 0 \<le> m_content_length c \<and> m_check_state c \<noteq> CHECK_STATE_CONTENT"

definition unread :: "http_conn \<Rightarrow> string" where
  "unread c = mem_load (m_read_buf c) (m_checked_idx c) (m_read_idx c - m_checked_idx c)"

lemma process_read_agrees:
  assumes "between_lines c" "process_read c = (ret, c')"
  shows "agrees (spec_run (m_start_line c) (pstate_of c) (input c)) ret c'"
  using assms process_read_loop_refines [of c ret c'] by (simp add: between_lines_def process_read_def)

lemma store_received_between:
  "between_lines c \<Longrightarrow> between_lines (store_received bs c)"
  by (simp add: between_lines_def store_received_clean)

lemma spec_run_len:
  "0 \<le> p_len p \<Longrightarrow>
   (case spec_run pos p s of
      Done code p' pos' s' \<Rightarrow> 0 \<le> p_len p' \<and> (code = NO_REQUEST \<longrightarrow> False)
    | WaitLine p' pos' s' \<Rightarrow> 0 \<le> p_len p' \<and> p_state p' \<noteq> CHECK_STATE_CONTENT
    | WaitBody p' pos' s' \<Rightarrow> 0 \<le> p_len p' \<and> p_state p' = CHECK_STATE_CONTENT)"
proof (induction pos p s rule: spec_run.induct)
  case (1 pos p s)
  show ?case
  proof (cases "p_state p = CHECK_STATE_CONTENT")
    case True
    with 1 show ?thesis by (simp add: spec_run_content set_req_body_def)
  next
    case state: False
    show ?thesis
    proof (cases "next_line s")
      case (Line l r)
      let ?pos = "pos + length l + 2"
      show ?thesis
      proof (cases "p_state p = CHECK_STATE_REQUESTLINE")
        case rl: True
        with 1(1) [OF state Line refl rl] 1(3) show ?thesis
          by (cases "spec_request_line (text_of l) (p_req p)") (simp_all add: spec_run_request_line [OF rl Line])
      next
        case False
        with state have hd: "p_state p = CHECK_STATE_HEADER" by (cases "p_state p") simp_all
        obtain cd q where sh: "spec_header ?pos (text_of l) p = (cd, q)" by (cases "spec_header ?pos (text_of l) p")
        with 1(2) [OF state Line refl False sh [symmetric]] spec_header_len [OF sh] 1(3) show ?thesis
          by (cases "cd = NO_REQUEST") (simp_all add: spec_run_header [OF hd Line sh])
      qed
    qed (use 1(3) state in \<open>simp_all add: spec_run_open spec_run_bad\<close>)
  qed
qed

lemma process_read_waiting:
  assumes "between_lines c" "process_read c = (NO_REQUEST, c')" "\<not> awaits_body c"
  shows "between_lines c' \<and>
    spec_run (m_start_line c) (pstate_of c) (input c) = WaitLine (pstate_of c') (m_start_line c') (input c')"
proof -
  note ag = process_read_agrees [OF assms(1,2)]
  note len = spec_run_len [of "pstate_of c" "m_start_line c" "input c"]
  have "0 \<le> m_content_length c" using assms(1) by (simp add: between_lines_def)
  with ag len assms(3) show ?thesis
    by (auto simp: agrees_def between_lines_def awaits_body_def split: outcome.splits)
qed


section \<open>The cursors stay inside the buffer\<close>

lemma process_line_cursors:
  assumes "process_line c = (fl, c')" "cursors_ok c"
  shows "cursors_ok c' \<and> m_read_idx c' = m_read_idx c"
  using assms
  by (auto simp: process_line_def parse_content_def cursors_ok_def Let_def
      split: check_state.splits if_splits prod.splits
      dest!: parse_request_line_cursor parse_headers_cursor)

lemma next_line_status_cursors:
  assumes "next_line_status ls c = (ls', c')" "cursors_ok c"
  shows "cursors_ok c' \<and> m_read_idx c' = m_read_idx c"
  using assms parse_line_cursor [of c ls' c']
  by (auto simp: next_line_status_def cursors_ok_def split: if_splits)

lemma process_read_loop_cursors:
  assumes "process_read_loop ls c = (ret, c')" "cursors_ok c"
  shows "cursors_ok c' \<and> m_read_idx c' = m_read_idx c"
  using assms
proof (induction ls c rule: process_read_loop.induct)
  case (1 ls c)
  obtain ls1 c1 where st: "next_line_status ls c = (ls1, c1)" by (cases "next_line_status ls c")
  note keep = next_line_status_cursors [OF st 1(3)]
  obtain fl c2 where pl: "process_line c1 = (fl, c2)" by (cases "process_line c1")
  note keep2 = process_line_cursors [OF pl]
  show ?case
  proof (cases "ls1 = LINE_OK")
    case ok: True
    show ?thesis
    proof (cases fl)
      case (Return r)
      with 1(2) st ok pl keep keep2 show ?thesis by (subst (asm) process_read_loop.simps) simp
    next
      case (Continue ls')
      with 1(2) st ok pl have "process_read_loop ls' c2 = (ret, c')"
        by (subst (asm) process_read_loop.simps) simp
      with 1(1) [OF st [unfolded ok, symmetric] refl pl [unfolded Continue, symmetric] refl] keep keep2
      show ?thesis using ok by simp
    qed
  next
    case False
    with 1(2) st keep show ?thesis
      by (subst (asm) process_read_loop.simps) (auto split: line_status.splits if_splits)
  qed
qed

lemma process_read_cursors:
  "process_read c = (ret, c') \<Longrightarrow> cursors_ok c \<Longrightarrow> cursors_ok c' \<and> m_read_idx c' = m_read_idx c"
  by (simp add: process_read_def process_read_loop_cursors)

lemma between_lines_cursors: "between_lines c \<Longrightarrow> cursors_ok c"
  by (simp add: between_lines_def clean_def)

section \<open>Requests as a client writes them\<close>

definition plain :: "char \<Rightarrow> bool" where
  "plain c \<longleftrightarrow> c \<noteq> CR \<and> c \<noteq> LF \<and> c \<noteq> NUL"

definition wf_target :: "string \<Rightarrow> bool" where
  "wf_target t \<longleftrightarrow> t \<noteq> [] \<and> hd t = CHR ''/'' \<and> list_all (\<lambda>c. plain c \<and> nonws c) t"

text \<open>Header names with a meaning of their own to the parser.\<close>

definition special_names :: "string list" where
  "special_names = [''connection'', ''content-length'', ''transfer-encoding'', ''content-encoding'', ''host'']"

definition wf_field :: "string \<times> string \<Rightarrow> bool" where
  "wf_field h \<longleftrightarrow> fst h \<noteq> [] \<and> list_all (\<lambda>c. plain c \<and> c \<noteq> CHR '':'') (fst h) \<and> list_all plain (snd h)
     \<and> (snd h \<noteq> [] \<longrightarrow> nonws (hd (snd h))) \<and> map tolower (fst h) \<notin> set special_names"

definition field_line :: "string \<times> string \<Rightarrow> string" where
  "field_line h = fst h @ '': '' @ snd h"

definition request_head :: "http_method \<Rightarrow> string \<Rightarrow> (string \<times> string) list \<Rightarrow> nat \<Rightarrow> string" where
  "request_head m target hs n =
     method_name m @ '' '' @ target @ '' HTTP/1.1'' @ CRLF
     @ concat (map (\<lambda>h. field_line h @ CRLF) hs)
     @ ''Content-Length: '' @ to_string (int n) @ CRLF
     @ CRLF"

definition request_text :: "http_method \<Rightarrow> string \<Rightarrow> (string \<times> string) list \<Rightarrow> string \<Rightarrow> string" where
  "request_text m target hs body = request_head m target hs (length body) @ body"

definition add_field :: "string \<times> string \<Rightarrow> (string \<rightharpoonup> string) \<Rightarrow> (string \<rightharpoonup> string)" where
  "add_field h m = m(fst h \<mapsto> snd h)"

definition head_request :: "http_method \<Rightarrow> string \<Rightarrow> (string \<times> string) list \<Rightarrow> nat \<Rightarrow> http_request" where
  "head_request m target hs n =
     (set_target m target http_request_new)
       \<lparr>req_headers := add_field (''Content-Length'', to_string (int n)) (fold add_field hs Map.empty)\<rparr>"

definition the_request :: "http_method \<Rightarrow> string \<Rightarrow> (string \<times> string) list \<Rightarrow> string \<Rightarrow> http_request" where
  "the_request m target hs body = (head_request m target hs (length body))\<lparr>req_body := body\<rparr>"

lemma tolower_colon: "tolower c = CHR '':'' \<longleftrightarrow> c = CHR '':''"
proof (cases "65 \<le> (of_char c :: nat) \<and> (of_char c :: nat) \<le> 90")
  case True
  then have "(of_char (tolower c) :: nat) = of_char c + 32" by (simp add: tolower_def Let_def)
  with True have "(of_char (tolower c) :: nat) \<noteq> of_char CHR '':''" "(of_char c :: nat) \<noteq> of_char CHR '':''" by auto
  then show ?thesis by metis
qed (auto simp: tolower_def Let_def)

lemma strncaseeq_name:
  "CHR '':'' \<notin> set k \<Longrightarrow> CHR '':'' \<notin> set name \<Longrightarrow>
   strncaseeq (k @ CHR '':'' # s) (name @ '':'') \<longleftrightarrow> map tolower k = map tolower name"
proof (induction k arbitrary: name)
  case Nil
  then show ?case using tolower_colon [of "hd name"] tolower_colon [of "CHR '':''"]
    by (cases name) (auto simp: strncaseeq_def)
next
  case (Cons c k)
  then show ?case using tolower_colon [of c] tolower_colon [of "CHR '':''"]
    by (cases name) (auto simp: strncaseeq_def)
qed

lemma text_of_plain: "list_all plain l \<Longrightarrow> text_of l = l"
  by (auto simp: text_of_def list_all_iff plain_def)

lemma next_line_plain: "list_all plain l \<Longrightarrow> next_line (l @ CR # LF # r) = Line l r"
  by (rule next_line_append(3)) (auto simp: list_all_iff plain_def eol_def)

lemma method_name_plain: "list_all (\<lambda>c. plain c \<and> nonws c) (method_name m)"
  by (cases m) (auto simp: plain_def nonws_def is_ws_def)

lemma method_of_name: "m \<in> {GET, POST, PUT, DELETE} \<Longrightarrow> method_of (method_name m) = Some m"
  by (auto simp: method_of_def strcaseeq_def tolower_def Let_def)

lemma takeWhile_word:
  "list_all (\<lambda>c. plain c \<and> nonws c) w \<Longrightarrow> takeWhile nonws (w @ CHR '' '' # s) = w \<and> dropWhile nonws (w @ CHR '' '' # s) = CHR '' '' # s"
  by (rule takeWhile_dropWhile_append) (auto simp: list_all_iff nonws_def is_ws_def)

lemma spec_target_wf: "wf_target t \<Longrightarrow> spec_target t = Some t"
  by (cases t) (auto simp: wf_target_def spec_target_def strip_scheme_def strncaseeq_def tolower_def Let_def)

lemma request_line_of_text:
  assumes "m \<in> {GET, POST, PUT, DELETE}" "wf_target t"
  defines "l \<equiv> method_name m @ '' '' @ t @ '' HTTP/1.1''"
  shows "list_all plain l" "spec_request_line l req = Some (set_target m t req)"
proof -
  from assms(2) have t: "list_all (\<lambda>c. plain c \<and> nonws c) t" "t \<noteq> []" by (auto simp: wf_target_def)
  show "list_all plain l" using t(1) method_name_plain [of m] unfolding l_def
    by (auto simp: list_all_iff plain_def)
  have 1: "takeWhile nonws l = method_name m" "dropWhile nonws l = CHR '' '' # t @ '' HTTP/1.1''"
    using takeWhile_word [OF method_name_plain, of m "t @ '' HTTP/1.1''"] by (simp_all add: l_def)
  have 2: "dropWhile is_ws (CHR '' '' # t @ '' HTTP/1.1'') = t @ '' HTTP/1.1''"
    using t by (cases t) (auto simp: is_ws_def nonws_def)
  have 3: "takeWhile nonws (t @ '' HTTP/1.1'') = t" "dropWhile nonws (t @ '' HTTP/1.1'') = '' HTTP/1.1''"
    using takeWhile_word [OF t(1), of "''HTTP/1.1''"] by simp_all
  have 4: "dropWhile is_ws '' HTTP/1.1'' = ''HTTP/1.1''" by (simp add: is_ws_def)
  show "spec_request_line l req = Some (set_target m t req)"
    unfolding spec_request_line_def Let_def 1 2 3 4
    by (simp add: method_of_name [OF assms(1)] spec_target_wf [OF assms(2)])
qed


lemma special_names_lower:
  "map tolower ''Connection'' = ''connection''" "map tolower ''Content-length'' = ''content-length''"
  "map tolower ''Transfer-Encoding'' = ''transfer-encoding''" "map tolower ''Content-Encoding'' = ''content-encoding''"
  "map tolower ''Host'' = ''host''" "map tolower ''Content-Length'' = ''content-length''"
  by code_simp+

lemma strncaseeq_special:
  assumes "CHR '':'' \<notin> set k"
  shows "strncaseeq (k @ CHR '':'' # s) ''Connection:'' \<longleftrightarrow> map tolower k = ''connection''"
    "strncaseeq (k @ CHR '':'' # s) ''Content-length:'' \<longleftrightarrow> map tolower k = ''content-length''"
    "is_unsupported_body_encoding_header (k @ CHR '':'' # s) \<longleftrightarrow>
       map tolower k = ''transfer-encoding'' \<or> map tolower k = ''content-encoding''"
    "strncaseeq (k @ CHR '':'' # s) ''Host:'' \<longleftrightarrow> map tolower k = ''host''"
  using strncaseeq_name [OF assms, of "''Connection''" s] strncaseeq_name [OF assms, of "''Content-length''" s]
    strncaseeq_name [OF assms, of "''Transfer-Encoding''" s] strncaseeq_name [OF assms, of "''Content-Encoding''" s]
    strncaseeq_name [OF assms, of "''Host''" s]
  unfolding special_names_lower is_unsupported_body_encoding_header_def by simp_all

lemma header_value_field:
  "v \<noteq> [] \<longrightarrow> nonws (hd v) \<Longrightarrow> header_value (Suc (length k)) (k @ CHR '':'' # CHR '' '' # v) = v"
  by (cases v) (simp_all add: header_value_def is_ws_def nonws_def)

lemma field_line_plain: "wf_field h \<Longrightarrow> list_all plain (field_line h)"
  by (auto simp: wf_field_def field_line_def list_all_iff plain_def)

lemma spec_header_field:
  assumes "wf_field h"
  shows "spec_header pos (field_line h) p = (NO_REQUEST, put_header (fst h) (snd h) p)"
proof -
  let ?k = "fst h" and ?v = "snd h"
  have l: "field_line h = ?k @ CHR '':'' # CHR '' '' # ?v" by (simp add: field_line_def)
  from assms have k: "CHR '':'' \<notin> set ?k" and "map tolower ?k \<notin> set special_names"
    by (auto simp: wf_field_def list_all_iff)
  then have no: "\<not> strncaseeq (field_line h) ''Connection:''" "\<not> strncaseeq (field_line h) ''Content-length:''"
    "\<not> is_unsupported_body_encoding_header (field_line h)" "\<not> strncaseeq (field_line h) ''Host:''"
    unfolding l strncaseeq_special [OF k] by (simp_all add: special_names_def)
  have "takeWhile (\<lambda>c. c \<noteq> CHR '':'') (field_line h) = ?k" 
    unfolding l using k by (intro takeWhile_dropWhile_append [THEN conjunct1]) auto
  moreover have "header_value (Suc (length ?k)) (field_line h) = ?v"
    unfolding l using assms by (intro header_value_field) (simp add: wf_field_def)
  moreover have "field_line h \<noteq> []" "CHR '':'' \<in> set (field_line h)" unfolding l by simp_all
  ultimately show ?thesis using no by (simp add: spec_header_def Let_def)
qed

lemma spec_header_content_length:
  assumes "n < READ_BUFFER_SIZE"
  shows "spec_header pos (''Content-Length: '' @ to_string (int n)) p =
    (NO_REQUEST, put_header ''Content-Length'' (to_string (int n)) (p\<lparr>p_len := int n\<rparr>))"
    and "list_all plain (''Content-Length: '' @ to_string (int n))"
proof -
  let ?v = "to_string (int n)"
  have digits: "list_all is_digit ?v" "?v \<noteq> []" "dec_value ?v = n"
    by (simp_all add: to_string_def list_all_iff dec_digits_are_digits)
  have hv: "header_value 15 (''Content-Length: '' @ ?v) = ?v"
    using digits(1,2) by (cases ?v) (auto simp: header_value_def is_ws_def is_digit_def)
  have pc: "parse_content_length ?v = Some (int n)"
    using digits assms parse_content_length_digits [of ?v] by (simp add: LONG_MAX_def READ_BUFFER_SIZE_def)
  have "\<not> strncaseeq (''Content-Length: '' @ ?v) ''Connection:''" "strncaseeq (''Content-Length: '' @ ?v) ''Content-length:''"
    using strncaseeq_special(1,2) [of "''Content-Length''" "CHR '' '' # ?v"] special_names_lower(6) by simp_all
  with hv pc assms show "spec_header pos (''Content-Length: '' @ ?v) p =
    (NO_REQUEST, put_header ''Content-Length'' ?v (p\<lparr>p_len := int n\<rparr>))"
    by (simp add: spec_header_def Let_def)
  show "list_all plain (''Content-Length: '' @ ?v)"
    using digits(1) by (auto simp: list_all_iff plain_def is_digit_def)
qed

lemma spec_run_fields:
  "list_all wf_field hs \<Longrightarrow> p_state p = CHECK_STATE_HEADER \<Longrightarrow>
   spec_run pos p (concat (map (\<lambda>h. field_line h @ CRLF) hs) @ s) =
   spec_run (pos + length (concat (map (\<lambda>h. field_line h @ CRLF) hs)))
     (p\<lparr>p_req := (p_req p)\<lparr>req_headers := fold add_field hs (req_headers (p_req p))\<rparr>\<rparr>) s"
proof (induction hs arbitrary: pos p)
  case (Cons h hs)
  let ?r = "concat (map (\<lambda>h. field_line h @ CRLF) hs) @ s"
  have h: "wf_field h" using Cons.prems by simp
  have nl: "next_line (field_line h @ CR # LF # ?r) = Line (field_line h) ?r"
    by (rule next_line_plain) (rule field_line_plain [OF h])
  have "spec_run pos p (field_line h @ CR # LF # ?r) =
      spec_run (pos + length (field_line h) + 2) (put_header (fst h) (snd h) p) ?r"
    using spec_run_header [OF Cons.prems(2) nl] spec_header_field [OF h] text_of_plain [OF field_line_plain [OF h]]
    by simp
  with Cons show ?case by (simp add: put_header_def add_field_def add.assoc [symmetric] fun_upd_def)
qed simp


definition initial_pstate :: pstate where
  "initial_pstate = \<lparr>p_state = CHECK_STATE_REQUESTLINE, p_req = http_request_new, p_len = 0, p_linger = True\<rparr>"

text \<open>The empty line that ends the head.\<close>

lemma spec_run_blank_line:
  assumes p: "p_state p = CHECK_STATE_HEADER" "p_len p = int n" and fit: "pos + 2 + n < READ_BUFFER_SIZE"
  shows "spec_run pos p (CR # LF # s) =
    (if n = 0 then Done GET_REQUEST p (pos + 2) s else spec_run (pos + 2) (p\<lparr>p_state := CHECK_STATE_CONTENT\<rparr>) s)"
proof -
  have "spec_header (pos + 2) (text_of []) p =
      (if n = 0 then (GET_REQUEST, p) else (NO_REQUEST, p\<lparr>p_state := CHECK_STATE_CONTENT\<rparr>))"
    using p fit by (simp add: spec_header_def text_of_def)
  with spec_run_header [OF p(1) next_line_plain [of "[]" s, simplified], of pos] show ?thesis
    by (cases "n = 0") simp_all
qed

lemma spec_run_head:
  assumes m: "m \<in> {GET, POST, PUT, DELETE}" and t: "wf_target t" and hs: "list_all wf_field hs"
    and fit: "length (request_head m t hs n) + n < READ_BUFFER_SIZE"
  obtains p where "p_req p = head_request m t hs n" "p_len p = int n" "p_linger p"
    "n = 0 \<Longrightarrow> spec_run 0 initial_pstate (request_head m t hs n @ s) = Done GET_REQUEST p (length (request_head m t hs n)) s"
    "0 < n \<Longrightarrow> p_state p = CHECK_STATE_CONTENT \<and>
       spec_run 0 initial_pstate (request_head m t hs n @ s) = spec_run (length (request_head m t hs n)) p s"
proof -
  define l where "l = method_name m @ '' '' @ t @ '' HTTP/1.1''"
  define f where "f = concat (map (\<lambda>h. field_line h @ CRLF) hs)"
  define cl where "cl = ''Content-Length: '' @ to_string (int n)"
  have rt: "request_head m t hs n = l @ CRLF @ f @ cl @ CRLF @ CRLF"
    by (simp add: request_head_def l_def f_def cl_def)
  have len: "n < READ_BUFFER_SIZE" using fit by simp
  note rl = request_line_of_text [OF m t, folded l_def] and
    ch = spec_header_content_length [OF len, folded cl_def]
  let ?n = "length (request_head m t hs n)"
  let ?p1 = "initial_pstate\<lparr>p_state := CHECK_STATE_HEADER, p_req := set_target m t http_request_new\<rparr>"
  let ?p2 = "?p1\<lparr>p_req := (p_req ?p1)\<lparr>req_headers := fold add_field hs (req_headers (p_req ?p1))\<rparr>\<rparr>"
  let ?s2 = "cl @ CR # LF # CR # LF # s" and ?s3 = "CR # LF # s" and ?pos = "length l + 2 + length f + length cl + 2"
  define p3 where "p3 = put_header ''Content-Length'' (to_string (int n)) (?p2\<lparr>p_len := int n\<rparr>)"
  have whole: "request_head m t hs n @ s = l @ CR # LF # f @ ?s2" by (simp add: rt)
  have "spec_run 0 initial_pstate (l @ CR # LF # f @ ?s2) = spec_run (length l + 2) ?p1 (f @ ?s2)"
    using spec_run_request_line [OF _ next_line_plain [OF rl(1)], of initial_pstate 0]
      text_of_plain [OF rl(1)] rl(2) by (simp add: initial_pstate_def)
  also have "\<dots> = spec_run (length l + 2 + length f) ?p2 ?s2"
    using spec_run_fields [OF hs, of ?p1] by (simp add: f_def)
  also have "\<dots> = spec_run ?pos p3 ?s3"
    using spec_run_header [OF _ next_line_plain [OF ch(2)], of ?p2] ch(1) text_of_plain [OF ch(2)]
    by (simp add: p3_def)
  finally have run: "spec_run 0 initial_pstate (request_head m t hs n @ s) = spec_run ?pos p3 ?s3"
    unfolding whole .
  have st: "p_state p3 = CHECK_STATE_HEADER" "p_len p3 = int n" "p_linger p3"
    by (simp_all add: put_header_def initial_pstate_def p3_def)
  have req: "p_req p3 = head_request m t hs n"
    by (simp add: put_header_def head_request_def add_field_def set_target_def Let_def http_request_new_def p3_def)
  have "?pos + 2 = ?n" by (simp add: rt)
  with spec_run_blank_line [OF st(1,2), of ?pos s] fit run have
    "spec_run 0 initial_pstate (request_head m t hs n @ s) =
      (if n = 0 then Done GET_REQUEST p3 ?n s else spec_run ?n (p3\<lparr>p_state := CHECK_STATE_CONTENT\<rparr>) s)" by simp
  with req st show ?thesis
    by (intro that [of "if n = 0 then p3 else p3\<lparr>p_state := CHECK_STATE_CONTENT\<rparr>"]) (cases "n = 0"; simp)+
qed

lemma spec_run_request_text:
  assumes "m \<in> {GET, POST, PUT, DELETE}" "wf_target t" "list_all wf_field hs"
    and "length (request_text m t hs body) < READ_BUFFER_SIZE"
  shows "\<exists>p. spec_run 0 initial_pstate (request_text m t hs body @ rest)
      = Done GET_REQUEST p (length (request_text m t hs body)) rest
    \<and> p_req p = the_request m t hs body \<and> p_linger p"
proof -
  obtain p where p: "p_req p = head_request m t hs (length body)" "p_len p = int (length body)" "p_linger p"
    "length body = 0 \<Longrightarrow> spec_run 0 initial_pstate (request_head m t hs (length body) @ body @ rest)
       = Done GET_REQUEST p (length (request_head m t hs (length body))) (body @ rest)"
    "0 < length body \<Longrightarrow> p_state p = CHECK_STATE_CONTENT \<and>
       spec_run 0 initial_pstate (request_head m t hs (length body) @ body @ rest)
       = spec_run (length (request_head m t hs (length body))) p (body @ rest)"
    using spec_run_head [OF assms(1-3), of "length body" "body @ rest"] assms(4) by (auto simp: request_text_def)
  show ?thesis
  proof (cases "body = []")
    case True
    with p show ?thesis by (auto simp: request_text_def the_request_def head_request_def set_target_def http_request_new_def Let_def)
  next
    case False
    with p have "spec_run 0 initial_pstate (request_text m t hs body @ rest)
        = Done GET_REQUEST (set_req_body body p) (length (request_text m t hs body)) rest"
      by (simp add: request_text_def spec_run_content)
    then show ?thesis using p(1,3) by (auto simp: set_req_body_def the_request_def)
  qed
qed

section \<open>Pipelining\<close>

definition loaded :: "string \<Rightarrow> http_conn \<Rightarrow> bool" where
  "loaded s c \<longleftrightarrow> pstate_of c = initial_pstate \<and> m_start_line c = 0 \<and> m_checked_idx c = 0
     \<and> m_read_idx c = length s \<and> length s \<le> READ_BUFFER_SIZE \<and> mem_load (m_read_buf c) 0 (length s) = s"

lemma loaded_between: "loaded s c \<Longrightarrow> between_lines c \<and> input c = s \<and> cursors_ok c"
  by (auto simp: loaded_def between_lines_def clean_def cursors_ok_def input_def initial_pstate_def pstate_of_def)

lemma conn_init_loaded: "loaded [] (conn_init fd trig c)"
  by (simp add: loaded_def conn_init_def init_parser_def pstate_of_def initial_pstate_def mem_load_def)

lemma store_received_loaded:
  assumes "loaded s c" "length (s @ bs) \<le> READ_BUFFER_SIZE"
  shows "loaded (s @ bs) (store_received bs c)"
proof -
  have "input (store_received bs c) = s @ bs"
    using store_received_input [of c bs] loaded_between [OF assms(1)] assms by (simp add: loaded_def)
  with assms show ?thesis by (simp add: loaded_def input_def)
qed

lemma retain_loaded:
  assumes "cursors_ok c"
  shows "loaded (unread c) (retain_pipelined_bytes c)"
proof (cases "m_checked_idx c < m_read_idx c")
  case True
  then have "nat (int (m_read_idx c) - int (m_checked_idx c)) = m_read_idx c - m_checked_idx c" by simp
  with True assms show ?thesis
    by (simp add: loaded_def retain_pipelined_bytes_def unread_def Let_def init_parser_def pstate_of_def
        initial_pstate_def cursors_ok_def mem_store_load) linarith
next
  case False
  with assms show ?thesis
    by (simp add: loaded_def retain_pipelined_bytes_def unread_def Let_def init_parser_def pstate_of_def
        initial_pstate_def cursors_ok_def mem_load_def)
qed


type_synonym client_request = "http_method \<times> string \<times> (string \<times> string) list \<times> string"

fun wf_request :: "client_request \<Rightarrow> bool" where
  "wf_request (m, t, hs, body) \<longleftrightarrow> m \<in> {GET, POST, PUT, DELETE} \<and> wf_target t \<and> list_all wf_field hs"

fun text_of_request :: "client_request \<Rightarrow> string" where
  "text_of_request (m, t, hs, body) = request_text m t hs body"

fun request_of :: "client_request \<Rightarrow> http_request" where
  "request_of (m, t, hs, body) = the_request m t hs body"

lemma loaded_request:
  assumes "loaded (text_of_request r @ rest) c" "wf_request r" "length (text_of_request r) < READ_BUFFER_SIZE"
    "process_read c = (ret, c')"
  shows "ret = GET_REQUEST" "m_request c' = request_of r" "m_linger c'" "unread c' = rest" "cursors_ok c'"
proof -
  obtain m t hs body where r: "r = (m, t, hs, body)" by (cases r)
  note ld = loaded_between [OF assms(1)]
  obtain p where run: "spec_run 0 initial_pstate (text_of_request r @ rest)
      = Done GET_REQUEST p (length (text_of_request r)) rest" and p: "p_req p = request_of r" "p_linger p"
    using spec_run_request_text [of m t hs body rest] assms(2,3) by (auto simp: r)
  have "agrees (spec_run 0 initial_pstate (text_of_request r @ rest)) ret c'"
    using process_read_agrees [OF _ assms(4)] ld assms(1) by (simp add: loaded_def)
  then have ag: "ret = GET_REQUEST" "pstate_of c' = p" "unread c' = rest"
    unfolding run by (auto simp: agrees_def unread_def)
  then show "ret = GET_REQUEST" "unread c' = rest" by simp_all
  from ag(2) p show "m_request c' = request_of r" "m_linger c'" by auto
  from process_read_cursors [OF assms(4)] ld show "cursors_ok c'" by blast
qed

text \<open>The requests that come out of one filled buffer when each response is sent on a connection kept
  alive: \<open>process_read\<close>, then the reset at the end of \<open>write\<close>.\<close>

fun serve :: "nat \<Rightarrow> http_conn \<Rightarrow> http_request list" where
  "serve 0 c = []"
| "serve (Suc n) c =
     (case process_read c of
        (ret, c') \<Rightarrow> if ret = GET_REQUEST then m_request c' # serve n (retain_pipelined_bytes c') else [])"

lemma serve_loaded:
  "loaded (concat (map text_of_request rs)) c \<Longrightarrow> list_all wf_request rs \<Longrightarrow>
   length (concat (map text_of_request rs)) < READ_BUFFER_SIZE \<Longrightarrow> serve (length rs) c = map request_of rs"
proof (induction rs arbitrary: c)
  case (Cons r rs)
  let ?rest = "concat (map text_of_request rs)"
  obtain ret c' where run: "process_read c = (ret, c')" by (cases "process_read c")
  have ld: "loaded (text_of_request r @ ?rest) c" and wf: "wf_request r"
    and lim: "length (text_of_request r) < READ_BUFFER_SIZE"
    using Cons.prems by simp_all
  note res = loaded_request [OF ld wf lim run]
  from retain_loaded [OF res(5)] have "loaded ?rest (retain_pipelined_bytes c')" by (simp add: res(4))
  with Cons.IH [OF this] Cons.prems res run show ?case by simp
qed simp

lemma awaits_body_loaded:
  "loaded s c \<Longrightarrow> awaits_body c \<longleftrightarrow> (case spec_run 0 initial_pstate s of WaitBody p pos r \<Rightarrow> True | _ \<Rightarrow> False)"
  using loaded_between [of s c] by (simp add: awaits_body_def loaded_def)

section \<open>Properties of the parser\<close>

text \<open>C1: The in-place parser computes what the string parser does.  On a connection that is between
  lines, with any bytes at hand that do not end inside a body, \<open>process_read\<close> returns the code of
  the reference parser with its request, keep-alive flag and content length; the bytes after the
  parsed request are still in the buffer, unchanged and next in line; and when more bytes are needed
  the connection is between lines again with the incomplete line kept, or the full buffer is
  answered with 413.\<close>

theorem process_read_refines:
  assumes "between_lines c" "process_read c = (ret, c')" "\<not> awaits_body c"
  shows "(case spec_run (m_start_line c) (pstate_of c) (input c) of
      Done code p pos rest \<Rightarrow> ret = code \<and> pstate_of c' = p \<and> m_checked_idx c' = pos \<and> unread c' = rest
    | WaitLine p pos rest \<Rightarrow> between_lines c' \<and> pstate_of c' = p \<and> m_start_line c' = pos \<and> input c' = rest
        \<and> ret = (if m_read_idx c = READ_BUFFER_SIZE then REQUEST_ENTITY_TOO_LARGE else NO_REQUEST)
    | WaitBody p pos rest \<Rightarrow> False)"
proof -
  have "0 \<le> m_content_length c" using assms(1) by (simp add: between_lines_def)
  with process_read_agrees [OF assms(1,2)] process_read_cursors [OF assms(2) between_lines_cursors [OF assms(1)]]
    spec_run_len [of "pstate_of c" "m_start_line c" "input c"] assms(3)
  show ?thesis
    by (auto simp: agrees_def unread_def awaits_body_def between_lines_def cursors_ok_def split: outcome.splits)
qed

theorem process_read_refines_witness:
  "\<exists>ret c'. process_read (store_received (''GET / HTTP/1.1'' @ CRLF @ ''Host: a'') (conn_init 7 0 blank)) = (ret, c')
     \<and> between_lines c' \<and> input c' = ''Host: a'' \<and> ret = NO_REQUEST"
proof -
  let ?s = "''GET / HTTP/1.1'' @ CRLF @ ''Host: a''"
  let ?c = "store_received ?s (conn_init 7 0 blank)"
  have len: "length ?s \<le> READ_BUFFER_SIZE" by code_simp
  then have ld: "loaded ?s ?c" using store_received_loaded [OF conn_init_loaded, of ?s] by simp
  have "case spec_run 0 initial_pstate ?s of WaitLine p pos s \<Rightarrow> s = ''Host: a'' | _ \<Rightarrow> False" by code_simp
  then obtain p pos where run: "spec_run 0 initial_pstate ?s = WaitLine p pos ''Host: a''"
    by (auto split: outcome.splits)
  obtain ret c' where pr: "process_read ?c = (ret, c')" by (cases "process_read ?c")
  have "m_read_idx ?c < READ_BUFFER_SIZE" using ld by (simp add: loaded_def READ_BUFFER_SIZE_def)
  with process_read_refines [OF _ pr] loaded_between [OF ld] awaits_body_loaded [OF ld] ld run pr
  show ?thesis by (auto simp: loaded_def)
qed

text \<open>C4: How the head of a request is cut into packets does not matter.  If the bytes \<open>a\<close> leave the
  request unfinished and \<open>b\<close> arrives later, the parser ends with the same code, request and unread
  bytes as if \<open>a @ b\<close> had arrived at once, provided the cut is not inside a body.\<close>

theorem head_in_pieces:
  assumes "between_lines c" "m_read_idx c + length (a @ b) < READ_BUFFER_SIZE"
    and "process_read (store_received a c) = (NO_REQUEST, c1)" "\<not> awaits_body (store_received a c)"
    and "process_read (store_received b c1) = (r2, c2)"
    and "process_read (store_received (a @ b) c) = (r, c')" "\<not> awaits_body (store_received (a @ b) c)"
  shows "r2 = r \<and> pstate_of c2 = pstate_of c' \<and>
    (if r = NO_REQUEST then input c2 = input c' else unread c2 = unread c')"
proof -
  let ?ca = "store_received a c" and ?cab = "store_received (a @ b) c" and ?cb = "store_received b c1"
  note btw = store_received_between [OF assms(1)]
  note cok = between_lines_cursors [OF assms(1)]
  have ia: "input ?ca = input c @ a" and iab: "input ?cab = input c @ a @ b"
    using store_received_input [OF cok] assms(2) by simp_all
  note wait = process_read_waiting [OF btw assms(3,4)]
  have rd: "m_read_idx c1 = m_read_idx c + length a"
    using process_read_cursors [OF assms(3) between_lines_cursors [OF btw]] assms(2) by simp
  have ib: "input ?cb = input c1 @ b"
    using store_received_input [OF between_lines_cursors] wait rd assms(2) by simp
  from spec_run_more [of "m_start_line c" "pstate_of c" "input c @ a" "pstate_of c1" "m_start_line c1" "input c1" b]
  have run: "spec_run (m_start_line ?cab) (pstate_of ?cab) (input ?cab)
      = spec_run (m_start_line ?cb) (pstate_of ?cb) (input ?cb)"
    using wait ia iab ib by simp
  have bb: "between_lines ?cb" using wait store_received_between by blast
  from process_read_agrees [OF bb assms(5)] have ag2: "agrees (spec_run (m_start_line ?cb) (pstate_of ?cb) (input ?cb)) r2 c2" .
  from process_read_agrees [OF btw assms(6)] have ag: "agrees (spec_run (m_start_line ?cb) (pstate_of ?cb) (input ?cb)) r c'"
    unfolding run .
  have lim: "m_read_idx c2 < READ_BUFFER_SIZE" "m_read_idx c' < READ_BUFFER_SIZE"
    using process_read_cursors [OF assms(5) between_lines_cursors [OF bb]]
      process_read_cursors [OF assms(6) between_lines_cursors [OF btw]] rd assms(2) by simp_all
  have nb: "case spec_run (m_start_line ?cb) (pstate_of ?cb) (input ?cb) of WaitBody p pos s \<Rightarrow> False | _ \<Rightarrow> True"
    using assms(7) unfolding awaits_body_def run by (auto split: outcome.splits)
  have "0 \<le> p_len (pstate_of ?cb)" using bb by (simp add: between_lines_def)
  from spec_run_len [OF this, of "m_start_line ?cb" "input ?cb"] ag2 ag lim nb
  show ?thesis by (auto simp: agrees_def unread_def split: outcome.splits)
qed


theorem head_in_pieces_witness:
  "\<exists>c1 r2 c2 r c'. process_read (store_received ''GET /a HT'' (conn_init 7 0 blank)) = (NO_REQUEST, c1)
     \<and> process_read (store_received (''TP/1.1'' @ CRLF @ CRLF) c1) = (r2, c2)
     \<and> process_read (store_received (''GET /a HT'' @ ''TP/1.1'' @ CRLF @ CRLF) (conn_init 7 0 blank)) = (r, c')
     \<and> r2 = r \<and> pstate_of c2 = pstate_of c' \<and> r = GET_REQUEST"
proof -
  let ?a = "''GET /a HT''" and ?b = "''TP/1.1'' @ CRLF @ CRLF" and ?c = "conn_init 7 0 blank"
  have lenab: "length (?a @ ?b) < READ_BUFFER_SIZE" by code_simp
  then have la: "loaded ?a (store_received ?a ?c)" and lab: "loaded (?a @ ?b) (store_received (?a @ ?b) ?c)"
    using store_received_loaded [OF conn_init_loaded, of ?a] store_received_loaded [OF conn_init_loaded, of "?a @ ?b"]
    by simp_all
  obtain r1 c1 where p1: "process_read (store_received ?a ?c) = (r1, c1)" by fastforce
  obtain r2 c2 where p2: "process_read (store_received ?b c1) = (r2, c2)" by fastforce
  obtain r c' where p: "process_read (store_received (?a @ ?b) ?c) = (r, c')" by fastforce
  have sa: "case spec_run 0 initial_pstate ?a of WaitLine q pos s \<Rightarrow> True | _ \<Rightarrow> False" by code_simp
  have sab: "case spec_run 0 initial_pstate (?a @ ?b) of Done code q pos s \<Rightarrow> code = GET_REQUEST | _ \<Rightarrow> False"
    by code_simp
  from process_read_agrees [OF _ p1] loaded_between [OF la] la sa lenab have r1: "r1 = NO_REQUEST"
    using process_read_cursors [OF p1] by (auto simp: agrees_def loaded_def split: outcome.splits)
  from process_read_agrees [OF _ p] loaded_between [OF lab] lab sab have "r = GET_REQUEST"
    by (auto simp: agrees_def loaded_def split: outcome.splits)
  moreover have "\<not> awaits_body (store_received ?a ?c)" "\<not> awaits_body (store_received (?a @ ?b) ?c)"
    using awaits_body_loaded [OF la] awaits_body_loaded [OF lab] sa sab by (auto split: outcome.splits)
  moreover have "between_lines ?c" "m_read_idx ?c = 0"
    using loaded_between [OF conn_init_loaded] conn_init_loaded [of 7 0 blank] by (auto simp: loaded_def)
  ultimately show ?thesis
    using head_in_pieces [of ?c ?a ?b c1 r2 c2 r c'] p1 p2 p r1 lenab by auto
qed

text \<open>C3: Requests sent back to back are all served, in order and intact.  For any well-formed
  requests (method, target, header fields, body) that together fit the read buffer and arrive in one
  packet on a fresh connection, the parser yields exactly those requests: each request line, header
  and body is read back as written, and the reset between requests loses and repeats no byte.\<close>

theorem pipelined_requests_served:
  assumes "list_all wf_request rs" "length (concat (map text_of_request rs)) < READ_BUFFER_SIZE"
  shows "serve (length rs) (store_received (concat (map text_of_request rs)) (conn_init fd trig c))
    = map request_of rs"
  using serve_loaded [OF _ assms] store_received_loaded [OF conn_init_loaded] assms(2) by simp

theorem pipelined_requests_served_witness:
  "let rs = [(GET, ''/abc?x'', [(''Accept'', ''*/*'')], []), (POST, ''/api/shorten'', [], ''{}'')]
   in serve (length rs) (store_received (concat (map text_of_request rs)) (conn_init 7 0 blank)) = map request_of rs"
  unfolding Let_def by (rule pipelined_requests_served) (code_simp, code_simp)

end
