(* ===== verification/Http_Lifecycle.thy ===== *)
theory Http_Lifecycle
  imports Http_Session
begin

text \<open>
  The connection slot from accept to close: sending the response, the worker's generation checks, the
  states a connection goes through, and three behaviours of the request path that the refinement to
  the string parser exposes (a body cut by a packet boundary, a bad line on a connection kept alive,
  an answer that cannot be serialized).
\<close>

section \<open>Sending the response\<close>

text \<open>\<open>out_pending s c\<close>: the bytes \<open>s\<close> of the write buffer are still to be sent.\<close>

definition out_pending :: "string \<Rightarrow> http_conn \<Rightarrow> bool" where
  "out_pending s c \<longleftrightarrow> bytes_to_send c = int (length s) \<and> m_iov_len c = int (length s)
     \<and> bytes_have_send c = int (m_iov_base c) \<and> mem_load (m_write_buf c) (m_iov_base c) (length s) = s
     \<and> \<not> m_pending_close c"

lemma process_write_pending:
  assumes "process_write hs resp c = (ok, c')" "bytes_have_send c = 0" "\<not> m_pending_close c"
  shows "ok \<longleftrightarrow> length (serialize hs resp) < WRITE_BUFFER_SIZE"
    "ok \<Longrightarrow> out_pending (serialize hs resp) c'" "\<not> ok \<Longrightarrow> c' = c"
  using assms by (auto simp: process_write_def Let_def out_pending_def mem_store_load split: if_splits)

lemma mem_load_take: "k \<le> n \<Longrightarrow> take k (mem_load buf i n) = mem_load buf i k"
  by (simp add: mem_load_def take_map)

lemma mem_load_drop_n: "k \<le> n \<Longrightarrow> drop k (mem_load buf i n) = mem_load buf (i + k) (n - k)"
  by (simp add: mem_load_def drop_map)

text \<open>What a call of the send loop makes of pending bytes: it sends a prefix; when that is all of them the
  descriptor is armed for reading again, otherwise the rest stays pending.  The input side is the
  same as before, or reset with the unread bytes kept.\<close>

definition same_input :: "http_conn \<Rightarrow> http_conn \<Rightarrow> bool" where
  "same_input c d \<longleftrightarrow> m_read_buf d = m_read_buf c \<and> m_read_idx d = m_read_idx c
     \<and> m_checked_idx d = m_checked_idx c \<and> m_start_line d = m_start_line c"

definition same_socket :: "http_conn \<Rightarrow> http_conn \<Rightarrow> bool" where
  "same_socket c d \<longleftrightarrow> m_sockfd d = m_sockfd c \<and> m_TRIGMode d = m_TRIGMode c \<and> m_linger d = m_linger c"

definition sent_as :: "string \<Rightarrow> http_conn \<Rightarrow> string \<Rightarrow> bool \<times> http_conn \<times> epoll_op list \<Rightarrow> bool" where
  "sent_as rest c out res \<longleftrightarrow>
     (case res of (ok, c', ops) \<Rightarrow>
        if rest = []
        then ops = [Modfd (m_sockfd c) EPOLLIN (m_TRIGMode c)] \<and> ok = m_linger c
          \<and> (ok \<longrightarrow> (\<exists>d. c' = retain_pipelined_bytes d \<and> same_input c d))
        else out_pending rest c' \<and> same_socket c c' \<and> same_input c c'
          \<and> ops = (if ok then [Modfd (m_sockfd c) EPOLLOUT (m_TRIGMode c)] else []))"

lemma write_loop_pending:
  assumes "write_loop ws c = (ok, c', ops, out)" "out_pending s c" "s \<noteq> []"
  shows "\<exists>rest. s = out @ rest \<and> sent_as rest c out (ok, c', ops)"
  using assms
proof (induction ws arbitrary: c ok c' ops out s)
  case Nil
  then show ?case by (auto simp: sent_as_def same_socket_def same_input_def)
next
  case (Cons w ws)
  show ?case
  proof (cases w)
    case (Sent n)
    define k where "k = min n (length s)"
    define c1 where "c1 = c\<lparr>bytes_have_send := bytes_have_send c + int k, bytes_to_send := bytes_to_send c - int k,
       m_iov_base := nat (bytes_have_send c + int k), m_iov_len := bytes_to_send c - int k\<rparr>"
    note pend = Cons.prems(2) [unfolded out_pending_def]
    have k: "k \<le> length s" by (simp add: k_def)
    have temp: "min n (nat (m_iov_len c)) = k" using pend by (simp add: k_def)
    have out: "mem_load (m_write_buf c) (m_iov_base c) k = take k s"
      using pend mem_load_take [OF k, of "m_write_buf c" "m_iov_base c"] by simp
    have linger: "m_linger c1 = m_linger c" by (simp add: c1_def)
    have run: "(if bytes_to_send c - int k \<le> 0
        then if m_linger c then (True, retain_pipelined_bytes c1, [Modfd (m_sockfd c) EPOLLIN (m_TRIGMode c)], take k s)
             else (False, c1, [Modfd (m_sockfd c) EPOLLIN (m_TRIGMode c)], take k s)
        else case write_loop ws c1 of (ok, c2, ops, out') \<Rightarrow> (ok, c2, ops, take k s @ out')) = (ok, c', ops, out)"
      using Cons.prems(1) unfolding Sent write_loop.simps Let_def temp out c1_def [symmetric] linger .
    have same: "same_input c c1" "same_socket c c1" by (simp_all add: c1_def same_input_def same_socket_def)
    show ?thesis
    proof (cases "length s \<le> k")
      case True
      then have "take k s = s" "bytes_to_send c - int k \<le> 0" using pend by simp_all
      with run same show ?thesis by (auto simp: sent_as_def split: if_splits)
    next
      case False
      then have more: "\<not> bytes_to_send c - int k \<le> 0" "drop k s \<noteq> []" using pend by simp_all
      obtain out' where w: "write_loop ws c1 = (ok, c', ops, out')" and o: "out = take k s @ out'"
        using run more(1) by (auto split: prod.splits)
      have "out_pending (drop k s) c1"
        using pend k mem_load_drop_n [OF k, of "m_write_buf c" "m_iov_base c"]
        by (auto simp: out_pending_def c1_def nat_add_distrib)
      from Cons.IH [OF w this more(2)] obtain r where r: "drop k s = out' @ r" "sent_as r c1 out' (ok, c', ops)" by blast
      have "s = out @ r" using r(1) o by (metis append_assoc append_take_drop_id)
      moreover have "sent_as r c out (ok, c', ops)"
        using r(2) same by (auto simp: sent_as_def same_input_def same_socket_def split: if_splits)
      ultimately show ?thesis by blast
    qed
  next
    case WriteIntr
    with Cons show ?thesis by simp
  qed (use Cons in \<open>auto simp: sent_as_def same_socket_def same_input_def\<close>)
qed

text \<open>The calls of \<open>write\<close> that one response takes: the event loop calls again each time the descriptor
  was armed for writing.  The result is what reached the peer, and whether the response is finished.\<close>

fun send_all :: "writev_result list list \<Rightarrow> http_conn \<Rightarrow> string \<times> bool" where
  "send_all [] c = ([], False)"
| "send_all (ws # wss) c =
     (case conn_write ws c of
        (ok, c', ops, out) \<Rightarrow>
          if ops = [Modfd (m_sockfd c) EPOLLOUT (m_TRIGMode c)]
          then (case send_all wss c' of (out', fin) \<Rightarrow> (out @ out', fin))
          else (out, ops = [Modfd (m_sockfd c) EPOLLIN (m_TRIGMode c)]))"

lemma send_all_pending:
  "out_pending s c \<Longrightarrow> s \<noteq> [] \<Longrightarrow> send_all wss c = (out, fin) \<Longrightarrow> \<exists>rest. s = out @ rest \<and> (fin \<longleftrightarrow> rest = [])"
proof (induction wss arbitrary: c s out)
  case (Cons ws wss)
  obtain ok c' ops o1 where w: "conn_write ws c = (ok, c', ops, o1)" by (cases "conn_write ws c") auto
  then have "write_loop ws c = (ok, c', ops, o1)"
    using Cons.prems(1,2) by (simp add: conn_write_def out_pending_def)
  from write_loop_pending [OF this Cons.prems(1,2)] obtain r where
    r: "s = o1 @ r" "sent_as r c o1 (ok, c', ops)" by blast
  show ?case
  proof (cases "ops = [Modfd (m_sockfd c) EPOLLOUT (m_TRIGMode c)]")
    case True
    with r have r': "r \<noteq> []" "out_pending r c'" by (auto simp: sent_as_def split: if_splits)
    obtain o2 where "send_all wss c' = (o2, fin)" "out = o1 @ o2"
      using Cons.prems(3) w True by (auto split: prod.splits)
    with Cons.IH [OF r'(2,1)] r(1) show ?thesis by auto
  next
    case False
    with Cons.prems(3) w have "out = o1" "fin \<longleftrightarrow> ops = [Modfd (m_sockfd c) EPOLLIN (m_TRIGMode c)]" by auto
    with r False show ?thesis by (auto simp: sent_as_def split: if_splits)
  qed
qed simp


lemma serialize_nonempty [simp]: "serialize hs resp \<noteq> []"
  by (simp add: serialize_def status_line_def)

text \<open>C5: A buffered response reaches the peer exactly once.  However the kernel splits the sends
  (short writes, interrupts, would-block with a later retry, errors), the bytes put on the wire are a
  prefix of the serialized response, and they are the whole of it exactly when the connection is
  handed back to reading.\<close>

theorem response_sent_exactly:
  assumes "process_write hs resp c = (True, c')" "bytes_have_send c = 0" "\<not> m_pending_close c"
    "send_all wss c' = (out, fin)"
  shows "\<exists>rest. serialize hs resp = out @ rest \<and> (fin \<longleftrightarrow> rest = [])"
  using process_write_pending(2) [OF assms(1-3)] send_all_pending [OF _ _ assms(4)] by simp

theorem response_sent_exactly_witness:
  "\<exists>c' out fin rest. process_write [] http_response_new blank = (True, c') \<and> bytes_have_send blank = 0
     \<and> \<not> m_pending_close blank \<and> send_all [[Sent 5, WriteIntr, WriteAgain], [Sent 100]] c' = (out, fin)
     \<and> serialize [] http_response_new = out @ rest \<and> (fin \<longleftrightarrow> rest = [])"
proof -
  obtain ok c' where pw: "process_write [] http_response_new blank = (ok, c')" by fastforce
  have "length (serialize [] http_response_new) < WRITE_BUFFER_SIZE" by code_simp
  with process_write_pending(1) [OF pw] have ok: "ok" by (simp add: blank_def)
  obtain out fin where "send_all [[Sent 5, WriteIntr, WriteAgain], [Sent 100]] c' = (out, fin)" by fastforce
  with response_sent_exactly [of "[]" http_response_new blank c' "[[Sent 5, WriteIntr, WriteAgain], [Sent 100]]"] pw ok
  show ?thesis by (auto simp: blank_def)
qed

section \<open>Stale workers\<close>

text \<open>The parser and the response leave the identity of the slot and its output side alone.\<close>

definition slot_view :: "http_conn \<Rightarrow> (u64 \<times> int \<times> int) \<times> (buffer \<times> nat \<times> nat \<times> int \<times> int \<times> int) \<times> bool" where
  "slot_view c = ((m_generation c, m_sockfd c, m_TRIGMode c),
     (m_write_buf c, m_write_idx c, m_iov_base c, m_iov_len c, bytes_to_send c, bytes_have_send c), m_pending_close c)"

definition same_slot :: "http_conn \<Rightarrow> http_conn \<Rightarrow> bool" where
  "same_slot c d \<longleftrightarrow> slot_view d = slot_view c"

lemma slot_view_frame [simp]:
  "slot_view (c\<lparr>m_read_buf := b\<rparr>) = slot_view c" "slot_view (c\<lparr>m_read_idx := n\<rparr>) = slot_view c"
  "slot_view (c\<lparr>m_checked_idx := n\<rparr>) = slot_view c" "slot_view (c\<lparr>m_start_line := n\<rparr>) = slot_view c"
  "slot_view (c\<lparr>m_check_state := st\<rparr>) = slot_view c" "slot_view (c\<lparr>m_method := m\<rparr>) = slot_view c"
  "slot_view (c\<lparr>m_request := r\<rparr>) = slot_view c" "slot_view (c\<lparr>m_url := p\<rparr>) = slot_view c"
  "slot_view (c\<lparr>m_version := p\<rparr>) = slot_view c" "slot_view (c\<lparr>m_host := p\<rparr>) = slot_view c"
  "slot_view (c\<lparr>m_content_length := i\<rparr>) = slot_view c" "slot_view (c\<lparr>m_linger := l\<rparr>) = slot_view c"
  by (simp_all add: slot_view_def)

lemma same_slot_trans: "same_slot c d \<Longrightarrow> same_slot d e \<Longrightarrow> same_slot c e"
  by (simp add: same_slot_def)

lemma same_slot_generation: "same_slot c d \<Longrightarrow> m_generation d = m_generation c"
  by (simp add: same_slot_def slot_view_def)

lemma parse_line_slot: "parse_line c = (ls, c') \<Longrightarrow> same_slot c c'"
proof (induction c arbitrary: ls c' rule: parse_line.induct)
  case (1 c)
  from 1(2) show ?case
    by (subst (asm) parse_line.simps)
      (use 1(1) in \<open>fastforce simp: Let_def same_slot_def split: if_splits\<close>)
qed

lemma set_request_header_slot [simp]: "slot_view (set_request_header n v c) = slot_view c"
  by (simp add: set_request_header_def)

lemma parse_request_line_slot: "parse_request_line t c = (r, c') \<Longrightarrow> slot_view c' = slot_view c"
  unfolding parse_request_line_def parse_target_def finish_request_line_def Let_def
  by (auto split: if_splits prod.splits option.splits)

lemma parse_headers_slot: "parse_headers t c = (r, c') \<Longrightarrow> slot_view c' = slot_view c"
  unfolding parse_headers_def Let_def by (auto split: if_splits prod.splits option.splits)

lemma process_line_slot: "process_line c = (fl, c') \<Longrightarrow> same_slot c c'"
  unfolding process_line_def parse_content_def same_slot_def Let_def
  by (auto split: check_state.splits if_splits prod.splits dest!: parse_request_line_slot parse_headers_slot)

lemma read_turn_slot:
  assumes "read_turn ls c = (r, c')"
  shows "same_slot c c'"
proof -
  obtain ls1 c1 where st: "next_line_status ls c = (ls1, c1)" by (cases "next_line_status ls c")
  obtain fl c2 where pl: "process_line c1 = (fl, c2)" by (cases "process_line c1")
  have "same_slot c c1"
    using st parse_line_slot [of c] by (auto simp: next_line_status_def same_slot_def split: if_splits)
  moreover from this have "same_slot c c2" by (rule same_slot_trans [OF _ process_line_slot [OF pl]])
  ultimately show ?thesis using assms st pl by (cases ls1; cases fl) (simp_all add: read_turn_def)
qed

lemma response_for_slot: "response_for lib routes ret c s = (r, c', s') \<Longrightarrow> same_slot c c'"
  by (auto simp: response_for_def with_request_def same_slot_def split: if_splits prod.splits sum.splits bool.splits)

text \<open>A worker that nobody disturbs does what \<open>process\<close> computes.\<close>

definition undisturbed ::
  "((string \<rightharpoonup> string) \<Rightarrow> (string \<times> string) list) \<Rightarrow> json_lib \<Rightarrow> 's route list \<Rightarrow> u64
     \<Rightarrow> 's worker_config \<Rightarrow> 's worker_config \<Rightarrow> bool" where
  "undisturbed order lib routes gen = (\<lambda>w w'. worker_next order lib routes gen w = Some w')\<^sup>*\<^sup>*"

lemma undisturbed_step:
  "worker_next order lib routes gen w = Some w1 \<Longrightarrow> undisturbed order lib routes gen w1 w' \<Longrightarrow>
     undisturbed order lib routes gen w w'"
  unfolding undisturbed_def by (rule converse_rtranclp_into_rtranclp)

lemma undisturbed_refl: "undisturbed order lib routes gen w w"
  by (simp add: undisturbed_def)

lemma undisturbed_reads:
  "process_read_loop ls c = (ret, c1) \<Longrightarrow>
     undisturbed order lib routes gen (if ret = NO_REQUEST then PcArming EPOLLIN else PcAnswering ret, c1, s, ops, obs) w \<Longrightarrow>
     undisturbed order lib routes gen (PcReading ls, c, s, ops, obs) w"
proof (induction ls c rule: process_read_loop.induct)
  case (1 ls c)
  obtain ls1 c2 where st: "next_line_status ls c = (ls1, c2)" by (cases "next_line_status ls c")
  obtain fl c3 where pl: "process_line c2 = (fl, c3)" by (cases "process_line c2")
  note unf = process_read_loop.simps [of ls c]
  consider (cont) ls' where "ls1 = LINE_OK" "fl = Continue ls'" | (stop) "ls1 \<noteq> LINE_OK \<or> (\<exists>r. fl = Return r)"
    by (cases fl) auto
  then show ?case
  proof cases
    case cont
    with "1.prems"(1) unf st pl have "process_read_loop ls' c3 = (ret, c1)" by simp
    with "1.IH" [OF st [unfolded cont(1), symmetric] refl pl [unfolded cont(2), symmetric] refl] "1.prems"(2)
    have "undisturbed order lib routes gen (PcReading ls', c3, s, ops, obs) w" by simp
    moreover have "worker_next order lib routes gen (PcReading ls, c, s, ops, obs) = Some (PcReading ls', c3, s, ops, obs)"
      using st pl cont by (simp add: read_turn_def)
    ultimately show ?thesis by (metis undisturbed_step)
  next
    case stop
    with "1.prems"(1) unf st pl have "read_turn ls c = (Inr ret, c1)"
      by (auto simp: read_turn_def split: line_status.splits if_splits)
    then have "worker_next order lib routes gen (PcReading ls, c, s, ops, obs)
        = Some (if ret = NO_REQUEST then PcArming EPOLLIN else PcAnswering ret, c1, s, ops, obs)" by simp
    from undisturbed_step [OF this "1.prems"(2)] show ?thesis .
  qed
qed

lemma undisturbed_arms:
  "undisturbed order lib routes gen (PcArming ev, c, s, ops, obs)
     (PcDone, c, s, ops @ snd (arm_epoll_if_current gen ev c), obs)"
  by (rule undisturbed_step [OF worker_next.simps(9)], cases "\<not> generation_matches c gen \<or> m_sockfd c < 0")
    (auto simp: arm_epoll_if_current_def undisturbed_refl intro: undisturbed_step [OF worker_next.simps(10)])

lemma undisturbed_finishes:
  "undisturbed order lib routes gen (PcFinishing resp, c, s, ops, obs)
     (PcDone, fst (process_finish (order (resp_headers resp)) gen resp c), s,
      ops @ snd (process_finish (order (resp_headers resp)) gen resp c), obs)"
proof (cases "generation_matches c gen")
  case True
  obtain ok c' where pw: "process_write (order (resp_headers resp)) resp c = (ok, c')" by fastforce
  have "undisturbed order lib routes gen (PcWriting resp, c, s, ops, obs)
     (PcDone, fst (process_finish (order (resp_headers resp)) gen resp c), s,
      ops @ snd (process_finish (order (resp_headers resp)) gen resp c), obs)"
  proof (cases ok)
    case True
    with pw \<open>generation_matches c gen\<close> show ?thesis
      by (intro undisturbed_step [of _ _ _ _ "(PcWriting resp, c, s, ops, obs)" "(PcArming EPOLLOUT, c', s, ops, obs)"])
        (simp_all add: process_finish_def undisturbed_arms)
  next
    case False
    show ?thesis
    proof (cases "generation_matches c' gen \<and> m_sockfd c' \<ge> 0")
      case True
      have "undisturbed order lib routes gen (PcFailed, c', s, ops, obs)
        (PcDone, c'\<lparr>m_pending_close := True\<rparr>, s, ops @ snd (arm_epoll_if_current gen EPOLLOUT (c'\<lparr>m_pending_close := True\<rparr>)), obs)"
        using True by (intro undisturbed_step [OF worker_next.simps(7)])
          (simp add: undisturbed_step [OF worker_next.simps(8)] undisturbed_arms)
      with True \<open>\<not> ok\<close> pw \<open>generation_matches c gen\<close> show ?thesis
        by (intro undisturbed_step [of _ _ _ _ "(PcWriting resp, c, s, ops, obs)" "(PcFailed, c', s, ops, obs)"])
          (simp_all add: process_finish_def Let_def)
    next
      case no: False
      then have "undisturbed order lib routes gen (PcFailed, c', s, ops, obs) (PcDone, c', s, ops, obs)"
        by (intro undisturbed_step [OF worker_next.simps(7)]) (auto simp: undisturbed_refl)
      moreover have "process_finish (order (resp_headers resp)) gen resp c = (c', [])"
        using no \<open>\<not> ok\<close> pw \<open>generation_matches c gen\<close> by (auto simp: process_finish_def)
      ultimately show ?thesis using \<open>\<not> ok\<close> pw
        by (intro undisturbed_step [of _ _ _ _ "(PcWriting resp, c, s, ops, obs)" "(PcFailed, c', s, ops, obs)"]) simp_all
    qed
  qed
  with True show ?thesis by (intro undisturbed_step [OF worker_next.simps(5)]) simp
next
  case False
  then show ?thesis
    by (intro undisturbed_step [OF worker_next.simps(5)]) (simp add: process_finish_def undisturbed_refl)
qed

theorem process_is_a_run:
  assumes "process order lib routes gen c s = (Inr (c', ops, obs), s')"
  shows "undisturbed order lib routes gen (PcStart, c, s, [], []) (PcDone, c', s', ops, obs)"
proof (cases "generation_matches c gen")
  case True
  obtain ret c1 where pr: "process_read c = (ret, c1)" by (cases "process_read c")
  have "undisturbed order lib routes gen (if ret = NO_REQUEST then PcArming EPOLLIN else PcAnswering ret, c1, s, [], [])
      (PcDone, c', s', ops, obs)"
  proof (cases "ret = NO_REQUEST")
    case no: True
    with assms True pr undisturbed_arms [of order lib routes gen EPOLLIN c1 s "[]" "[]"] show ?thesis
      by (auto simp: process_def)
  next
    case False
    obtain r c2 s2 where rf: "response_for lib routes ret c1 s = (r, c2, s2)" by (cases "response_for lib routes ret c1 s") auto
    with assms True pr False obtain resp where resp: "r = Inr resp" by (cases r) (simp_all add: process_def)
    let ?resp = "connection_header c2 resp"
    have "undisturbed order lib routes gen (PcAnswered resp, c2, s2, [], []) (PcDone, c', s', ops, obs)"
      using assms True pr False rf resp
        undisturbed_finishes [of order lib routes gen ?resp c2 s2 "[]" "observe_request (m_request c2) (status_code ?resp)"]
      by (intro undisturbed_step [OF worker_next.simps(4) [unfolded Let_def]])
        (simp add: process_def Let_def split: prod.splits)
    moreover have "worker_next order lib routes gen (PcAnswering ret, c1, s, [], []) = Some (PcAnswered resp, c2, s2, [], [])"
      using rf resp by simp
    ultimately show ?thesis using False by (simp add: undisturbed_step)
  qed
  with undisturbed_reads [OF pr [unfolded process_read_def]] True show ?thesis
    by (intro undisturbed_step [OF worker_next.simps(1)]) simp
next
  case False
  with assms show ?thesis
    by (intro undisturbed_step [OF worker_next.simps(1)]) (simp add: process_def undisturbed_refl)
qed

text \<open>Where a close goes unnoticed: after a test of the generation and before the statement it guards.\<close>

fun guarded :: "worker_pc \<Rightarrow> bool" where
  "guarded (PcWriting resp) = False"
| "guarded PcPending = False"
| "guarded (PcModfd ev) = False"
| "guarded _ = True"

lemma worker_next_stale:
  assumes "worker_next order lib routes gen (pc, c, s, ops, obs) = Some (pc', c', s', ops', obs')"
    "guarded pc" "m_generation c \<noteq> gen"
  shows "guarded pc' \<and> same_slot c c' \<and> ops' = ops"
proof (cases pc)
  case (PcReading ls)
  with assms(1) read_turn_slot [of ls c] show ?thesis by (auto split: prod.splits sum.splits if_splits)
next
  case (PcAnswering ret)
  with assms(1) response_for_slot [of lib routes ret c s] show ?thesis by (auto split: prod.splits sum.splits)
qed (use assms in \<open>auto simp: generation_matches_def current_generation_def same_slot_def Let_def\<close>)

lemma worker_next_generation:
  assumes "worker_next order lib routes gen (pc, c, s, ops, obs) = Some (pc', c', s', ops', obs')"
  shows "m_generation c' = m_generation c"
proof (cases pc)
  case (PcReading ls)
  with assms show ?thesis by (auto dest!: read_turn_slot same_slot_generation split: prod.splits sum.splits if_splits)
next
  case (PcAnswering ret)
  with assms show ?thesis by (auto dest!: response_for_slot same_slot_generation split: prod.splits sum.splits)
next
  case (PcWriting resp)
  with assms show ?thesis by (auto simp: process_write_def Let_def split: prod.splits if_splits bool.splits)
qed (use assms in \<open>auto simp: Let_def\<close>)

text \<open>The generation counts the closes and the reuses, modulo \<open>2^64\<close>.\<close>

lemma worker_run_generation:
  assumes "(worker_step order lib routes gen)\<^sup>*\<^sup>* w w'"
    and "m_generation (fst (snd (fst w))) = gen + of_nat (snd w)"
  shows "m_generation (fst (snd (fst w'))) = gen + of_nat (snd w') \<and> snd w \<le> snd w'"
  using assms
proof (induction rule: rtranclp_induct)
  case (step v w')
  then have v: "m_generation (fst (snd (fst v))) = gen + of_nat (snd v)" "snd w \<le> snd v" by simp_all
  from step.hyps(2) v show ?case
  proof cases
    case (worker_acts w1 w1' n)
    with v worker_next_generation show ?thesis by (metis fst_conv prod.collapse snd_conv)
  qed (auto simp: invalidate_def conn_init_def init_parser_def)
qed simp

lemma small_count_nonzero: "0 < n \<Longrightarrow> n < 2 ^ 64 \<Longrightarrow> (of_nat n :: u64) \<noteq> 0"
  by (auto simp: word_of_nat_eq_0_iff dest: nat_dvd_not_less)

lemma stale_run:
  assumes "(worker_step order lib routes gen)\<^sup>*\<^sup>* ((pc1, c1, s1, ops1, obs1), n1) w" "snd w < 2 ^ 64"
    and "guarded pc1" "m_generation c1 = gen + of_nat n1" "0 < n1"
  shows "guarded (fst (fst w)) \<and> fst (snd (snd (snd (fst w)))) = ops1 \<and> m_generation (fst (snd (fst w))) \<noteq> gen"
  using assms(1,2)
proof (induction rule: rtranclp_induct)
  case base
  have "(of_nat n1 :: u64) \<noteq> 0" by (rule small_count_nonzero [OF assms(5)]) (use base in simp)
  with assms(3,4) show ?case by simp
next
  case (step v w)
  have "(worker_step order lib routes gen)\<^sup>*\<^sup>* ((pc1, c1, s1, ops1, obs1), n1) w" using step.hyps by simp
  from worker_run_generation [OF this] assms(4)
  have gen: "m_generation (fst (snd (fst w))) = gen + of_nat (snd w)" "n1 \<le> snd w" by simp_all
  have "snd v \<le> snd w" using step.hyps(2) by cases auto
  with step have IH: "guarded (fst (fst v))" "fst (snd (snd (snd (fst v)))) = ops1" "m_generation (fst (snd (fst v))) \<noteq> gen"
    by simp_all
  have "(of_nat (snd w) :: u64) \<noteq> 0" using gen(2) assms(5) step.prems by (intro small_count_nonzero) simp_all
  with gen(1) have "m_generation (fst (snd (fst w))) \<noteq> gen" by simp
  moreover have "guarded (fst (fst w)) \<and> fst (snd (snd (snd (fst w)))) = ops1"
    using step.hyps(2)
  proof cases
    case (worker_acts v1 w1 n)
    obtain pc c s ops obs where v1: "v1 = (pc, c, s, ops, obs)" by (cases v1)
    obtain pc' c' s' ops' obs' where w1: "w1 = (pc', c', s', ops', obs')" by (cases w1)
    from worker_acts IH worker_next_stale [of order lib routes gen pc c s ops obs pc' c' s' ops' obs'] show ?thesis
      unfolding v1 w1 by auto
  qed (use IH in auto)
  ultimately show ?case by blast
qed

text \<open>C6: What a worker does to a slot that was closed, or closed and given to a new connection, under it.  The
  worker runs in any interleaving with threads that may change the slot and the services in any way.  If the
  slot was closed or reused at a point that is not between a test of the generation and the statement it
  guards (\<open>guarded\<close>), then from there on the worker arms no descriptor, and no step of it changes the identity
  of the slot (generation, descriptor) or its output side (write buffer, bytes to send, pending close): no response
  of the old connection reaches the new one.  The parser may still run over the input of the slot.  The
  generation is a 64-bit counter: fewer than \<open>2^64\<close> closes and reuses happen meanwhile.  In the three windows that \<open>guarded\<close>
  leaves out the close goes unnoticed (\<open>check_to_modfd_race\<close>, \<open>check_to_write_race\<close>).\<close>

theorem stale_worker_silent:
  assumes "(worker_step order lib routes (current_generation c0))\<^sup>*\<^sup>*
      ((PcStart, c0, s0, [], []), 0) ((pc1, c1, s1, ops1, obs1), n1)" "guarded pc1" "0 < n1"
    and "(worker_step order lib routes (current_generation c0))\<^sup>*\<^sup>*
      ((pc1, c1, s1, ops1, obs1), n1) ((pc2, c2, s2, ops2, obs2), n2)" "n2 < 2 ^ 64"
    and "worker_next order lib routes (current_generation c0) (pc2, c2, s2, ops2, obs2) = Some (pc3, c3, s3, ops3, obs3)"
  shows "ops2 = ops1 \<and> ops3 = ops1 \<and> same_slot c2 c3"
proof -
  have "m_generation c1 = current_generation c0 + of_nat n1"
    using worker_run_generation [OF assms(1)] by (simp add: current_generation_def)
  from stale_run [OF assms(4) _ assms(2) this assms(3)] assms(5)
  have "guarded pc2" "ops2 = ops1" "m_generation c2 \<noteq> current_generation c0" by simp_all
  with worker_next_stale [OF assms(6)] show ?thesis by simp
qed

text \<open>The windows.  A close and a reuse between the test in \<open>arm_epoll_if_current\<close> and \<open>modfd\<close>: the worker arms
  the descriptor of the new connection.  Between the second test of \<open>process\<close> and \<open>process_write\<close>: the response of the
  old connection is put into the buffer of the new one.\<close>

theorem check_to_modfd_race:
  assumes "generation_matches c gen" "0 \<le> m_sockfd c"
  shows "(worker_step order lib routes gen)\<^sup>*\<^sup>* ((PcArming ev, c, s, ops, obs), n)
     ((PcDone, conn_init fd trig (invalidate c), s, ops @ [Modfd fd ev trig], obs), Suc (Suc n))"
proof -
  let ?d = "conn_init fd trig (invalidate c)"
  have "worker_step order lib routes gen ((PcArming ev, c, s, ops, obs), n) ((PcModfd ev, c, s, ops, obs), n)"
    using assms by (intro worker_acts) simp
  moreover have "worker_step order lib routes gen ((PcModfd ev, ?d, s, ops, obs), Suc (Suc n))
      ((PcDone, ?d, s, ops @ [Modfd fd ev trig], obs), Suc (Suc n))"
    by (rule worker_acts) (simp add: conn_init_def init_parser_def)
  ultimately show ?thesis
    using slot_closed [of order lib routes gen "PcModfd ev" c s ops obs n]
      slot_reused [of order lib routes gen "PcModfd ev" "invalidate c" s ops obs "Suc n" fd trig]
    by (meson converse_rtranclp_into_rtranclp r_into_rtranclp)
qed

theorem check_to_write_race:
  assumes "generation_matches c gen" "length (serialize (order (resp_headers resp)) resp) < WRITE_BUFFER_SIZE"
  shows "\<exists>d. (worker_step order lib routes gen)\<^sup>*\<^sup>* ((PcFinishing resp, c, s, ops, obs), n)
      ((PcArming EPOLLOUT, d, s, ops, obs), Suc (Suc n)) \<and> m_sockfd d = fd \<and> m_generation d = m_generation c + 2
      \<and> out_pending (serialize (order (resp_headers resp)) resp) d"
proof -
  let ?c = "conn_init fd trig (invalidate c)" and ?hs = "order (resp_headers resp)"
  obtain ok d where pw: "process_write ?hs resp ?c = (ok, d)" by fastforce
  have c: "bytes_have_send ?c = 0" "\<not> m_pending_close ?c" by (simp_all add: conn_init_def init_parser_def)
  from process_write_pending [OF pw c] assms(2) have ok: "ok" "out_pending (serialize ?hs resp) d" by simp_all
  have "m_sockfd d = fd" "m_generation d = m_generation c + 2"
    using pw by (auto simp: process_write_def Let_def conn_init_def init_parser_def invalidate_def split: if_splits)
  moreover have "worker_step order lib routes gen ((PcFinishing resp, c, s, ops, obs), n) ((PcWriting resp, c, s, ops, obs), n)"
    "worker_step order lib routes gen ((PcWriting resp, ?c, s, ops, obs), Suc (Suc n))
      ((PcArming EPOLLOUT, d, s, ops, obs), Suc (Suc n))"
    using pw ok(1) assms(1) by (auto intro!: worker_acts)
  then have "(worker_step order lib routes gen)\<^sup>*\<^sup>* ((PcFinishing resp, c, s, ops, obs), n)
      ((PcArming EPOLLOUT, d, s, ops, obs), Suc (Suc n))"
    using slot_closed [of order lib routes gen "PcWriting resp" c s ops obs n]
      slot_reused [of order lib routes gen "PcWriting resp" "invalidate c" s ops obs "Suc n" fd trig]
    by (meson converse_rtranclp_into_rtranclp r_into_rtranclp)
  ultimately show ?thesis using ok(2) by blast
qed

definition demo_lib :: json_lib where
  "demo_lib = \<lparr>json_parse = (\<lambda>_. Inr JNull), json_dump = (\<lambda>_. Inr [])\<rparr>"

theorem stale_worker_silent_witness:
  "\<exists>c2 w3. (worker_step (\<lambda>_. []) demo_lib [] (current_generation (conn_init 7 0 blank)))\<^sup>*\<^sup>*
      ((PcStart, conn_init 7 0 blank, (), [], []), 0) ((PcArming EPOLLIN, c2, (), [], []), 2)
    \<and> worker_next (\<lambda>_. []) demo_lib [] (current_generation (conn_init 7 0 blank)) (PcArming EPOLLIN, c2, (), [], []) = Some w3
    \<and> fst (snd (snd (snd w3))) = [] \<and> same_slot c2 (fst (snd w3))"
proof -
  let ?c0 = "conn_init 7 0 blank" let ?d = "conn_init 7 0 (invalidate ?c0)"
  let ?R = "worker_step (\<lambda>_. []) demo_lib [] (current_generation ?c0)"
    and ?next = "worker_next (\<lambda>_. []) demo_lib [] (current_generation ?c0)"
  have "?R ((PcStart, ?c0, (), [], []), 0) ((PcReading LINE_OK, ?c0, (), [], []), 0)"
    by (rule worker_acts) (simp add: generation_matches_def)
  then have 1: "?R\<^sup>*\<^sup>* ((PcStart, ?c0, (), [], []), 0) ((PcReading LINE_OK, invalidate ?c0, (), [], []), 1)"
    using slot_closed [of "\<lambda>_. []" demo_lib "[]" "current_generation ?c0" "PcReading LINE_OK" ?c0 "()" "[]" "[]" 0]
    by (simp add: converse_rtranclp_into_rtranclp)
  have turn: "read_turn LINE_OK ?d = (Inr NO_REQUEST, ?d)"
    by (simp add: read_turn_def next_line_status_def parse_line.simps conn_init_def init_parser_def READ_BUFFER_SIZE_def)
  have "?R ((PcReading LINE_OK, ?d, (), [], []), 2) ((PcArming EPOLLIN, ?d, (), [], []), 2)"
    by (rule worker_acts) (simp add: turn)
  moreover have "?R ((PcReading LINE_OK, invalidate ?c0, (), [], []), 1) ((PcReading LINE_OK, ?d, (), [], []), 2)"
    using slot_reused [of "\<lambda>_. []" demo_lib "[]" "current_generation ?c0" "PcReading LINE_OK" "invalidate ?c0" "()" "[]" "[]" 1 7 0]
    by (simp add: numeral_2_eq_2)
  ultimately have 2: "?R\<^sup>*\<^sup>* ((PcReading LINE_OK, invalidate ?c0, (), [], []), 1) ((PcArming EPOLLIN, ?d, (), [], []), 2)"
    by (simp add: converse_rtranclp_into_rtranclp)
  obtain pc3 c3 s3 ops3 obs3 where 3: "?next (PcArming EPOLLIN, ?d, (), [], []) = Some (pc3, c3, s3, ops3, obs3)"
    by (cases "?next (PcArming EPOLLIN, ?d, (), [], [])") auto
  from stale_worker_silent [OF 1 _ _ 2 _ 3] have "ops3 = []" "same_slot ?d c3" by simp_all
  then show ?thesis using rtranclp_trans [OF 1 2] 3
    by (intro exI [of _ ?d] exI [of _ "(pc3, c3, s3, ops3, obs3)"] conjI) (simp_all del: worker_next.simps)
qed

section \<open>States of a connection\<close>

text \<open>A connection is idle while it waits for the rest of a request and busy while a response is leaving.
  The steps are the calls the event loop and its workers make: \<open>accept\<close>, \<open>recv\<close> (\<open>read_once\<close> that
  did not ask for the connection to be closed), \<open>wait\<close> and \<open>respond\<close> (\<open>process\<close>, without and
  with a response), \<open>resume\<close> and \<open>finish\<close> (\<open>write\<close>, leaving bytes unsent, and completing a
  response on a connection kept alive).\<close>

inductive conn_idle :: "json_lib \<Rightarrow> 's route list \<Rightarrow> http_conn \<Rightarrow> bool"
  and conn_busy :: "json_lib \<Rightarrow> 's route list \<Rightarrow> http_conn \<Rightarrow> bool"
  for lib :: json_lib and routes :: "'s route list" where
  conn_accept: "conn_idle lib routes (conn_init fd trig c)"
| conn_recv: "conn_idle lib routes c \<Longrightarrow> read_once rs c = (True, c') \<Longrightarrow> conn_idle lib routes c'"
| conn_wait: "conn_idle lib routes c \<Longrightarrow> process_read c = (NO_REQUEST, c') \<Longrightarrow> conn_idle lib routes c'"
| conn_respond: "conn_idle lib routes c \<Longrightarrow> process_read c = (ret, c1) \<Longrightarrow> ret \<noteq> NO_REQUEST \<Longrightarrow>
    response_for lib routes ret c1 s = (Inr resp, c2, s') \<Longrightarrow>
    process_finish hs (current_generation c2) resp' c2 = (c', ops) \<Longrightarrow> conn_busy lib routes c'"
| conn_resume: "conn_busy lib routes c \<Longrightarrow> conn_write ws c = (True, c', [Modfd fd EPOLLOUT trig], out) \<Longrightarrow>
    conn_busy lib routes c'"
| conn_finish: "conn_busy lib routes c \<Longrightarrow> conn_write ws c = (True, c', [Modfd fd EPOLLIN trig], out) \<Longrightarrow>
    conn_idle lib routes c'"

text \<open>The input side while idle: in the content state only the cursors are constrained.\<close>

definition input_ok :: "http_conn \<Rightarrow> bool" where
  "input_ok c \<longleftrightarrow> cursors_ok c \<and> 0 \<le> m_content_length c
     \<and> (m_check_state c \<noteq> CHECK_STATE_CONTENT \<longrightarrow> clean c)"

lemma input_ok_between: "m_check_state c \<noteq> CHECK_STATE_CONTENT \<Longrightarrow> input_ok c \<longleftrightarrow> between_lines c"
  by (auto simp: input_ok_def between_lines_def clean_def)

lemma loaded_input_ok: "loaded s c \<Longrightarrow> input_ok c"
  using loaded_between [of s c] by (simp add: input_ok_def between_lines_def)

lemma store_received_input_ok:
  assumes "input_ok c"
  shows "input_ok (store_received bs c)"
  using assms store_received_clean [of c bs]
  by (auto simp: input_ok_def cursors_ok_def min_def)

lemma read_loop_input_ok: "input_ok c \<Longrightarrow> read_loop rs got c = (ok, c') \<Longrightarrow> input_ok c'"
proof (induction rs arbitrary: got c)
  case (Cons r rs)
  then show ?case
    using Cons.IH [OF store_received_input_ok] by (auto split: if_splits recv_result.splits)
qed simp

lemma read_once_input_ok: "input_ok c \<Longrightarrow> read_once rs c = (ok, c') \<Longrightarrow> input_ok c'"
  by (auto simp: read_once_def store_received_input_ok dest: read_loop_input_ok
      split: if_splits list.splits recv_result.splits)

text \<open>In the content state the loop stays there and only looks for line ends.\<close>

lemma content_loop_frame:
  "process_read_loop ls c = (ret, c') \<Longrightarrow> m_check_state c = CHECK_STATE_CONTENT \<Longrightarrow>
   m_check_state c' = CHECK_STATE_CONTENT \<and> m_content_length c' = m_content_length c"
proof (induction ls c rule: process_read_loop.induct)
  case (1 ls c)
  obtain ls1 c1 where st: "next_line_status ls c = (ls1, c1)" by (cases "next_line_status ls c")
  then have s1: "m_check_state c1 = CHECK_STATE_CONTENT" "m_content_length c1 = m_content_length c"
    using parse_line_cursor [of c ls1 c1] 1(3) by (auto simp: next_line_status_def split: if_splits)
  obtain fl c2 where pl: "process_line c1 = (fl, c2)" by (cases "process_line c1")
  then have s2: "m_check_state c2 = CHECK_STATE_CONTENT" "m_content_length c2 = m_content_length c"
    using s1 by (auto simp: process_line_def parse_content_def Let_def split: if_splits)
  show ?case
  proof (cases "ls1 = LINE_OK")
    case ok: True
    show ?thesis
    proof (cases fl)
      case (Return r)
      with 1(2) st ok pl s2 show ?thesis by (subst (asm) process_read_loop.simps) simp
    next
      case (Continue ls')
      with 1(2) st ok pl have "process_read_loop ls' c2 = (ret, c')"
        by (subst (asm) process_read_loop.simps) simp
      with 1(1) [OF st [unfolded ok, symmetric] refl pl [unfolded Continue, symmetric] refl] s2
      show ?thesis using ok by simp
    qed
  next
    case False
    with 1(2) st s1 show ?thesis
      by (subst (asm) process_read_loop.simps) (auto split: line_status.splits if_splits)
  qed
qed

lemma process_read_wait_input_ok:
  assumes "input_ok c" "process_read c = (NO_REQUEST, c')"
  shows "input_ok c'"
proof -
  have cur: "cursors_ok c'" using process_read_cursors [OF assms(2)] assms(1) by (simp add: input_ok_def)
  show ?thesis
  proof (cases "m_check_state c = CHECK_STATE_CONTENT \<or> awaits_body c")
    case False
    with process_read_waiting [of c c'] assms show ?thesis
      by (auto simp: input_ok_between) (simp add: input_ok_def between_lines_def clean_def)
  next
    case True
    have "m_check_state c' = CHECK_STATE_CONTENT \<and> 0 \<le> m_content_length c'"
    proof (cases "m_check_state c = CHECK_STATE_CONTENT")
      case True
      with content_loop_frame assms show ?thesis by (auto simp: process_read_def input_ok_def)
    next
      case False
      with assms have b: "between_lines c" by (simp add: input_ok_between)
      obtain p pos s where w: "spec_run (m_start_line c) (pstate_of c) (input c) = WaitBody p pos s"
        using True False by (auto simp: awaits_body_def split: outcome.splits)
      from process_read_agrees [OF b assms(2)] obtain c1 where c1: "pstate_of c1 = p"
        "process_read_loop LINE_OK c1 = (NO_REQUEST, c')" unfolding w agrees_def by auto
      have "0 \<le> p_len p \<and> p_state p = CHECK_STATE_CONTENT"
        using spec_run_len [of "pstate_of c" "m_start_line c" "input c"] b w by (simp add: between_lines_def)
      then show ?thesis using content_loop_frame [OF c1(2)] c1(1) by auto
    qed
    with cur show ?thesis by (simp add: input_ok_def)
  qed
qed

lemma process_finish_input:
  "process_finish hs gen resp c = (c', ops) \<Longrightarrow> same_input c c'"
  by (auto simp: process_finish_def process_write_def same_input_def Let_def split: if_splits)

lemma response_for_input: "response_for lib routes ret c s = (r, c', s') \<Longrightarrow> same_input c c'"
  by (auto simp: response_for_def with_request_def same_input_def split: if_splits prod.splits sum.splits bool.splits)

lemma same_input_cursors: "same_input c c' \<Longrightarrow> cursors_ok c' \<longleftrightarrow> cursors_ok c"
  by (simp add: same_input_def cursors_ok_def)

lemma write_loop_input:
  "write_loop ws c = (True, c', ops, out) \<Longrightarrow>
     (\<exists>fd trig. ops = [Modfd fd EPOLLOUT trig]) \<and> same_input c c'
     \<or> (\<exists>fd trig. ops = [Modfd fd EPOLLIN trig]) \<and> (\<exists>d. c' = retain_pipelined_bytes d \<and> same_input c d)"
proof (induction ws arbitrary: c c' ops out)
  case (Cons w ws)
  show ?case
  proof (cases w)
    case (Sent n)
    define k where "k = min n (nat (m_iov_len c))"
    define c1 where "c1 = c\<lparr>bytes_have_send := bytes_have_send c + int k, bytes_to_send := bytes_to_send c - int k,
       m_iov_base := nat (bytes_have_send c + int k), m_iov_len := bytes_to_send c - int k\<rparr>"
    have same: "same_input c c1" by (simp add: c1_def same_input_def)
    consider "c' = retain_pipelined_bytes c1" "ops = [Modfd (m_sockfd c) EPOLLIN (m_TRIGMode c)]"
    | out' where "write_loop ws c1 = (True, c', ops, out')"
      using Cons.prems unfolding Sent write_loop.simps Let_def k_def [symmetric] c1_def [symmetric]
      by (auto split: if_splits prod.splits)
    then show ?thesis
    proof cases
      case 1
      with same show ?thesis by blast
    next
      case 2
      from Cons.IH [OF this] same show ?thesis by (auto simp: same_input_def)
    qed
  qed (use Cons in \<open>auto simp: same_input_def\<close>)
qed (simp add: same_input_def)

lemma conn_write_busy:
  assumes "conn_write ws c = (True, c', [Modfd fd ev trig], out)" "cursors_ok c"
  shows "if ev = EPOLLOUT then cursors_ok c' else \<exists>s. loaded s c'"
proof (cases "bytes_to_send c = 0")
  case True
  with assms retain_loaded show ?thesis by (auto simp: conn_write_def split: if_splits)
next
  case False
  with assms(1) have "write_loop ws c = (True, c', [Modfd fd ev trig], out)"
    by (auto simp: conn_write_def split: if_splits)
  from write_loop_input [OF this] assms(2) retain_loaded show ?thesis
    by (cases ev) (simp_all add: same_input_cursors, use same_input_cursors in blast)
qed

lemma conn_states_ok:
  "(conn_idle lib routes c \<longrightarrow> input_ok c) \<and> (conn_busy lib routes d \<longrightarrow> cursors_ok d)"
proof (rule conn_idle_conn_busy.induct)
  fix fd trig c
  show "input_ok (conn_init fd trig c)" using conn_init_loaded loaded_input_ok by blast
next
  fix c rs c'
  assume "input_ok c" "read_once rs c = (True, c')"
  then show "input_ok c'" by (rule read_once_input_ok)
next
  fix c c'
  assume "input_ok c" "process_read c = (NO_REQUEST, c')"
  then show "input_ok c'" by (rule process_read_wait_input_ok)
next
  fix c ret c1 s resp c2 s' hs resp' c' ops
  assume "input_ok c" "process_read c = (ret, c1)" "response_for lib routes ret c1 s = (Inr resp, c2, s')"
    "process_finish hs (current_generation c2) resp' c2 = (c', ops)"
  then show "cursors_ok c'"
    using process_read_cursors response_for_input process_finish_input same_input_cursors
    by (metis input_ok_def)
next
  fix c ws c' fd trig out
  assume "cursors_ok c" "conn_write ws c = (True, c', [Modfd fd EPOLLOUT trig], out)"
  then show "cursors_ok c'" using conn_write_busy by fastforce
next
  fix c ws c' fd trig out
  assume "cursors_ok c" "conn_write ws c = (True, c', [Modfd fd EPOLLIN trig], out)"
  then show "input_ok c'" using conn_write_busy loaded_input_ok by fastforce
qed


section \<open>The parser writes only where it has read\<close>

lemma parse_line_writes: "parse_line c = (ls, c') \<Longrightarrow> m_read_idx c \<le> k \<Longrightarrow> m_read_buf c' k = m_read_buf c k"
proof (induction c arbitrary: ls c' rule: parse_line.induct)
  case (1 c)
  from 1(2) show ?case
    by (subst (asm) parse_line.simps)
      (use 1(1,3) in \<open>fastforce simp: Let_def split: if_splits\<close>)
qed

lemma request_line_writes:
  assumes "clean c" "parse_line c = (LINE_OK, c1)" "m_check_state c = CHECK_STATE_REQUESTLINE"
    "process_line c1 = (fl, c2)" "m_read_idx c \<le> k"
  shows "m_read_buf c2 k = m_read_buf c1 k"
proof -
  obtain l r where nl: "next_line (input c) = Line l r"
    using parse_line_spec [OF assms(1,2), unfolded line_found_def] by (cases "next_line (input c)") simp_all
  note lt = line_taken [OF assms(1,2) nl]
  let ?c1 = "c1\<lparr>m_start_line := m_checked_idx c1\<rparr>" and ?t = "m_start_line c1"
  obtain ret where run: "parse_request_line ?t ?c1 = (ret, c2)"
    using assms(3,4) parse_line_cursor [OF assms(2)]
    by (auto simp: process_line_def Let_def split: prod.splits if_splits)
  have "same_outside ?t (?t + length (text_of l)) (m_read_buf c1) (m_read_buf c2)"
    using parse_request_line_spec [OF run refl] lt(1,2,5,6,7) by simp
  with lt(2,5,6) assms(5) show ?thesis by (simp add: same_outside_def)
qed

text \<open>A turn of the loop keeps the input side in order.\<close>

lemma turn_input_ok:
  assumes "input_ok c" "m_check_state c \<noteq> CHECK_STATE_CONTENT" "parse_line c = (LINE_OK, c1)"
    "process_line c1 = (Continue ls, c2)"
  shows "input_ok c2 \<and> m_read_idx c2 = m_read_idx c"
proof -
  have cl: "clean c" and len: "0 \<le> m_content_length c" using assms(1,2) by (simp_all add: input_ok_def)
  obtain l r where nl: "next_line (input c) = Line l r"
    using parse_line_spec [OF cl assms(3), unfolded line_found_def] by (cases "next_line (input c)") simp_all
  have rd: "m_read_idx c2 = m_read_idx c"
    using process_line_Continue [OF assms(4)] parse_line_cursor [OF assms(3)] by simp
  show ?thesis
  proof (cases "m_check_state c")
    case CHECK_STATE_REQUESTLINE
    from request_line_turn [OF cl assms(3) nl this assms(4)] len rd show ?thesis
      by (auto simp: input_ok_def clean_def pstate_of_def split: option.splits)
  next
    case CHECK_STATE_HEADER
    obtain code p where sh: "spec_header (m_start_line c + length l + 2) (text_of l) (pstate_of c) = (code, p)"
      by fastforce
    from header_turn [OF cl assms(3) nl CHECK_STATE_HEADER assms(4) sh] spec_header_len [OF sh] len rd
    show ?thesis by (auto simp: input_ok_def clean_def)
  qed (use assms(2) in simp)
qed

text \<open>One turn of the loop: it writes to received bytes only and leaves the input well-formed.\<close>

lemma status_state:
  "next_line_status ls c = (ls1, c1) \<Longrightarrow>
     m_check_state c1 = m_check_state c \<and> m_content_length c1 = m_content_length c"
  using parse_line_cursor [of c ls1 c1] by (auto simp: next_line_status_def split: if_splits)

lemma turn_writes:
  assumes "input_ok c" "next_line_status ls c = (LINE_OK, c1)" "process_line c1 = (fl, c2)" "m_read_idx c \<le> k"
  shows "m_read_buf c2 k = m_read_buf c1 k"
proof (cases "m_check_state c = CHECK_STATE_REQUESTLINE")
  case True
  with assms request_line_writes [OF _ _ True assms(3,4)] show ?thesis
    by (auto simp: input_ok_def next_line_status_def)
next
  case False
  with status_state [OF assms(2)] assms(3) show ?thesis
    by (auto simp: process_line_def parse_content_def Let_def dest!: parse_headers_cursor
        split: check_state.splits prod.splits if_splits)
qed

lemma turn_keeps_input:
  assumes "input_ok c" "next_line_status ls c = (LINE_OK, c1)" "process_line c1 = (Continue ls', c2)"
  shows "input_ok c2 \<and> m_read_idx c2 = m_read_idx c"
proof (cases "m_check_state c = CHECK_STATE_CONTENT")
  case True
  then have "m_check_state c2 = CHECK_STATE_CONTENT" "m_content_length c2 = m_content_length c"
    using status_state [OF assms(2)] assms(3) by (auto simp: process_line_def parse_content_def Let_def split: if_splits)
  with next_line_status_cursors [OF assms(2)] process_line_cursors [OF assms(3)] assms(1) show ?thesis
    by (auto simp: input_ok_def)
next
  case False
  with assms(2) have "parse_line c = (LINE_OK, c1)" by (simp add: next_line_status_def)
  from turn_input_ok [OF assms(1) False this assms(3)] show ?thesis .
qed

lemma process_read_loop_writes:
  "process_read_loop ls c = (ret, c') \<Longrightarrow> input_ok c \<Longrightarrow> m_read_idx c \<le> k \<Longrightarrow> m_read_buf c' k = m_read_buf c k"
proof (induction ls c rule: process_read_loop.induct)
  case (1 ls c)
  obtain ls1 c1 where st: "next_line_status ls c = (ls1, c1)" by (cases "next_line_status ls c")
  have w1: "m_read_buf c1 k = m_read_buf c k"
    using st 1(4) parse_line_writes [of c] by (auto simp: next_line_status_def split: if_splits)
  obtain fl c2 where pl: "process_line c1 = (fl, c2)" by (cases "process_line c1")
  show ?case
  proof (cases "ls1 = LINE_OK")
    case ok: True
    note w2 = turn_writes [OF 1(3) st [unfolded ok] pl 1(4)]
    show ?thesis
    proof (cases fl)
      case (Return r)
      with 1(2) st ok pl w1 w2 show ?thesis by (subst (asm) process_read_loop.simps) simp
    next
      case (Continue ls')
      with 1(2) st ok pl have run: "process_read_loop ls' c2 = (ret, c')"
        by (subst (asm) process_read_loop.simps) simp
      from 1(1) [OF st [unfolded ok, symmetric] refl pl [unfolded Continue, symmetric] refl run]
        turn_keeps_input [OF 1(3) st [unfolded ok] pl [unfolded Continue]] 1(4) w1 w2
      show ?thesis by simp
    qed
  next
    case False
    with 1(2) st w1 show ?thesis
      by (subst (asm) process_read_loop.simps) (auto split: line_status.splits if_splits)
  qed
qed

text \<open>C2: Memory safety of the request parser, for every state a connection can reach.  Whatever
  bytes arrive in whatever pieces, and through any number of requests on the connection, the line
  start, the scan cursor and the end of input stay in this order inside the 8192-byte buffer, the
  content length is never negative, and a run of the parser writes only to bytes that have been
  received.\<close>

theorem connection_memory_safe:
  assumes "conn_idle lib routes c" "process_read c = (ret, c')"
  shows "m_start_line c \<le> m_checked_idx c \<and> m_checked_idx c \<le> m_read_idx c \<and> m_read_idx c \<le> READ_BUFFER_SIZE
    \<and> 0 \<le> m_content_length c
    \<and> m_start_line c' \<le> m_checked_idx c' \<and> m_checked_idx c' \<le> m_read_idx c' \<and> m_read_idx c' = m_read_idx c
    \<and> (\<forall>k. m_read_idx c \<le> k \<longrightarrow> m_read_buf c' k = m_read_buf c k)"
proof -
  have ok: "input_ok c" using assms(1) conn_states_ok by blast
  then have "cursors_ok c" "0 \<le> m_content_length c" by (simp_all add: input_ok_def)
  with process_read_cursors [OF assms(2)] process_read_loop_writes [OF assms(2) [unfolded process_read_def] ok]
  show ?thesis by (auto simp: cursors_ok_def)
qed

theorem connection_memory_safe_witness:
  "\<exists>c ret c'. read_once [Received (''GET / HTTP/1.1'' @ [CHR 0x0D, CHR 0x0A] @ ''Hos'')] (conn_init 7 0 blank) = (True, c)
     \<and> m_read_idx c = 19 \<and> conn_idle demo_lib ([] :: unit route list) c \<and> process_read c = (ret, c')
     \<and> m_start_line c' \<le> m_checked_idx c' \<and> m_checked_idx c' \<le> 19 \<and> m_read_idx c' = 19
     \<and> (\<forall>k. 19 \<le> k \<longrightarrow> m_read_buf c' k = m_read_buf c k)"
proof -
  let ?bs = "''GET / HTTP/1.1'' @ [CHR 0x0D, CHR 0x0A] @ ''Hos''"
  let ?c = "store_received ?bs (conn_init 7 0 blank)"
  have r: "read_once [Received ?bs] (conn_init 7 0 blank) = (True, ?c)" "m_read_idx ?c = 19"
    by (simp_all add: read_once_def store_received_def conn_init_def init_parser_def READ_BUFFER_SIZE_def Let_def)
  have idle: "conn_idle demo_lib ([] :: unit route list) ?c" by (rule conn_recv [OF conn_accept r(1)])
  obtain ret c' where p: "process_read ?c = (ret, c')" by fastforce
  from connection_memory_safe [OF idle p] r idle p show ?thesis by (intro exI [of _ ?c] exI [of _ ret] exI [of _ c']) simp
qed

section \<open>Two behaviours to know\<close>

text \<open>Scanning for a line end in a body: the cursor runs over bytes that hold none.\<close>

lemma parse_line_no_eol:
  "(\<And>k. m_checked_idx c \<le> k \<Longrightarrow> k < m_read_idx c \<Longrightarrow> \<not> eol (m_read_buf c k)) \<Longrightarrow> m_checked_idx c \<le> m_read_idx c \<Longrightarrow>
   parse_line c = (LINE_OPEN, c\<lparr>m_checked_idx := m_read_idx c\<rparr>)"
proof (induction c rule: parse_line.induct)
  case (1 c)
  show ?case
  proof (cases "m_checked_idx c < m_read_idx c")
    case True
    then have "\<not> eol (m_read_buf c (m_checked_idx c))" using 1(2) by blast
    with True 1(1) [OF refl refl True] 1(2) show ?thesis
      by (subst parse_line.simps) (auto simp: Let_def eol_def)
  next
    case False
    with 1(3) show ?thesis by (subst parse_line.simps) auto
  qed
qed

text \<open>One run of the parser inside a body of which fewer bytes than announced lie beyond the cursor.\<close>

lemma short_body_run:
  assumes "m_check_state c = CHECK_STATE_CONTENT" "m_checked_idx c \<le> m_read_idx c" "m_read_idx c < READ_BUFFER_SIZE"
    "int (m_read_idx c) < m_content_length c + int (m_checked_idx c)"
    "\<And>k. m_checked_idx c \<le> k \<Longrightarrow> k < m_read_idx c \<Longrightarrow> \<not> eol (m_read_buf c k)"
  shows "process_read_loop LINE_OK c = (NO_REQUEST, c\<lparr>m_start_line := m_checked_idx c, m_checked_idx := m_read_idx c\<rparr>)"
proof -
  let ?c = "c\<lparr>m_start_line := m_checked_idx c\<rparr>"
  have "process_line c = (Continue LINE_OPEN, ?c)"
    using assms(1,4) by (simp add: process_line_def parse_content_def Let_def)
  then have "process_read_loop LINE_OK c = process_read_loop LINE_OPEN ?c"
    using assms(1) by (subst process_read_loop.simps) (simp add: next_line_status_def)
  also have "parse_line ?c = (LINE_OPEN, ?c\<lparr>m_checked_idx := m_read_idx ?c\<rparr>)"
    using assms by (intro parse_line_no_eol) auto
  then have "process_read_loop LINE_OPEN ?c = (NO_REQUEST, ?c\<lparr>m_checked_idx := m_read_idx ?c\<rparr>)"
    using assms(3) by (subst process_read_loop.simps) (simp add: next_line_status_def)
  finally show ?thesis by simp
qed


lemma split_body_run:
  assumes "loaded s c" "spec_run 0 initial_pstate s = WaitBody p pos b1" "b1 \<noteq> []"
    "list_all (\<lambda>x. \<not> eol x) (b1 @ b2)" "p_len p = int (length (b1 @ b2))"
    "b2 \<noteq> [] \<and> length (s @ b2) < READ_BUFFER_SIZE"
    "process_read c = (r1, c1)" "process_read (store_received b2 c1) = (r2, c2)"
  shows "r1 = NO_REQUEST \<and> r2 = NO_REQUEST \<and> \<not> has_pipelined_input c2 \<and> m_check_state c2 = CHECK_STATE_CONTENT"
proof -
  note ld = loaded_between [OF assms(1)]
  have rd: "m_read_idx c = length s" using assms(1) by (simp add: loaded_def)
  from process_read_agrees [OF _ assms(7)] ld assms(1,2) obtain d where
    d: "clean d" "pstate_of d = p" "m_start_line d = pos" "m_checked_idx d = pos" "input d = b1"
      "process_read_loop LINE_OK d = (r1, c1)"
    by (auto simp: agrees_def loaded_def)
  have content: "p_state p = CHECK_STATE_CONTENT"
    using spec_run_len [of initial_pstate 0 s] assms(2) by (simp add: initial_pstate_def)
  have cd: "cursors_ok d" using d(1) by (simp add: clean_def)
  have rdd: "m_read_idx d = length s"
    using process_read_loop_cursors [OF d(6) cd] process_read_cursors [OF assms(7)] ld rd by simp
  have len: "length b1 = length s - pos" "pos \<le> length s"
    using d(3,4,5) rdd cd by (auto simp: input_def cursors_ok_def)
  have noeol: "\<not> eol (m_read_buf d k)" if "pos \<le> k" "k < length s" for k
  proof -
    have "b1 ! (k - pos) = m_read_buf d k" using that d(3,5) rdd by (auto simp: input_def mem_load_def)
    moreover have "b1 ! (k - pos) \<in> set b1" using that len by (intro nth_mem) linarith
    ultimately show ?thesis using assms(4) by (auto simp: list_all_iff)
  qed
  have std: "m_check_state d = CHECK_STATE_CONTENT" "m_content_length d = p_len p" using d(2) content by auto
  have "process_read_loop LINE_OK d = (NO_REQUEST, d\<lparr>m_start_line := m_checked_idx d, m_checked_idx := m_read_idx d\<rparr>)"
    using std d(4) len assms(5,6) rdd noeol cd
    by (intro short_body_run) (auto simp: cursors_ok_def)
  with d have r1: "r1 = NO_REQUEST" and c1: "c1 = d\<lparr>m_start_line := pos, m_checked_idx := length s\<rparr>"
    by (simp_all add: rdd)
  let ?e = "store_received b2 c1"
  have lim: "length s + length b2 < READ_BUFFER_SIZE" using assms(6) by simp
  have e: "m_check_state ?e = CHECK_STATE_CONTENT" "m_checked_idx ?e = length s" "m_content_length ?e = p_len p"
    "m_read_idx ?e = length s + length b2" using c1 std rdd lim by simp_all
  have noeol2: "\<not> eol (m_read_buf ?e k)" if "length s \<le> k" "k < length s + length b2" for k
  proof -
    have "m_read_buf ?e k = b2 ! (k - length s)" "b2 ! (k - length s) \<in> set b2"
      using that c1 rdd lim by (auto simp: store_received_def Let_def mem_store_def)
    then show ?thesis using assms(4) by (auto simp: list_all_iff)
  qed
  have "process_read_loop LINE_OK ?e = (NO_REQUEST, ?e\<lparr>m_start_line := m_checked_idx ?e, m_checked_idx := m_read_idx ?e\<rparr>)"
    using e lim noeol2 assms(3,5) c1 rdd by (intro short_body_run) auto
  with assms(8) e have "r2 = NO_REQUEST \<and> \<not> has_pipelined_input c2 \<and> m_check_state c2 = CHECK_STATE_CONTENT"
    by (auto simp: process_read_def has_pipelined_input_def)
  with r1 show ?thesis by simp
qed

text \<open>C16: A body cut by a packet boundary is never completed.  Take any well-formed request whose body
  \<open>b1 @ b2\<close> has no line end.  If a packet brings the head and \<open>b1\<close>, and the next one the missing
  \<open>b2\<close>, the parser asks for more instead of delivering the request, with all bytes behind its
  cursor; the same bytes in one packet are a complete request.  The first run moved the cursor over
  the bytes it had, and the length test of \<open>parse_content\<close> counts from the cursor.\<close>

theorem split_body_stalls:
  assumes "wf_request (m, t, hs, b1 @ b2)" "b1 \<noteq> []" "b2 \<noteq> []" "list_all (\<lambda>x. \<not> eol x) (b1 @ b2)"
    and "length (text_of_request (m, t, hs, b1 @ b2)) < READ_BUFFER_SIZE"
    and "loaded (request_head m t hs (length (b1 @ b2)) @ b1) c"
    and "process_read c = (r1, c1)" "process_read (store_received b2 c1) = (r2, c2)"
    and "loaded (request_head m t hs (length (b1 @ b2)) @ b1 @ b2) d" "process_read d = (r, d')"
  shows "r1 = NO_REQUEST \<and> r2 = NO_REQUEST \<and> \<not> has_pipelined_input c2
    \<and> r = GET_REQUEST \<and> req_body (m_request d') = b1 @ b2"
proof -
  let ?h = "request_head m t hs (length (b1 @ b2))" and ?r = "(m, t, hs, b1 @ b2)"
  have rt: "text_of_request ?r = ?h @ b1 @ b2" by (simp add: request_text_def)
  obtain p where p: "p_len p = int (length (b1 @ b2))" "p_state p = CHECK_STATE_CONTENT"
    "spec_run 0 initial_pstate (?h @ b1) = spec_run (length ?h) p b1"
    using spec_run_head [of m t hs "length (b1 @ b2)" b1] assms(1-3,5) rt by auto
  then have w: "spec_run 0 initial_pstate (?h @ b1) = WaitBody p (length ?h) b1"
    using assms(3) by (simp add: spec_run_content)
  have "b2 \<noteq> [] \<and> length ((?h @ b1) @ b2) < READ_BUFFER_SIZE" using assms(3,5) rt by simp
  from split_body_run [OF assms(6) w assms(2,4) p(1) this assms(7,8)]
  have stall: "r1 = NO_REQUEST \<and> r2 = NO_REQUEST \<and> \<not> has_pipelined_input c2" by blast
  have "loaded (text_of_request ?r @ []) d" using assms(9) rt by simp
  from loaded_request [OF this assms(1,5,10)] stall show ?thesis by (simp add: the_request_def)
qed

theorem split_body_stalls_witness:
  "\<exists>r1 c1 r2 c2. process_read (store_received (request_head POST ''/a'' [] (length (''ab'' @ ''cd'')) @ ''ab'') (conn_init 7 0 blank)) = (r1, c1)
     \<and> process_read (store_received ''cd'' c1) = (r2, c2) \<and> r1 = NO_REQUEST \<and> r2 = NO_REQUEST"
proof -
  let ?s = "request_head POST ''/a'' [] (length (''ab'' @ ''cd''))"
  let ?c = "store_received (?s @ ''ab'') (conn_init 7 0 blank)"
  let ?d = "store_received (?s @ ''ab'' @ ''cd'') (conn_init 7 0 blank)"
  have wf: "wf_request (POST, ''/a'', [], ''ab'' @ ''cd'')" and noeol: "list_all (\<lambda>x. \<not> eol x) (''ab'' @ ''cd'')"
    and len: "length (text_of_request (POST, ''/a'', [], ''ab'' @ ''cd'')) < READ_BUFFER_SIZE"
    and len': "length (?s @ ''ab'') \<le> READ_BUFFER_SIZE" "length (?s @ ''ab'' @ ''cd'') \<le> READ_BUFFER_SIZE"
    by code_simp+
  have ld: "loaded (?s @ ''ab'') ?c" "loaded (?s @ ''ab'' @ ''cd'') ?d"
    using store_received_loaded [OF conn_init_loaded, of "?s @ ''ab''"]
      store_received_loaded [OF conn_init_loaded, of "?s @ ''ab'' @ ''cd''"] len' by simp_all
  obtain r1 c1 where p1: "process_read ?c = (r1, c1)" by fastforce
  obtain r2 c2 where p2: "process_read (store_received ''cd'' c1) = (r2, c2)" by fastforce
  obtain r d' where p3: "process_read ?d = (r, d')" by fastforce
  have "r1 = NO_REQUEST \<and> r2 = NO_REQUEST"
    using split_body_stalls [OF wf _ _ noeol len ld(1) p1 p2 ld(2) p3] by simp
  with p1 p2 show ?thesis by blast
qed

text \<open>A stray line end is answered with 400 again and again.  When the unread bytes start with a
  line feed (or a carriage return not followed by one), the parser reports a bad request without
  consuming the byte, the connection stays keep-alive, and the reset after the response leaves the
  connection exactly as it was, with input waiting: the event loop dispatches it again at once.\<close>

theorem bad_line_repeats:
  assumes "loaded s c" "next_line s = LineBad" "eol (hd s)" "process_read c = (ret, c')"
  shows "ret = BAD_REQUEST \<and> m_linger c' \<and> loaded s (retain_pipelined_bytes c')
    \<and> has_pipelined_input (retain_pipelined_bytes c')"
proof -
  note ld = loaded_between [OF assms(1)]
  have ne: "s \<noteq> []" using assms(2) by (auto simp: next_line_def)
  then have all: "dropWhile (\<lambda>c. \<not> eol c) s = s" "takeWhile (\<lambda>c. \<not> eol c) s = []"
    using assms(3) by (cases s, simp_all)+
  have "spec_run 0 initial_pstate s = Done BAD_REQUEST initial_pstate 0 s"
    using spec_run_bad [of initial_pstate s 0] assms(2) all by (simp add: initial_pstate_def)
  with process_read_agrees [OF _ assms(4)] ld assms(1)
  have ag: "ret = BAD_REQUEST" "pstate_of c' = initial_pstate" "unread c' = s"
    by (auto simp: agrees_def loaded_def unread_def)
  have "loaded s (retain_pipelined_bytes c')"
    using retain_loaded [of c'] process_read_cursors [OF assms(4)] ld ag(3) by simp
  moreover have "m_linger c'" using ag(2) by (auto simp: pstate_of_def initial_pstate_def)
  ultimately show ?thesis using ag(1) ne by (simp add: has_pipelined_input_def loaded_def)
qed

theorem bad_line_repeats_witness:
  "\<exists>ret c'. process_read (store_received [LF] (conn_init 7 0 blank)) = (ret, c') \<and> ret = BAD_REQUEST
     \<and> loaded [LF] (retain_pipelined_bytes c')"
proof -
  have ld: "loaded [LF] (store_received [LF] (conn_init 7 0 blank))"
    using store_received_loaded [OF conn_init_loaded, of "[LF]"] by (simp add: READ_BUFFER_SIZE_def)
  obtain ret c' where p: "process_read (store_received [LF] (conn_init 7 0 blank)) = (ret, c')" by fastforce
  from bad_line_repeats [OF ld _ _ p] p show ?thesis by (simp add: next_line_def)
qed

end
