(* ===== verification/Local_Cache.thy ===== *)
theory Local_Cache
  imports Prelude
begin

text \<open>
  \<open>class LocalUrlCache\<close> of \<open>src/shorturl/short_url_cache.h\<close> and \<open>.cpp\<close>: the sharded in-process
  cache with its byte budgets.

  Every operation holds the mutex of its shard, so an operation is one step.  The steady clock, the
  wall clock string (\<open>now_datetime\<close>) and the draw of the jitter distribution are arguments.  Byte
  counts are natural numbers: the invariant \<open>tier_ok\<close> shows that no subtraction underflows, and the
  counts are bounded by the memory of the process.  An optional output pointer is part of the
  result.
\<close>

section \<open>State\<close>

datatype lc_status = LcHit | LcExpired | LcMiss | LcNegHit

record entry_view =
  v_long_url :: string
  v_expire_at :: string

record positive_entry =
  p_long_url :: string
  p_expire_at :: string
  p_cache_expire :: int
  p_bytes :: nat

record negative_entry =
  n_cache_expire :: int
  n_bytes :: nat

record shard =
  positive :: "string \<rightharpoonup> positive_entry"
  positive_fifo :: "string list"
  positive_bytes :: nat
  negative :: "string \<rightharpoonup> negative_entry"
  negative_fifo :: "string list"
  negative_bytes :: nat

definition new_shard :: shard where
  "new_shard = \<lparr>positive = Map.empty, positive_fifo = [], positive_bytes = 0,
                negative = Map.empty, negative_fifo = [], negative_bytes = 0\<rparr>"

record local_cache =
  shard_count :: nat
  positive_byte_budget :: nat
  negative_byte_budget :: nat
  positive_ttl_seconds :: int
  positive_ttl_jitter_seconds :: int
  negative_ttl_seconds :: int
  shards :: "shard list"

definition lc_configure :: "nat \<Rightarrow> nat \<Rightarrow> nat \<Rightarrow> int \<Rightarrow> int \<Rightarrow> int \<Rightarrow> local_cache" where
  "lc_configure count pos_budget neg_budget pos_ttl pos_jitter neg_ttl =
     (let n = max 1 count
      in \<lparr>shard_count = n,
          positive_byte_budget = max 1024 (pos_budget div n),
          negative_byte_budget = max 1024 (neg_budget div n),
          positive_ttl_seconds = max 1 pos_ttl,
          positive_ttl_jitter_seconds = max 0 pos_jitter,
          negative_ttl_seconds = max 1 neg_ttl,
          shards = replicate n new_shard\<rparr>)"

definition local_cache_new :: local_cache where
  "local_cache_new = lc_configure 16 (64 * 1024 * 1024) (4 * 1024 * 1024) 3600 300 30"

section \<open>Helpers\<close>

text \<open>\<open>expire_at <= now_datetime()\<close> compares strings; \<open>now\<close> is the wall clock string.\<close>

definition is_business_expired :: "string \<Rightarrow> string \<Rightarrow> bool" where
  "is_business_expired now expire_at \<longleftrightarrow> expire_at \<noteq> [] \<and> str_le expire_at now"

definition shard_index :: "local_cache \<Rightarrow> string \<Rightarrow> nat" where
  "shard_index lc code = unat (fnv_loop fnv_basis code) mod shard_count lc"

definition estimate_positive_bytes :: "string \<Rightarrow> string \<Rightarrow> string \<Rightarrow> nat" where
  "estimate_positive_bytes code long_url expire_at = length code + length long_url + length expire_at + 64"

definition estimate_negative_bytes :: "string \<Rightarrow> nat" where
  "estimate_negative_bytes code = length code + 32"

text \<open>\<open>draw\<close> is the value of the random distribution.  The sum is an \<open>int\<close> in the code, which overflows for settings
  near \<open>INT_MAX\<close> seconds (68 years); here it is unbounded.\<close>

definition ttl_with_jitter_locked :: "local_cache \<Rightarrow> int \<Rightarrow> int" where
  "ttl_with_jitter_locked lc draw =
     (if positive_ttl_jitter_seconds lc \<le> 0 then positive_ttl_seconds lc
      else positive_ttl_seconds lc + draw)"

text \<open>Ticks of the steady clock in a second.\<close>

definition ticks :: "int \<Rightarrow> int" where
  "ticks secs = secs * 1000000000"

text \<open>The eviction loop, the same for both maps: while the budget is exceeded, the oldest queued key is
  dropped with its entry; a queued key without an entry is skipped.\<close>

fun evict_loop ::
  "nat \<Rightarrow> ('e \<Rightarrow> nat) \<Rightarrow> (string \<rightharpoonup> 'e) \<Rightarrow> string list \<Rightarrow> nat \<Rightarrow> (string \<rightharpoonup> 'e) \<times> string list \<times> nat" where
  "evict_loop budget size_of m [] bytes = (m, [], bytes)"
| "evict_loop budget size_of m (victim # q) bytes =
     (if bytes > budget then
        (case m victim of
           None \<Rightarrow> evict_loop budget size_of m q bytes
         | Some e \<Rightarrow> evict_loop budget size_of (m(victim := None)) q (bytes - size_of e))
      else (m, victim # q, bytes))"

definition evict_positive_locked :: "local_cache \<Rightarrow> shard \<Rightarrow> shard" where
  "evict_positive_locked lc sh =
     (case evict_loop (positive_byte_budget lc) p_bytes (positive sh) (positive_fifo sh) (positive_bytes sh) of
        (m, q, b) \<Rightarrow> sh\<lparr>positive := m, positive_fifo := q, positive_bytes := b\<rparr>)"

definition evict_negative_locked :: "local_cache \<Rightarrow> shard \<Rightarrow> shard" where
  "evict_negative_locked lc sh =
     (case evict_loop (negative_byte_budget lc) n_bytes (negative sh) (negative_fifo sh) (negative_bytes sh) of
        (m, q, b) \<Rightarrow> sh\<lparr>negative := m, negative_fifo := q, negative_bytes := b\<rparr>)"

section \<open>Operations\<close>

text \<open>Dropping an entry with its bytes; the queue keeps the key.\<close>

definition drop_positive :: "string \<Rightarrow> shard \<Rightarrow> shard" where
  "drop_positive code sh =
     (case positive sh code of
        None \<Rightarrow> sh
      | Some e \<Rightarrow> sh\<lparr>positive := (positive sh)(code := None), positive_bytes := positive_bytes sh - p_bytes e\<rparr>)"

definition drop_negative :: "string \<Rightarrow> shard \<Rightarrow> shard" where
  "drop_negative code sh =
     (case negative sh code of
        None \<Rightarrow> sh
      | Some e \<Rightarrow> sh\<lparr>negative := (negative sh)(code := None), negative_bytes := negative_bytes sh - n_bytes e\<rparr>)"

text \<open>The tail of \<open>get\<close>: the negative map.\<close>

definition get_negative :: "int \<Rightarrow> string \<Rightarrow> shard \<Rightarrow> (lc_status \<times> entry_view option) \<times> shard" where
  "get_negative now code sh =
     (case negative sh code of
        None \<Rightarrow> ((LcMiss, None), sh)
      | Some e \<Rightarrow> if n_cache_expire e \<le> now then ((LcMiss, None), drop_negative code sh)
                  else ((LcNegHit, None), sh))"

definition shard_get :: "int \<Rightarrow> string \<Rightarrow> string \<Rightarrow> shard \<Rightarrow> (lc_status \<times> entry_view option) \<times> shard" where
  "shard_get now now_dt code sh =
     (case positive sh code of
        Some e \<Rightarrow>
          if p_cache_expire e \<le> now then get_negative now code (drop_positive code sh)
          else if is_business_expired now_dt (p_expire_at e)
          then ((LcExpired, Some \<lparr>v_long_url = p_long_url e, v_expire_at = p_expire_at e\<rparr>), drop_positive code sh)
          else ((LcHit, Some \<lparr>v_long_url = p_long_url e, v_expire_at = p_expire_at e\<rparr>), sh)
      | None \<Rightarrow> get_negative now code sh)"

definition shard_put_positive :: "local_cache \<Rightarrow> int \<Rightarrow> int \<Rightarrow> string \<Rightarrow> string \<Rightarrow> string \<Rightarrow> shard \<Rightarrow> shard" where
  "shard_put_positive lc now draw code long_url expire_at sh0 =
     (let sh = drop_negative code sh0;
          entry = \<lparr>p_long_url = long_url, p_expire_at = expire_at,
                   p_cache_expire = now + ticks (ttl_with_jitter_locked lc draw),
                   p_bytes = estimate_positive_bytes code long_url expire_at\<rparr>;
          sh' = (case positive sh code of
                   Some old \<Rightarrow> sh\<lparr>positive := (positive sh)(code \<mapsto> entry),
                                  positive_bytes := positive_bytes sh - p_bytes old + p_bytes entry\<rparr>
                 | None \<Rightarrow> sh\<lparr>positive := (positive sh)(code \<mapsto> entry),
                              positive_fifo := positive_fifo sh @ [code],
                              positive_bytes := positive_bytes sh + p_bytes entry\<rparr>)
      in evict_positive_locked lc sh')"

definition shard_put_negative :: "local_cache \<Rightarrow> int \<Rightarrow> string \<Rightarrow> shard \<Rightarrow> shard" where
  "shard_put_negative lc now code sh0 =
     (let sh = drop_positive code sh0;
          entry = \<lparr>n_cache_expire = now + ticks (negative_ttl_seconds lc), n_bytes = estimate_negative_bytes code\<rparr>;
          sh' = (case negative sh code of
                   Some old \<Rightarrow> sh\<lparr>negative := (negative sh)(code \<mapsto> entry),
                                  negative_bytes := negative_bytes sh - n_bytes old + n_bytes entry\<rparr>
                 | None \<Rightarrow> sh\<lparr>negative := (negative sh)(code \<mapsto> entry),
                              negative_fifo := negative_fifo sh @ [code],
                              negative_bytes := negative_bytes sh + n_bytes entry\<rparr>)
      in evict_negative_locked lc sh')"

definition shard_erase :: "string \<Rightarrow> shard \<Rightarrow> shard" where
  "shard_erase code sh = drop_negative code (drop_positive code sh)"

definition at_shard :: "string \<Rightarrow> (shard \<Rightarrow> shard) \<Rightarrow> local_cache \<Rightarrow> local_cache" where
  "at_shard code f lc =
     (let i = shard_index lc code in lc\<lparr>shards := (shards lc)[i := f (shards lc ! i)]\<rparr>)"

definition lc_get :: "int \<Rightarrow> string \<Rightarrow> string \<Rightarrow> local_cache \<Rightarrow> (lc_status \<times> entry_view option) \<times> local_cache" where
  "lc_get now now_dt code lc =
     (let r = shard_get now now_dt code (shards lc ! shard_index lc code)
      in (fst r, at_shard code (\<lambda>_. snd r) lc))"

definition lc_put_positive :: "int \<Rightarrow> int \<Rightarrow> string \<Rightarrow> string \<Rightarrow> string \<Rightarrow> local_cache \<Rightarrow> local_cache" where
  "lc_put_positive now draw code long_url expire_at lc =
     at_shard code (shard_put_positive lc now draw code long_url expire_at) lc"

definition lc_put_negative :: "int \<Rightarrow> string \<Rightarrow> local_cache \<Rightarrow> local_cache" where
  "lc_put_negative now code lc = at_shard code (shard_put_negative lc now code) lc"

definition lc_erase :: "string \<Rightarrow> local_cache \<Rightarrow> local_cache" where
  "lc_erase code lc = at_shard code (shard_erase code) lc"

definition lc_positive_bytes :: "local_cache \<Rightarrow> nat" where
  "lc_positive_bytes lc = sum_list (map positive_bytes (shards lc))"

definition lc_negative_bytes :: "local_cache \<Rightarrow> nat" where
  "lc_negative_bytes lc = sum_list (map negative_bytes (shards lc))"

section \<open>Accounting of one map\<close>

definition tier_sum :: "('e \<Rightarrow> nat) \<Rightarrow> (string \<rightharpoonup> 'e) \<Rightarrow> nat" where
  "tier_sum size_of m = (\<Sum>k \<in> dom m. size_of (the (m k)))"

definition tier_ok :: "('e \<Rightarrow> nat) \<Rightarrow> (string \<rightharpoonup> 'e) \<Rightarrow> string list \<Rightarrow> nat \<Rightarrow> bool" where
  "tier_ok size_of m q bytes \<longleftrightarrow> finite (dom m) \<and> bytes = tier_sum size_of m \<and> dom m \<subseteq> set q"

lemma tier_sum_remove:
  assumes "finite (dom m)" "m k = Some e"
  shows "tier_sum f m = f e + tier_sum f (m(k := None))"
proof -
  have "tier_sum f m = f (the (m k)) + (\<Sum>j \<in> dom m - {k}. f (the (m j)))"
    unfolding tier_sum_def using assms by (intro sum.remove) auto
  also have "(\<Sum>j \<in> dom m - {k}. f (the (m j))) = tier_sum f (m(k := None))"
    unfolding tier_sum_def by (intro sum.cong) auto
  finally show ?thesis using assms(2) by simp
qed

lemma tier_sum_insert:
  assumes "finite (dom m)" "m k = None"
  shows "tier_sum f (m(k \<mapsto> e)) = f e + tier_sum f m"
proof -
  have eq: "(m(k \<mapsto> e))(k := None) = m" using assms(2) by auto
  have "finite (dom (m(k \<mapsto> e)))" "(m(k \<mapsto> e)) k = Some e" using assms(1) by simp_all
  from tier_sum_remove [OF this, of f] show ?thesis unfolding eq .
qed

lemma tier_ok_drop:
  assumes "tier_ok f m q b" "m k = Some e"
  shows "tier_ok f (m(k := None)) q (b - f e)" "f e \<le> b"
  using assms tier_sum_remove [of m k e f] by (auto simp: tier_ok_def)

lemma tier_ok_insert:
  assumes "tier_ok f m q b" "m k = None"
  shows "tier_ok f (m(k \<mapsto> e)) (q @ [k]) (b + f e)"
  using assms tier_sum_insert [of m k f e] by (auto simp: tier_ok_def)

lemma tier_ok_replace:
  assumes "tier_ok f m q b" "m k = Some old"
  shows "tier_ok f (m(k \<mapsto> e)) q (b - f old + f e)"
proof -
  note d = tier_ok_drop(1) [OF assms]
  have "tier_ok f ((m(k := None))(k \<mapsto> e)) (q @ [k]) (b - f old + f e)"
    using tier_ok_insert [OF d, of k e] by simp
  then show ?thesis using assms by (auto simp: tier_ok_def)
qed

text \<open>Eviction keeps the accounting, removes entries only, and brings the map within its budget.\<close>

lemma evict_loop_ok:
  assumes "tier_ok f m q b" "evict_loop B f m q b = (m', q', b')"
  shows "tier_ok f m' q' b' \<and> b' \<le> B \<and> m' \<subseteq>\<^sub>m m \<and> (\<exists>pre. q = pre @ q')"
  using assms
proof (induction q arbitrary: m b)
  case Nil
  then have "dom m = {}" by (auto simp: tier_ok_def)
  then have "tier_sum f m = 0" by (simp add: tier_sum_def)
  with Nil show ?case by (auto simp: tier_ok_def)
next
  case (Cons v q)
  show ?case
  proof (cases "b > B")
    case True
    show ?thesis
    proof (cases "m v")
      case None
      with Cons.prems True have "tier_ok f m q b" by (auto simp: tier_ok_def)
      from Cons.IH [OF this] Cons.prems(2) None True show ?thesis
        by simp (metis append_Cons)
    next
      case (Some e)
      have "tier_ok f (m(v := None)) q (b - f e)"
        using tier_ok_drop(1) [OF Cons.prems(1) Some] by (auto simp: tier_ok_def)
      moreover have "evict_loop B f (m(v := None)) q (b - f e) = (m', q', b')"
        using Cons.prems(2) True Some by simp
      ultimately have "tier_ok f m' q' b' \<and> b' \<le> B \<and> m' \<subseteq>\<^sub>m m(v := None) \<and> (\<exists>pre. q = pre @ q')"
        by (rule Cons.IH)
      moreover have "m(v := None) \<subseteq>\<^sub>m m" by (auto simp: map_le_def)
      ultimately show ?thesis by (metis append_Cons map_le_trans)
    qed
  qed (use Cons in simp)
qed


section \<open>The invariant\<close>

definition shard_ok :: "nat \<Rightarrow> nat \<Rightarrow> shard \<Rightarrow> bool" where
  "shard_ok pb nb sh \<longleftrightarrow>
     tier_ok p_bytes (positive sh) (positive_fifo sh) (positive_bytes sh) \<and> positive_bytes sh \<le> pb
     \<and> tier_ok n_bytes (negative sh) (negative_fifo sh) (negative_bytes sh) \<and> negative_bytes sh \<le> nb"

definition lc_ok :: "local_cache \<Rightarrow> bool" where
  "lc_ok lc \<longleftrightarrow> 0 < shard_count lc \<and> length (shards lc) = shard_count lc
     \<and> list_all (shard_ok (positive_byte_budget lc) (negative_byte_budget lc)) (shards lc)"

lemma new_shard_ok [wf_intros]: "shard_ok pb nb new_shard"
  by (simp add: shard_ok_def new_shard_def tier_ok_def tier_sum_def)

lemma drop_positive_ok [wf_intros]: "shard_ok pb nb sh \<Longrightarrow> shard_ok pb nb (drop_positive code sh)"
  using tier_ok_drop(1) [of p_bytes "positive sh" "positive_fifo sh" "positive_bytes sh" code]
  by (auto simp: drop_positive_def shard_ok_def split: option.splits)

lemma drop_negative_ok [wf_intros]: "shard_ok pb nb sh \<Longrightarrow> shard_ok pb nb (drop_negative code sh)"
  using tier_ok_drop(1) [of n_bytes "negative sh" "negative_fifo sh" "negative_bytes sh" code]
  by (auto simp: drop_negative_def shard_ok_def split: option.splits)

lemma drop_lookup [simp]:
  "positive (drop_positive code sh) = (positive sh)(code := None)" "negative (drop_positive code sh) = negative sh"
  "negative (drop_negative code sh) = (negative sh)(code := None)" "positive (drop_negative code sh) = positive sh"
  by (auto simp: drop_positive_def drop_negative_def split: option.splits)

lemma shard_get_ok [wf_intros]: "shard_ok pb nb sh \<Longrightarrow> shard_ok pb nb (snd (shard_get now dt code sh))"
  by (auto simp: shard_get_def get_negative_def wf_intros split: option.splits)

lemma shard_erase_ok [wf_intros]: "shard_ok pb nb sh \<Longrightarrow> shard_ok pb nb (shard_erase code sh)"
  by (simp add: shard_erase_def wf_intros)

text \<open>A put: the accounting before eviction, then what eviction guarantees.\<close>

lemma shard_put_positive_ok:
  assumes "shard_ok (positive_byte_budget lc) nb sh"
  shows "shard_ok (positive_byte_budget lc) nb (shard_put_positive lc now draw code url exp sh)
    \<and> negative (shard_put_positive lc now draw code url exp sh) = (negative sh)(code := None)
    \<and> positive (shard_put_positive lc now draw code url exp sh) \<subseteq>\<^sub>m
        (positive sh)(code \<mapsto> \<lparr>p_long_url = url, p_expire_at = exp,
          p_cache_expire = now + ticks (ttl_with_jitter_locked lc draw), p_bytes = estimate_positive_bytes code url exp\<rparr>)"
proof -
  define s1 where "s1 = drop_negative code sh"
  define e where "e = \<lparr>p_long_url = url, p_expire_at = exp,
    p_cache_expire = now + ticks (ttl_with_jitter_locked lc draw), p_bytes = estimate_positive_bytes code url exp\<rparr>"
  define s2 where "s2 = (case positive s1 code of
       Some old \<Rightarrow> s1\<lparr>positive := (positive s1)(code \<mapsto> e), positive_bytes := positive_bytes s1 - p_bytes old + p_bytes e\<rparr>
     | None \<Rightarrow> s1\<lparr>positive := (positive s1)(code \<mapsto> e), positive_fifo := positive_fifo s1 @ [code],
                  positive_bytes := positive_bytes s1 + p_bytes e\<rparr>)"
  have put: "shard_put_positive lc now draw code url exp sh = evict_positive_locked lc s2"
    unfolding shard_put_positive_def Let_def s2_def e_def s1_def by (rule refl)
  have ok1: "shard_ok (positive_byte_budget lc) nb s1" unfolding s1_def by (rule drop_negative_ok [OF assms])
  then have tier: "tier_ok p_bytes (positive s2) (positive_fifo s2) (positive_bytes s2)"
    using tier_ok_insert [of p_bytes "positive s1" "positive_fifo s1" "positive_bytes s1" code e]
      tier_ok_replace [of p_bytes "positive s1" "positive_fifo s1" "positive_bytes s1" code _ e]
    by (auto simp: s2_def shard_ok_def split: option.splits)
  have neg: "negative s2 = negative s1" "negative_fifo s2 = negative_fifo s1" "negative_bytes s2 = negative_bytes s1"
    "positive s2 = (positive sh)(code \<mapsto> e)"
    by (auto simp: s2_def s1_def split: option.splits)
  obtain m q b where ev: "evict_loop (positive_byte_budget lc) p_bytes (positive s2) (positive_fifo s2) (positive_bytes s2) = (m, q, b)"
    by (cases "evict_loop (positive_byte_budget lc) p_bytes (positive s2) (positive_fifo s2) (positive_bytes s2)") auto
  from evict_loop_ok [OF tier ev] ev ok1 neg show ?thesis
    unfolding put by (simp add: evict_positive_locked_def shard_ok_def e_def s1_def)
qed

lemma shard_put_negative_ok:
  assumes "shard_ok pb (negative_byte_budget lc) sh"
  shows "shard_ok pb (negative_byte_budget lc) (shard_put_negative lc now code sh)
    \<and> positive (shard_put_negative lc now code sh) = (positive sh)(code := None)
    \<and> negative (shard_put_negative lc now code sh) \<subseteq>\<^sub>m
        (negative sh)(code \<mapsto> \<lparr>n_cache_expire = now + ticks (negative_ttl_seconds lc), n_bytes = estimate_negative_bytes code\<rparr>)"
proof -
  define s1 where "s1 = drop_positive code sh"
  define e where "e = \<lparr>n_cache_expire = now + ticks (negative_ttl_seconds lc), n_bytes = estimate_negative_bytes code\<rparr>"
  define s2 where "s2 = (case negative s1 code of
       Some old \<Rightarrow> s1\<lparr>negative := (negative s1)(code \<mapsto> e), negative_bytes := negative_bytes s1 - n_bytes old + n_bytes e\<rparr>
     | None \<Rightarrow> s1\<lparr>negative := (negative s1)(code \<mapsto> e), negative_fifo := negative_fifo s1 @ [code],
                  negative_bytes := negative_bytes s1 + n_bytes e\<rparr>)"
  have put: "shard_put_negative lc now code sh = evict_negative_locked lc s2"
    unfolding shard_put_negative_def Let_def s2_def e_def s1_def by (rule refl)
  have ok1: "shard_ok pb (negative_byte_budget lc) s1" unfolding s1_def by (rule drop_positive_ok [OF assms])
  then have tier: "tier_ok n_bytes (negative s2) (negative_fifo s2) (negative_bytes s2)"
    using tier_ok_insert [of n_bytes "negative s1" "negative_fifo s1" "negative_bytes s1" code e]
      tier_ok_replace [of n_bytes "negative s1" "negative_fifo s1" "negative_bytes s1" code _ e]
    by (auto simp: s2_def shard_ok_def split: option.splits)
  have pos: "positive s2 = positive s1" "positive_fifo s2 = positive_fifo s1" "positive_bytes s2 = positive_bytes s1"
    "negative s2 = (negative sh)(code \<mapsto> e)"
    by (auto simp: s2_def s1_def split: option.splits)
  obtain m q b where ev: "evict_loop (negative_byte_budget lc) n_bytes (negative s2) (negative_fifo s2) (negative_bytes s2) = (m, q, b)"
    by (cases "evict_loop (negative_byte_budget lc) n_bytes (negative s2) (negative_fifo s2) (negative_bytes s2)") auto
  from evict_loop_ok [OF tier ev] ev ok1 pos show ?thesis
    unfolding put by (simp add: evict_negative_locked_def shard_ok_def e_def s1_def)
qed

section \<open>Operations as a sequence\<close>

datatype lc_op =
    LcGet int string string               \<comment> \<open>steady clock, wall clock, code\<close>
  | LcPut int int string string string    \<comment> \<open>steady clock, jitter draw, code, long URL, expiry\<close>
  | LcNeg int string                      \<comment> \<open>steady clock, code\<close>
  | LcErase string

fun lc_step :: "lc_op \<Rightarrow> local_cache \<Rightarrow> local_cache" where
  "lc_step (LcGet now dt code) lc = snd (lc_get now dt code lc)"
| "lc_step (LcPut now draw code url exp) lc = lc_put_positive now draw code url exp lc"
| "lc_step (LcNeg now code) lc = lc_put_negative now code lc"
| "lc_step (LcErase code) lc = lc_erase code lc"

fun op_code :: "lc_op \<Rightarrow> string" where
  "op_code (LcGet now dt code) = code"
| "op_code (LcPut now draw code url exp) = code"
| "op_code (LcNeg now code) = code"
| "op_code (LcErase code) = code"

text \<open>What an operation does to its shard.\<close>

fun op_shard :: "local_cache \<Rightarrow> lc_op \<Rightarrow> shard \<Rightarrow> shard" where
  "op_shard lc (LcGet now dt code) sh = snd (shard_get now dt code sh)"
| "op_shard lc (LcPut now draw code url exp) sh = shard_put_positive lc now draw code url exp sh"
| "op_shard lc (LcNeg now code) sh = shard_put_negative lc now code sh"
| "op_shard lc (LcErase code) sh = shard_erase code sh"

lemma lc_step_shard: "lc_step op lc = at_shard (op_code op) (op_shard lc op) lc"
  by (cases op) (simp_all add: lc_get_def lc_put_positive_def lc_put_negative_def lc_erase_def at_shard_def Let_def)

lemma at_shard_fields [simp]:
  "shard_count (at_shard code f lc) = shard_count lc"
  "positive_byte_budget (at_shard code f lc) = positive_byte_budget lc"
  "negative_byte_budget (at_shard code f lc) = negative_byte_budget lc"
  "length (shards (at_shard code f lc)) = length (shards lc)"
  by (simp_all add: at_shard_def Let_def)

lemma shard_index_at [simp]: "shard_index (at_shard code f lc) = shard_index lc"
  by (rule ext) (simp add: shard_index_def)

lemma shard_index_bound: "lc_ok lc \<Longrightarrow> shard_index lc code < length (shards lc)"
  by (simp add: lc_ok_def shard_index_def)

definition shard_of :: "local_cache \<Rightarrow> string \<Rightarrow> shard" where
  "shard_of lc code = shards lc ! shard_index lc code"

lemma shard_of_ok: "lc_ok lc \<Longrightarrow> shard_ok (positive_byte_budget lc) (negative_byte_budget lc) (shard_of lc code)"
  using shard_index_bound [of lc code] by (simp add: lc_ok_def shard_of_def list_all_length)

lemma shard_of_at:
  "lc_ok lc \<Longrightarrow> shard_of (at_shard code f lc) k =
     (if shard_index lc k = shard_index lc code then f (shard_of lc code) else shard_of lc k)"
  using shard_index_bound [of lc code] by (simp add: shard_of_def) (simp add: at_shard_def Let_def)

lemma lc_step_shard_of:
  "lc_ok lc \<Longrightarrow> shard_of (lc_step op lc) (op_code op) = op_shard lc op (shard_of lc (op_code op))"
  by (simp add: lc_step_shard shard_of_at)

lemma op_shard_ok:
  "shard_ok (positive_byte_budget lc) (negative_byte_budget lc) sh \<Longrightarrow>
   shard_ok (positive_byte_budget lc) (negative_byte_budget lc) (op_shard lc op sh)"
  by (cases op) (simp_all add: wf_intros shard_put_positive_ok shard_put_negative_ok)

lemma lc_step_ok [wf_intros]: "lc_ok lc \<Longrightarrow> lc_ok (lc_step op lc)"
  using shard_of_ok [of lc "op_code op"]
  by (auto simp: lc_step_shard lc_ok_def at_shard_def Let_def shard_of_def list_all_iff
      dest!: set_update_subset_insert [THEN subsetD] intro: op_shard_ok)

lemma lc_configure_ok [wf_intros]: "lc_ok (lc_configure n pb nb t j nt)"
  by (simp add: lc_ok_def lc_configure_def Let_def list_all_iff new_shard_ok)


section \<open>A map that may forget\<close>

text \<open>The contract of a cache: an operation may write a key (\<open>Some (Some v)\<close>), remove it
  (\<open>Some None\<close>) or leave it (\<open>None\<close>), and whatever is found afterwards under a key it left alone was
  found there before.  Entries may disappear at any time.\<close>

fun last_write :: "('op \<Rightarrow> 'k \<Rightarrow> 'v option option) \<Rightarrow> 'op list \<Rightarrow> 'k \<Rightarrow> 'v option" where
  "last_write writes [] k = None"
| "last_write writes (op # ops) k =
     (case writes op k of None \<Rightarrow> last_write writes ops k | Some w \<Rightarrow> w)"

locale lossy_map =
  fixes invar :: "'s \<Rightarrow> bool"
    and step :: "'op \<Rightarrow> 's \<Rightarrow> 's"
    and lookup :: "'s \<Rightarrow> 'k \<Rightarrow> 'v option"
    and writes :: "'op \<Rightarrow> 'k \<Rightarrow> 'v option option"
  assumes invar_step: "invar s \<Longrightarrow> invar (step op s)"
    and step_written: "invar s \<Longrightarrow> writes op k = Some w \<Longrightarrow> lookup (step op s) k = Some v \<Longrightarrow> w = Some v"
    and step_kept: "invar s \<Longrightarrow> writes op k = None \<Longrightarrow> lookup (step op s) k = Some v \<Longrightarrow> lookup s k = Some v"
begin

lemma invar_run: "invar s \<Longrightarrow> invar (fold step ops s)"
  by (induction ops arbitrary: s) (simp_all add: invar_step)

text \<open>After any operations, a value found under a key is the last one written there.\<close>

lemma found_is_last_write:
  assumes "invar s" "lookup s k = None" "lookup (fold step (rev ops) s) k = Some v"
  shows "last_write writes ops k = Some v"
  using assms
proof (induction ops)
  case (Cons op ops)
  let ?s = "fold step (rev ops) s"
  have inv: "invar ?s" using Cons.prems(1) by (rule invar_run)
  show ?case
  proof (cases "writes op k")
    case None
    with Cons step_kept [OF inv None] show ?thesis by simp
  next
    case (Some w)
    with Cons.prems(3) step_written [OF inv Some] show ?thesis by simp
  qed
qed simp

end

text \<open>Both maps of the local cache keep it.\<close>

definition lc_lookup :: "local_cache \<Rightarrow> string \<Rightarrow> (string \<times> string \<times> int) option" where
  "lc_lookup lc code =
     map_option (\<lambda>e. (p_long_url e, p_expire_at e, p_cache_expire e)) (positive (shard_of lc code) code)"

definition lc_neg_lookup :: "local_cache \<Rightarrow> string \<Rightarrow> unit option" where
  "lc_neg_lookup lc code = map_option (\<lambda>_. ()) (negative (shard_of lc code) code)"

text \<open>What a put writes, for a cache with time to live \<open>T\<close> and jitter \<open>J\<close>: the URL, its business expiry
  and the moment from which the entry no longer counts.\<close>

fun lc_writes :: "int \<Rightarrow> int \<Rightarrow> lc_op \<Rightarrow> string \<Rightarrow> (string \<times> string \<times> int) option option" where
  "lc_writes T J (LcGet now dt code) k = None"
| "lc_writes T J (LcPut now draw code url exp) k = (if k = code then Some (Some (url, exp, now + ticks (if J \<le> 0 then T else T + draw))) else None)"
| "lc_writes T J (LcNeg now code) k = (if k = code then Some None else None)"
| "lc_writes T J (LcErase code) k = (if k = code then Some None else None)"

fun lc_neg_writes :: "lc_op \<Rightarrow> string \<Rightarrow> unit option option" where
  "lc_neg_writes (LcGet now dt code) k = None"
| "lc_neg_writes (LcPut now draw code url exp) k = (if k = code then Some None else None)"
| "lc_neg_writes (LcNeg now code) k = (if k = code then Some (Some ()) else None)"
| "lc_neg_writes (LcErase code) k = (if k = code then Some None else None)"

lemma shard_get_entries:
  "positive (snd (shard_get now dt code sh)) \<subseteq>\<^sub>m positive sh"
  "negative (snd (shard_get now dt code sh)) \<subseteq>\<^sub>m negative sh"
  by (auto simp: shard_get_def get_negative_def map_le_def split: option.splits)

lemma map_le_SomeD: "m \<subseteq>\<^sub>m m' \<Longrightarrow> m k = Some e \<Longrightarrow> m' k = Some e"
  by (metis domI map_le_def)

lemma op_shard_entries:
  assumes "shard_ok (positive_byte_budget lc) (negative_byte_budget lc) sh"
    and ttl: "positive_ttl_seconds lc = T" "positive_ttl_jitter_seconds lc = J"
  shows "positive (op_shard lc op sh) k = Some e \<Longrightarrow>
      (case lc_writes T J op k of None \<Rightarrow> positive sh k = Some e
       | Some w \<Rightarrow> w = Some (p_long_url e, p_expire_at e, p_cache_expire e))"
    "negative (op_shard lc op sh) k = Some d \<Longrightarrow>
      (case lc_neg_writes op k of None \<Rightarrow> negative sh k = Some d | Some w \<Rightarrow> w = Some ())"
proof -
  have pp: "shard_ok (positive_byte_budget lc) (negative_byte_budget lc) sh \<Longrightarrow>
      positive (shard_put_positive lc now draw code url exp sh) k = Some e \<Longrightarrow>
      (if k = code then p_long_url e = url \<and> p_expire_at e = exp
          \<and> p_cache_expire e = now + ticks (if J \<le> 0 then T else T + draw) else positive sh k = Some e)" for now draw code url exp
    using map_le_SomeD [of "positive (shard_put_positive lc now draw code url exp sh)"]
      shard_put_positive_ok [of lc "negative_byte_budget lc" sh now draw code url exp] ttl
    by (fastforce simp: ttl_with_jitter_locked_def)
  have nn: "shard_ok (positive_byte_budget lc) (negative_byte_budget lc) sh \<Longrightarrow>
      negative (shard_put_negative lc now code sh) k = Some d \<Longrightarrow> k \<noteq> code \<Longrightarrow> negative sh k = Some d" for now code
    using map_le_SomeD [of "negative (shard_put_negative lc now code sh)"]
      shard_put_negative_ok [of "positive_byte_budget lc" lc sh now code] by fastforce
  show "positive (op_shard lc op sh) k = Some e \<Longrightarrow>
      (case lc_writes T J op k of None \<Rightarrow> positive sh k = Some e | Some w \<Rightarrow> w = Some (p_long_url e, p_expire_at e, p_cache_expire e))"
    using assms shard_put_negative_ok [OF assms(1)]
    by (cases op) (auto simp: shard_erase_def dest: map_le_SomeD [OF shard_get_entries(1)] pp split: if_splits)
  show "negative (op_shard lc op sh) k = Some d \<Longrightarrow>
      (case lc_neg_writes op k of None \<Rightarrow> negative sh k = Some d | Some w \<Rightarrow> w = Some ())"
    using assms shard_put_positive_ok [OF assms(1)]
    by (cases op) (auto simp: shard_erase_def dest: map_le_SomeD [OF shard_get_entries(2)] nn split: if_splits)
qed

lemma other_code_unwritten: "k \<noteq> op_code op \<Longrightarrow> lc_writes T J op k = None \<and> lc_neg_writes op k = None"
  by (cases op) simp_all

lemma lc_step_entries:
  assumes "lc_ok lc" and ttl: "positive_ttl_seconds lc = T" "positive_ttl_jitter_seconds lc = J"
  shows "lc_lookup (lc_step op lc) k = Some v \<Longrightarrow>
      (case lc_writes T J op k of None \<Rightarrow> lc_lookup lc k = Some v | Some w \<Rightarrow> w = Some v)"
    "lc_neg_lookup (lc_step op lc) k = Some u \<Longrightarrow>
      (case lc_neg_writes op k of None \<Rightarrow> lc_neg_lookup lc k = Some u | Some w \<Rightarrow> w = Some u)"
proof -
  note sh = shard_of_ok [OF assms(1), of "op_code op"]
  have same: "shard_of lc k = shard_of lc (op_code op)" if "shard_index lc k = shard_index lc (op_code op)"
    using that by (simp add: shard_of_def)
  have other: "lc_writes T J op k = None \<and> lc_neg_writes op k = None"
    if "shard_index lc k \<noteq> shard_index lc (op_code op)"
    using that other_code_unwritten by metis
  show "lc_lookup (lc_step op lc) k = Some v \<Longrightarrow>
      (case lc_writes T J op k of None \<Rightarrow> lc_lookup lc k = Some v | Some w \<Rightarrow> w = Some v)"
    using op_shard_entries(1) [OF sh ttl, of op k] other
    by (auto simp: lc_lookup_def lc_step_shard shard_of_at [OF assms(1)] same split: if_splits option.splits)
  show "lc_neg_lookup (lc_step op lc) k = Some u \<Longrightarrow>
      (case lc_neg_writes op k of None \<Rightarrow> lc_neg_lookup lc k = Some u | Some w \<Rightarrow> w = Some u)"
    using op_shard_entries(2) [OF sh ttl, of op k] other
    by (auto simp: lc_neg_lookup_def lc_step_shard shard_of_at [OF assms(1)] same split: if_splits option.splits)
qed

definition lc_ready :: "int \<Rightarrow> int \<Rightarrow> local_cache \<Rightarrow> bool" where
  "lc_ready T J lc \<longleftrightarrow> lc_ok lc \<and> positive_ttl_seconds lc = T \<and> positive_ttl_jitter_seconds lc = J"

lemma lc_step_ready: "lc_ready T J lc \<Longrightarrow> lc_ready T J (lc_step op lc)"
  using lc_step_ok [of lc op] by (simp add: lc_ready_def) (simp add: lc_step_shard at_shard_def Let_def)

interpretation lc_pos: lossy_map "lc_ready T J" lc_step lc_lookup "lc_writes T J" for T J
proof unfold_locales
  show "lc_ready T J (lc_step op lc)" if "lc_ready T J lc" for lc op by (rule lc_step_ready [OF that])
  show "w = Some v" if "lc_ready T J lc" "lc_writes T J op k = Some w" "lc_lookup (lc_step op lc) k = Some v" for lc op k w v
    using lc_step_entries(1) [of lc T J op k v] that by (simp add: lc_ready_def)
  show "lc_lookup lc k = Some v" if "lc_ready T J lc" "lc_writes T J op k = None" "lc_lookup (lc_step op lc) k = Some v" for lc op k v
    using lc_step_entries(1) [of lc T J op k v] that by (simp add: lc_ready_def)
qed

interpretation lc_neg: lossy_map "lc_ready T J" lc_step lc_neg_lookup lc_neg_writes for T J
proof unfold_locales
  show "lc_ready T J (lc_step op lc)" if "lc_ready T J lc" for lc op by (rule lc_step_ready [OF that])
  show "w = Some v" if "lc_ready T J lc" "lc_neg_writes op k = Some w" "lc_neg_lookup (lc_step op lc) k = Some v" for lc op k w v
    using lc_step_entries(2) [of lc T J op k v] that by (simp add: lc_ready_def)
  show "lc_neg_lookup lc k = Some v" if "lc_ready T J lc" "lc_neg_writes op k = None" "lc_neg_lookup (lc_step op lc) k = Some v" for lc op k v
    using lc_step_entries(2) [of lc T J op k v] that by (simp add: lc_ready_def)
qed

section \<open>Reading back a fresh entry\<close>

text \<open>Eviction works from the old end of the queue: a key queued only at the new end survives if its entry fits
  the budget.\<close>

lemma evict_keeps_last:
  assumes "tier_ok f m (pre @ [k]) b" "k \<notin> set pre" "m k = Some e" "f e \<le> B"
  shows "fst (evict_loop B f m (pre @ [k]) b) k = Some e"
  using assms
proof (induction pre arbitrary: m b)
  case Nil
  then have "dom m = {k}" by (auto simp: tier_ok_def)
  with Nil have "b \<le> B" by (simp add: tier_ok_def tier_sum_def)
  with Nil show ?case by simp
next
  case (Cons v pre)
  show ?case
  proof (cases "b > B")
    case True
    show ?thesis
    proof (cases "m v")
      case None
      with Cons.prems have "tier_ok f m (pre @ [k]) b" by (auto simp: tier_ok_def)
      with Cons True None show ?thesis by simp
    next
      case (Some ev)
      have "tier_ok f (m(v := None)) (pre @ [k]) (b - f ev)"
        using tier_ok_drop(1) [OF Cons.prems(1) Some] by (auto simp: tier_ok_def)
      moreover have "(m(v := None)) k = Some e" using Cons.prems by simp
      moreover have "k \<notin> set pre" using Cons.prems(2) by simp
      ultimately have "fst (evict_loop B f (m(v := None)) (pre @ [k]) (b - f ev)) k = Some e"
        using Cons.IH Cons.prems(4) by blast
      with True Some show ?thesis by (simp del: fun_upd_apply)
    qed
  qed (use Cons in simp)
qed

lemma put_positive_found:
  assumes "lc_ok lc" "code \<notin> set (positive_fifo (shard_of lc code))"
    and "estimate_positive_bytes code url exp \<le> positive_byte_budget lc"
  shows "positive (shard_of (lc_put_positive now draw code url exp lc) code) code =
    Some \<lparr>p_long_url = url, p_expire_at = exp, p_cache_expire = now + ticks (ttl_with_jitter_locked lc draw),
          p_bytes = estimate_positive_bytes code url exp\<rparr>" (is "_ = Some ?e")
proof -
  let ?sh = "drop_negative code (shard_of lc code)"
  have sh: "shard_of (lc_put_positive now draw code url exp lc) code = shard_put_positive lc now draw code url exp (shard_of lc code)"
    unfolding lc_put_positive_def by (simp add: shard_of_at [OF assms(1)])
  have tier: "tier_ok p_bytes (positive ?sh) (positive_fifo ?sh) (positive_bytes ?sh)"
    using drop_negative_ok [OF shard_of_ok [OF assms(1), of code]] by (simp add: shard_ok_def)
  have fifo: "positive_fifo ?sh = positive_fifo (shard_of lc code)" by (simp add: drop_negative_def split: option.splits)
  then have none: "positive ?sh code = None" using tier assms(2) by (auto simp: tier_ok_def)
  let ?m = "(positive ?sh)(code \<mapsto> ?e)" and ?q = "positive_fifo ?sh @ [code]" and ?b = "positive_bytes ?sh + p_bytes ?e"
  have t2: "tier_ok p_bytes ?m ?q ?b" by (rule tier_ok_insert [OF tier none])
  have "fst (evict_loop (positive_byte_budget lc) p_bytes ?m ?q ?b) code = Some ?e"
    by (rule evict_keeps_last [OF t2]) (use fifo assms in simp_all)
  moreover have "shard_put_positive lc now draw code url exp (shard_of lc code)
      = evict_positive_locked lc (?sh\<lparr>positive := ?m, positive_fifo := ?q, positive_bytes := ?b\<rparr>)"
    unfolding shard_put_positive_def Let_def using none by simp
  ultimately show ?thesis unfolding sh by (simp add: evict_positive_locked_def split: prod.splits)
qed

lemma put_then_get:
  assumes "lc_ok lc" "code \<notin> set (positive_fifo (shard_of lc code))"
    "estimate_positive_bytes code url exp \<le> positive_byte_budget lc"
    and "now' < now + ticks (ttl_with_jitter_locked lc draw)" "\<not> is_business_expired dt exp"
  shows "fst (lc_get now' dt code (lc_put_positive now draw code url exp lc)) =
    (LcHit, Some \<lparr>v_long_url = url, v_expire_at = exp\<rparr>)"
proof -
  note found = put_positive_found [OF assms(1-3), of now draw]
  from assms(4,5) show ?thesis unfolding lc_get_def Let_def fst_conv shard_of_def [symmetric]
    by (simp add: shard_get_def found)
qed

section \<open>Properties\<close>

lemma lc_configure_ready: "lc_ready (max 1 t) (max 0 j) (lc_configure n pb nb t j nt)"
  using lc_configure_ok [of n pb nb t j nt] by (simp add: lc_ready_def) (simp add: lc_configure_def Let_def)

lemma lc_configure_empty:
  "lc_lookup (lc_configure n pb nb t j nt) k = None" "lc_neg_lookup (lc_configure n pb nb t j nt) k = None"
proof -
  have "shard_index (lc_configure n pb nb t j nt) k < max 1 n"
    by (simp add: lc_configure_def Let_def shard_index_def)
  then have "shard_of (lc_configure n pb nb t j nt) k = new_shard"
    by (simp add: shard_of_def) (simp add: lc_configure_def Let_def)
  then show "lc_lookup (lc_configure n pb nb t j nt) k = None" "lc_neg_lookup (lc_configure n pb nb t j nt) k = None"
    by (simp_all add: lc_lookup_def lc_neg_lookup_def new_shard_def)
qed

lemma lc_get_result:
  assumes "lc_get now dt code lc = ((st, view), lc')"
  shows "st \<in> {LcHit, LcExpired} \<Longrightarrow> \<exists>url exp ce. lc_lookup lc code = Some (url, exp, ce) \<and> now < ce
      \<and> view = Some \<lparr>v_long_url = url, v_expire_at = exp\<rparr> \<and> (st = LcExpired \<longleftrightarrow> is_business_expired dt exp)"
    "st = LcNegHit \<Longrightarrow> lc_neg_lookup lc code = Some ()"
  using assms
  by (auto simp: lc_get_def shard_get_def get_negative_def shard_of_def [symmetric] Let_def lc_lookup_def
      lc_neg_lookup_def split: option.splits if_splits)

text \<open>C17: The local cache never serves a wrong mapping.  After any operations on a configured cache
  (newest first in \<open>ops\<close>), whatever was evicted, a hit returns the URL and expiry of the last put of
  that code, with no erase or negative put since, within its time to live, and reports it as expired
  exactly when its business expiry has passed; a negative hit means the last write of that code was a
  negative put.\<close>

theorem local_cache_sound:
  assumes "lc_get now dt code (fold lc_step (rev ops) (lc_configure n pb nb t j nt)) = ((st, view), lc')"
  shows "(st \<in> {LcHit, LcExpired} \<longrightarrow>
      (\<exists>url exp ce. last_write (lc_writes (max 1 t) (max 0 j)) ops code = Some (url, exp, ce) \<and> now < ce
         \<and> view = Some \<lparr>v_long_url = url, v_expire_at = exp\<rparr> \<and> (st = LcExpired \<longleftrightarrow> is_business_expired dt exp)))
    \<and> (st = LcNegHit \<longrightarrow> last_write lc_neg_writes ops code = Some ())"
  using lc_get_result [OF assms]
    lc_pos.found_is_last_write [OF lc_configure_ready lc_configure_empty(1)]
    lc_neg.found_is_last_write [OF lc_configure_ready lc_configure_empty(2)]
  by blast

theorem local_cache_sound_witness:
  "\<exists>view lc'. lc_get 5 ''2026'' ''b'' (fold lc_step (rev [LcPut 3 7 ''b'' ''http://x'' [], LcErase ''b'', LcPut 0 0 ''a'' ''http://y'' []])
       (lc_configure 1 4096 4096 60 10 5)) = ((LcHit, view), lc')
     \<and> last_write (lc_writes (max 1 60) (max 0 10)) [LcPut 3 7 ''b'' ''http://x'' [], LcErase ''b'', LcPut 0 0 ''a'' ''http://y'' []] ''b''
       = Some (''http://x'', [], 3 + ticks 67)
     \<and> view = Some \<lparr>v_long_url = ''http://x'', v_expire_at = []\<rparr>"
proof -
  let ?ops = "[LcPut 3 7 ''b'' ''http://x'' [], LcErase ''b'', LcPut 0 0 ''a'' ''http://y'' []]"
  let ?lc = "fold lc_step (rev ?ops) (lc_configure 1 4096 4096 60 10 5)"
  obtain st view lc' where g: "lc_get 5 ''2026'' ''b'' ?lc = ((st, view), lc')" by (cases "lc_get 5 ''2026'' ''b'' ?lc") auto
  have "fst (fst (lc_get 5 ''2026'' ''b'' ?lc)) = LcHit"
    by (simp add: lc_configure_def Let_def shard_index_def lc_get_def lc_put_positive_def lc_erase_def at_shard_def
        new_shard_def shard_put_positive_def shard_erase_def drop_positive_def drop_negative_def shard_get_def
        evict_positive_locked_def estimate_positive_bytes_def ttl_with_jitter_locked_def ticks_def is_business_expired_def)
  with g have st: "st = LcHit" by simp
  have "last_write (lc_writes (max 1 60) (max 0 10)) ?ops ''b'' = Some (''http://x'', [], 3 + ticks 67)" by simp
  with local_cache_sound [OF g] g st show ?thesis by auto
qed


lemma lc_run_budgets:
  "positive_byte_budget (fold lc_step ops lc) = positive_byte_budget lc"
  "negative_byte_budget (fold lc_step ops lc) = negative_byte_budget lc"
  "shard_count (fold lc_step ops lc) = shard_count lc"
  by (induction ops arbitrary: lc) (simp_all add: lc_step_shard)

lemma lc_run_ok: "lc_ok lc \<Longrightarrow> lc_ok (fold lc_step ops lc)"
  by (induction ops arbitrary: lc) (simp_all add: lc_step_ok)

lemma sum_list_budget:
  "list_all (\<lambda>x. f x \<le> b) xs \<Longrightarrow> sum_list (map f xs) \<le> length xs * (b :: nat)"
  by (induction xs) auto

lemma budget_split: "n * max 1024 (b div n) \<le> max (1024 * n) (b :: nat)"
proof -
  have "n * (b div n) \<le> max (1024 * n) b" by (rule order_trans [OF times_div_less_eq_dividend]) simp
  then show ?thesis by (simp add: nat_mult_max_right)
qed

text \<open>C18: The byte budgets hold at all times.  After any operations the cache still has the configured number
  of shards; in every shard, and in each of its two tiers, the byte counter is exactly the sum over the live
  entries and is within that shard's share of the budget (the budget divided by the number of shards, but
  never less than 1024 bytes), so an entry that is larger than the share is not kept; and the totals over
  the shards are within the configured budgets (but never less than 1024 bytes a shard).\<close>

theorem local_cache_within_budget:
  "let lc = fold lc_step ops (lc_configure n pb nb t j nt)
   in length (shards lc) = max 1 n
    \<and> list_all (\<lambda>sh. positive_bytes sh = tier_sum p_bytes (positive sh) \<and> positive_bytes sh \<le> max 1024 (pb div max 1 n)
        \<and> negative_bytes sh = tier_sum n_bytes (negative sh) \<and> negative_bytes sh \<le> max 1024 (nb div max 1 n)) (shards lc)
    \<and> lc_positive_bytes lc \<le> max (1024 * max 1 n) pb \<and> lc_negative_bytes lc \<le> max (1024 * max 1 n) nb"
proof -
  define lc where "lc = fold lc_step ops (lc_configure n pb nb t j nt)"
  let ?pb = "max 1024 (pb div max 1 n)" and ?nb = "max 1024 (nb div max 1 n)"
  have ok: "lc_ok lc" unfolding lc_def by (rule lc_run_ok [OF lc_configure_ok])
  have budgets: "positive_byte_budget lc = ?pb" "negative_byte_budget lc = ?nb" "length (shards lc) = max 1 n"
    using ok unfolding lc_ok_def by (simp_all add: lc_def lc_run_budgets) (simp_all add: lc_configure_def Let_def)
  have each: "list_all (\<lambda>sh. positive_bytes sh = tier_sum p_bytes (positive sh) \<and> positive_bytes sh \<le> ?pb
      \<and> negative_bytes sh = tier_sum n_bytes (negative sh) \<and> negative_bytes sh \<le> ?nb) (shards lc)"
    using ok by (auto simp: lc_ok_def shard_ok_def tier_ok_def list_all_iff budgets)
  then have "list_all (\<lambda>sh. positive_bytes sh \<le> ?pb) (shards lc)" "list_all (\<lambda>sh. negative_bytes sh \<le> ?nb) (shards lc)"
    unfolding list_all_iff by blast+
  note total = this [THEN sum_list_budget, unfolded budgets(3)]
  have "lc_positive_bytes lc \<le> max (1024 * max 1 n) pb"
    unfolding lc_positive_bytes_def by (rule order_trans [OF total(1) budget_split])
  moreover have "lc_negative_bytes lc \<le> max (1024 * max 1 n) nb"
    unfolding lc_negative_bytes_def by (rule order_trans [OF total(2) budget_split])
  ultimately show ?thesis using budgets(3) each unfolding Let_def lc_def by blast
qed

lemma put_erase_round:
  assumes "estimate_positive_bytes code url exp \<le> positive_byte_budget lc"
    "positive sh code = None" "positive_bytes sh = 0"
  shows "let sh' = shard_erase code (shard_put_positive lc now draw code url exp sh)
    in positive sh' code = None \<and> positive_bytes sh' = 0 \<and> positive_fifo sh' = positive_fifo sh @ [code]"
proof -
  have keep: "evict_loop B f m q b = (m, q, b)" if "b \<le> B" for B b :: nat and f :: "positive_entry \<Rightarrow> nat" and m q
    using that by (cases q) simp_all
  have "positive_bytes (drop_negative code sh) = 0" "positive_fifo (drop_negative code sh) = positive_fifo sh"
    using assms(3) by (simp_all add: drop_negative_def split: option.split)
  with assms show ?thesis
    by (simp add: Let_def shard_erase_def shard_put_positive_def evict_positive_locked_def keep)
      (simp add: drop_positive_def drop_negative_def split: option.splits)
qed

text \<open>The budget does not bound the memory of the queues.  A code that is put and removed again (by an
  erase, an expiry or a negative entry) leaves its key in the eviction queue, which is only trimmed
  while the byte counter exceeds the budget: after \<open>k\<close> such rounds the queue of the shard holds
  \<open>k\<close> keys while its byte counter is 0.\<close>

theorem queue_grows_with_churn:
  assumes "estimate_positive_bytes code url exp \<le> positive_byte_budget (lc_configure n pb nb t j nt)"
  shows "let sh = shard_of (fold lc_step (concat (replicate k [LcPut now draw code url exp, LcErase code]))
                    (lc_configure n pb nb t j nt)) code
    in length (positive_fifo sh) = k \<and> positive_bytes sh = 0"
proof -
  let ?lc = "lc_configure n pb nb t j nt" and ?ops = "\<lambda>k. concat (replicate k [LcPut now draw code url exp, LcErase code])"
  let ?run = "\<lambda>k. fold lc_step (?ops k) ?lc"
  have "let sh = shard_of (?run k) code in positive sh code = None \<and> positive_bytes sh = 0 \<and> length (positive_fifo sh) = k"
  proof (induction k)
    case 0
    have "shard_index ?lc code < max 1 n" by (simp add: lc_configure_def Let_def shard_index_def)
    then have "shard_of ?lc code = new_shard" by (simp add: shard_of_def) (simp add: lc_configure_def Let_def)
    then show ?case by (simp add: new_shard_def)
  next
    case (Suc k)
    have ok: "lc_ok (?run k)" by (rule lc_run_ok [OF lc_configure_ok])
    have run: "?run (Suc k) = lc_step (LcErase code) (lc_step (LcPut now draw code url exp) (?run k))"
    proof -
      have "?ops (Suc k) = ?ops k @ [LcPut now draw code url exp, LcErase code]"
        unfolding replicate_Suc replicate_append_same [symmetric] by simp
      then show ?thesis by (simp del: lc_step.simps)
    qed
    have "shard_of (?run (Suc k)) code
        = shard_erase code (shard_put_positive (?run k) now draw code url exp (shard_of (?run k) code))"
      unfolding run
      using lc_step_shard_of [OF lc_step_ok [OF ok], of "LcErase code" "LcPut now draw code url exp"]
        lc_step_shard_of [OF ok, of "LcPut now draw code url exp"] by simp
    with put_erase_round [of code url exp "?run k" "shard_of (?run k) code" now draw] Suc assms
    show ?case by (simp add: Let_def lc_run_budgets)
  qed
  then show ?thesis by (simp add: Let_def)
qed

theorem queue_grows_with_churn_witness:
  "let sh = shard_of (fold lc_step (concat (replicate 1000 [LcPut 0 0 ''abc'' ''http://example.org'' [], LcErase ''abc'']))
                    (lc_configure 16 4096 4096 60 0 5)) ''abc''
   in length (positive_fifo sh) = 1000 \<and> positive_bytes sh = 0"
  by (rule queue_grows_with_churn) (simp add: estimate_positive_bytes_def lc_configure_def Let_def)

end
