(* ===== verification/Locks.thy ===== *)
theory Locks
  imports Prelude
begin

text \<open>
  \<open>src/lock/locker.h\<close>: the wrappers \<open>sem\<close>, \<open>locker\<close> and \<open>cond\<close> around the POSIX primitives.

  A semaphore is its count.  A call that would block has no result (\<open>None\<close>).  Whether the system can create
  a primitive, and what wakes a timed wait, are arguments.

  A \<open>locker\<close> with the \<open>cond\<close> used under it is one \<open>monitor\<close>: the thread that owns the mutex and the
  threads asleep in \<open>pthread_cond_wait\<close>.  Unlocking, or waiting with, a mutex one does not own is undefined
  behaviour (\<open>None\<close>).  The contract that a program using a monitor relies on is the locale \<open>monitor_client\<close>.
\<close>

section \<open>The semaphore\<close>

datatype lock_error = InitFailed

definition sem_new :: "bool \<Rightarrow> nat \<Rightarrow> lock_error + nat" where
  "sem_new created num = (if \<not> created then Inl InitFailed else Inr num)"

text \<open>\<open>sem::wait(int)\<close>: whether the count could be decremented before the deadline.  With a negative
  timeout an empty semaphore blocks (\<open>None\<close>).  The clock can be read.  A signal that ends the wait without a
  timeout (false, the count unchanged) is not a value of this function; the workers of \<open>Thread_Pool\<close> have it as a step of
  its own, \<open>tp_interrupt\<close>.\<close>

definition sem_wait :: "int \<Rightarrow> nat \<Rightarrow> (bool \<times> nat) option" where
  "sem_wait timeout_ms n =
     (if n > 0 then Some (True, n - 1)
      else if timeout_ms < 0 then None
      else Some (False, n))"

definition sem_post :: "nat \<Rightarrow> nat" where
  "sem_post n = n + 1"

text \<open>\<open>reset\<close> destroys the semaphore and creates it anew.\<close>

definition sem_reset :: "bool \<Rightarrow> nat \<Rightarrow> nat \<Rightarrow> bool \<times> nat option" where
  "sem_reset created num n = (created, if created then Some num else None)"

text \<open>The absolute deadline of a timed wait, from the clock reading \<open>(tv_sec, tv_nsec)\<close>.\<close>

definition sem_deadline :: "int \<Rightarrow> int \<times> int \<Rightarrow> int \<times> int" where
  "sem_deadline timeout_ms ts =
     (let sec = fst ts + timeout_ms div 1000;
          nsec = snd ts + timeout_ms mod 1000 * 1000000
      in if nsec \<ge> 1000000000 then (sec + 1, nsec - 1000000000) else (sec, nsec))"

text \<open>What ends one call of \<open>sem_timedwait\<close>: it took one of \<open>Suc n\<close> and left \<open>n\<close>, a signal handler ran, or
  the deadline passed.  The loop calls it again after a signal.\<close>

datatype timed_end = Taken nat | Interrupted | Deadline

fun timedwait_loop :: "timed_end list \<Rightarrow> (bool \<times> nat option) option" where
  "timedwait_loop [] = None"
| "timedwait_loop (Taken n # es) = Some (True, Some n)"
| "timedwait_loop (Interrupted # es) = timedwait_loop es"
| "timedwait_loop (Deadline # es) = Some (False, None)"

lemma sem_deadline_exact:
  assumes "0 < timeout_ms" "0 \<le> snd ts" "snd ts < 1000000000"
  shows "fst (sem_deadline timeout_ms ts) * 1000000000 + snd (sem_deadline timeout_ms ts)
           = fst ts * 1000000000 + snd ts + timeout_ms * 1000000
         \<and> 0 \<le> snd (sem_deadline timeout_ms ts) \<and> snd (sem_deadline timeout_ms ts) < 1000000000"
proof -
  have t: "timeout_ms mod 1000 * 1000000 + timeout_ms div 1000 * 1000000000 = timeout_ms * 1000000" by presburger
  have "0 \<le> timeout_ms mod 1000" "timeout_ms mod 1000 < 1000" by simp_all
  with assms t show ?thesis unfolding sem_deadline_def Let_def by (auto simp: algebra_simps)
qed

text \<open>A timed wait answers like \<open>sem_wait\<close> does at the moment it ends, however often it was interrupted.\<close>

lemma timedwait_loop_sem_wait:
  assumes "timedwait_loop es = Some (b, r)" "0 \<le> timeout_ms"
  shows "sem_wait timeout_ms (case r of Some n \<Rightarrow> Suc n | None \<Rightarrow> 0) = Some (b, case r of Some n \<Rightarrow> n | None \<Rightarrow> 0)"
  using assms by (induction es rule: timedwait_loop.induct) (auto simp: sem_wait_def)

lemma timedwait_loop_returns: "Deadline \<in> set es \<Longrightarrow> timedwait_loop es \<noteq> None"
  by (induction es rule: timedwait_loop.induct) auto

section \<open>The mutex and the condition variable\<close>

record monitor =
  mon_owner :: "nat option"
  mon_sleepers :: "nat list"

definition locker_new :: "bool \<Rightarrow> lock_error + nat option" where
  "locker_new created = (if \<not> created then Inl InitFailed else Inr None)"

definition cond_new :: "bool \<Rightarrow> lock_error + nat list" where
  "cond_new created = (if \<not> created then Inl InitFailed else Inr [])"

definition monitor_new :: "bool \<Rightarrow> bool \<Rightarrow> lock_error + monitor" where
  "monitor_new mutex_created cond_created =
     (case locker_new mutex_created of
        Inl e \<Rightarrow> Inl e
      | Inr u \<Rightarrow> (case cond_new cond_created of Inl e \<Rightarrow> Inl e | Inr ts \<Rightarrow> Inr \<lparr>mon_owner = u, mon_sleepers = ts\<rparr>))"

definition mon_lock :: "nat \<Rightarrow> monitor \<Rightarrow> monitor option" where
  "mon_lock t m = (if mon_owner m = None then Some (m\<lparr>mon_owner := Some t\<rparr>) else None)"

definition mon_unlock :: "nat \<Rightarrow> monitor \<Rightarrow> monitor option" where
  "mon_unlock t m = (if mon_owner m = Some t then Some (m\<lparr>mon_owner := None\<rparr>) else None)"

text \<open>\<open>cond::wait\<close> and \<open>cond::timewait\<close> up to the moment the thread sleeps.  It returns by taking the mutex
  again (\<open>mon_lock\<close>), once it is no longer among the sleepers.\<close>

definition mon_wait :: "nat \<Rightarrow> monitor \<Rightarrow> monitor option" where
  "mon_wait t m =
     (if mon_owner m = Some t then Some (m\<lparr>mon_owner := None, mon_sleepers := t # mon_sleepers m\<rparr>) else None)"

text \<open>\<open>signal\<close> wakes one sleeper, which one is up to the system; \<open>broadcast\<close> wakes all of them.  A sleeper
  also wakes when its time is up, or spuriously.\<close>

definition mon_wake :: "nat \<Rightarrow> monitor \<Rightarrow> monitor" where
  "mon_wake t m = m\<lparr>mon_sleepers := removeAll t (mon_sleepers m)\<rparr>"

definition mon_signal :: "nat \<Rightarrow> monitor \<Rightarrow> monitor option" where
  "mon_signal u m =
     (if mon_sleepers m = [] then Some m
      else if u \<in> set (mon_sleepers m) then Some (mon_wake u m) else None)"

definition mon_broadcast :: "monitor \<Rightarrow> monitor" where
  "mon_broadcast m = m\<lparr>mon_sleepers := []\<rparr>"

lemmas mon_defs = mon_lock_def mon_unlock_def mon_wait_def mon_wake_def mon_broadcast_def

section \<open>The contract of a monitor\<close>

text \<open>A program whose threads are in phases: \<open>holds\<close> those between taking the mutex and giving it back,
  \<open>asleep\<close> those inside a wait.\<close>

locale monitor_client =
  fixes holds :: "'p \<Rightarrow> bool" and asleep :: "'p \<Rightarrow> bool"
  assumes asleep_free: "asleep p \<Longrightarrow> \<not> holds p"
begin

definition mon_ok :: "monitor \<Rightarrow> (nat \<Rightarrow> 'p) \<Rightarrow> bool" where
  "mon_ok m ph \<longleftrightarrow> (\<forall>t. holds (ph t) \<longleftrightarrow> mon_owner m = Some t) \<and> (\<forall>t \<in> set (mon_sleepers m). asleep (ph t))"

lemma mutual_exclusion: "mon_ok m ph \<Longrightarrow> holds (ph t) \<Longrightarrow> holds (ph u) \<Longrightarrow> t = u"
  by (simp add: mon_ok_def)

lemma mon_ok_start: "monitor_new a b = Inr m \<Longrightarrow> (\<And>t. \<not> holds (ph t)) \<Longrightarrow> mon_ok m ph"
  by (auto simp: mon_ok_def monitor_new_def locker_new_def cond_new_def split: if_splits)

lemma mon_ok_lock:
  "mon_ok m ph \<Longrightarrow> mon_lock t m = Some m' \<Longrightarrow> t \<notin> set (mon_sleepers m) \<Longrightarrow> holds p \<Longrightarrow> mon_ok m' (ph(t := p))"
  by (auto simp: mon_ok_def mon_lock_def split: if_splits)

lemma mon_ok_unlock:
  "mon_ok m ph \<Longrightarrow> mon_unlock t m = Some m' \<Longrightarrow> \<not> holds p \<Longrightarrow> mon_ok m' (ph(t := p))"
  by (auto simp: mon_ok_def mon_unlock_def split: if_splits) (metis asleep_free)

lemma mon_ok_wait:
  "mon_ok m ph \<Longrightarrow> mon_wait t m = Some m' \<Longrightarrow> asleep p \<Longrightarrow> mon_ok m' (ph(t := p))"
  by (auto simp: mon_ok_def mon_wait_def dest: asleep_free split: if_splits)

lemma mon_ok_move:
  "mon_ok m ph \<Longrightarrow> holds p = holds (ph t) \<Longrightarrow> t \<notin> set (mon_sleepers m) \<Longrightarrow> mon_ok m (ph(t := p))"
  by (auto simp: mon_ok_def)

lemma mon_ok_broadcast: "mon_ok m ph \<Longrightarrow> mon_ok (mon_broadcast m) ph"
  by (auto simp: mon_ok_def mon_broadcast_def)

lemma mon_ok_wake: "mon_ok m ph \<Longrightarrow> mon_ok (mon_wake t m) ph"
  by (auto simp: mon_ok_def mon_wake_def)

lemma not_sleeping: "mon_ok m ph \<Longrightarrow> \<not> asleep (ph t) \<Longrightarrow> t \<notin> set (mon_sleepers m)"
  by (auto simp: mon_ok_def)

lemma holder_unlocks: "mon_ok m ph \<Longrightarrow> holds (ph t) \<Longrightarrow> \<exists>m'. mon_unlock t m = Some m'"
  by (simp add: mon_ok_def mon_unlock_def)

lemma holder_waits: "mon_ok m ph \<Longrightarrow> holds (ph t) \<Longrightarrow> \<exists>m'. mon_wait t m = Some m'"
  by (simp add: mon_ok_def mon_wait_def)

lemma lock_or_held: "mon_ok m ph \<Longrightarrow> (\<exists>m'. mon_lock t m = Some m') \<or> (\<exists>u. holds (ph u))"
  by (auto simp: mon_ok_def mon_lock_def)

end

end
