(* ===== verification/Single_Flight.thy ===== *)
theory Single_Flight
  imports Locks
begin

text \<open>
  \<open>src/shorturl/singleflight.h\<close> and \<open>singleflight.cpp\<close>: concurrent callers with the same key share
  one run of the loader.

  The critical sections of \<open>do_flight\<close> are functions on the shared state; a thread moves through
  them as a state machine (\<open>sf_step\<close>), with any interleaving of threads between two sections.  A
  shared pointer to a \<open>Call\<close> is its number in the store \<open>calls\<close>; pointers are compared as numbers.
  The map from keys to calls in flight is a list of pairs with distinct keys.

  The mutex \<open>mu\<close> and the condition variable \<open>cv\<close> of a call are a \<open>monitor\<close>: a waiter that finds the call
  not done sleeps until \<open>notify_all\<close> or a spurious wake-up, and takes \<open>mu\<close> again before it looks at \<open>done\<close>.
  \<open>mutex_\<close> is held only inside one section.
\<close>

section \<open>State\<close>

datatype sf_kind = FlightHit | FlightNotFound | FlightExpired | FlightError | FlightOverload

record sf_result =
  sf_kind :: sf_kind
  sf_long_url :: string
  sf_expire_at :: string
  sf_error :: string

definition sf_result_new :: sf_result where
  "sf_result_new = \<lparr>sf_kind = FlightError, sf_long_url = [], sf_expire_at = [], sf_error = []\<rparr>"

record sf_call =
  call_done :: bool
  call_result :: sf_result
  call_waiters :: nat
  call_mon :: monitor

definition new_call :: sf_call where
  "new_call = \<lparr>call_done = False, call_result = sf_result_new, call_waiters = 0,
                call_mon = \<lparr>mon_owner = None, mon_sleepers = []\<rparr>\<rparr>"

record singleflight =
  inflight :: "(string \<times> nat) list"
  calls :: "nat \<Rightarrow> sf_call"
  next_call :: nat
  max_inflight :: nat
  max_waiters_per_key :: nat

definition singleflight_new :: singleflight where
  "singleflight_new = \<lparr>inflight = [], calls = (\<lambda>_. new_call), next_call = 0,
                       max_inflight = 1024, max_waiters_per_key = 256\<rparr>"

definition sf_configure :: "nat \<Rightarrow> nat \<Rightarrow> singleflight \<Rightarrow> singleflight" where
  "sf_configure max_fl max_wt sf =
     sf\<lparr>max_inflight := (if max_fl = 0 then 1 else max_fl),
        max_waiters_per_key := (if max_wt = 0 then 1 else max_wt)\<rparr>"

definition inflight_count :: "singleflight \<Rightarrow> nat" where
  "inflight_count sf = length (inflight sf)"

section \<open>Critical sections of \<open>do_flight\<close>\<close>

definition overflow :: "string \<Rightarrow> sf_result" where
  "overflow msg = sf_result_new\<lparr>sf_kind := FlightOverload, sf_error := msg\<rparr>"

datatype sf_entry = Rejected sf_result | Joined nat | Leading nat

definition with_call :: "nat \<Rightarrow> (sf_call \<Rightarrow> sf_call) \<Rightarrow> singleflight \<Rightarrow> singleflight" where
  "with_call c f sf = sf\<lparr>calls := (calls sf)(c := f (calls sf c))\<rparr>"

text \<open>The first section: join the call in flight, start a new one, or give up.\<close>

definition sf_enter :: "string \<Rightarrow> singleflight \<Rightarrow> sf_entry \<times> singleflight" where
  "sf_enter key sf =
     (case map_of (inflight sf) key of
        Some c \<Rightarrow>
          if call_waiters (calls sf c) \<ge> max_waiters_per_key sf
          then (Rejected (overflow ''singleflight waiters overflow''), sf)
          else (Joined c, with_call c (\<lambda>call. call\<lparr>call_waiters := call_waiters call + 1\<rparr>) sf)
      | None \<Rightarrow>
          if length (inflight sf) \<ge> max_inflight sf
          then (Rejected (overflow ''singleflight inflight overflow''), sf)
          else (Leading (next_call sf),
                sf\<lparr>inflight := (key, next_call sf) # inflight sf,
                   calls := (calls sf)(next_call sf := new_call), next_call := next_call sf + 1\<rparr>))"

abbreviation call_of :: "nat \<Rightarrow> singleflight \<Rightarrow> monitor" where
  "call_of c sf \<equiv> call_mon (calls sf c)"

definition with_mon :: "nat \<Rightarrow> monitor \<Rightarrow> singleflight \<Rightarrow> singleflight" where
  "with_mon c m sf = with_call c (\<lambda>call. call\<lparr>call_mon := m\<rparr>) sf"

text \<open>The waiter takes \<open>mu\<close> and tests its condition: it goes on with the result and keeps \<open>mu\<close>, or it sleeps (no
  result), which gives \<open>mu\<close> back.  While another thread owns \<open>mu\<close> it is blocked (\<open>None\<close>).  Then its last
  sections: the count of waiters, under \<open>mutex_\<close>, and the end of the scope of the lock.\<close>

definition sf_wait :: "nat \<Rightarrow> nat \<Rightarrow> singleflight \<Rightarrow> (sf_result option \<times> singleflight) option" where
  "sf_wait t c sf =
     (case mon_lock t (call_of c sf) of
        None \<Rightarrow> None
      | Some m \<Rightarrow>
          if call_done (calls sf c) then Some (Some (call_result (calls sf c)), with_mon c m sf)
          else (case mon_wait t m of None \<Rightarrow> None | Some m' \<Rightarrow> Some (None, with_mon c m' sf)))"

definition sf_leave :: "nat \<Rightarrow> singleflight \<Rightarrow> singleflight" where
  "sf_leave c sf = with_call c (\<lambda>call. call\<lparr>call_waiters := call_waiters call - 1\<rparr>) sf"

definition sf_unlock :: "nat \<Rightarrow> nat \<Rightarrow> singleflight \<Rightarrow> singleflight option" where
  "sf_unlock t c sf = map_option (\<lambda>m. with_mon c m sf) (mon_unlock t (call_of c sf))"

text \<open>What the leader makes of its loader, the publication (under \<open>mu\<close>), the notification, and the removal of the map
  entry.\<close>

definition sf_loaded :: "exn + sf_result \<Rightarrow> sf_result" where
  "sf_loaded r =
     (case r of Inr res \<Rightarrow> res
      | Inl _ \<Rightarrow> sf_result_new\<lparr>sf_kind := FlightError, sf_error := ''singleflight loader exception''\<rparr>)"

definition sf_publish :: "nat \<Rightarrow> sf_result \<Rightarrow> singleflight \<Rightarrow> singleflight" where
  "sf_publish c res sf = with_call c (\<lambda>call. call\<lparr>call_result := res, call_done := True\<rparr>) sf"

definition sf_notify :: "nat \<Rightarrow> singleflight \<Rightarrow> singleflight" where
  "sf_notify c sf = with_mon c (mon_broadcast (call_of c sf)) sf"

definition sf_finish :: "string \<Rightarrow> nat \<Rightarrow> singleflight \<Rightarrow> singleflight" where
  "sf_finish key c sf =
     (if map_of (inflight sf) key = Some c
      then sf\<lparr>inflight := filter (\<lambda>p. fst p \<noteq> key) (inflight sf)\<rparr> else sf)"

text \<open>The whole call by thread \<open>t\<close> when no other thread interferes; no result when it would block.\<close>

definition do_flight ::
  "nat \<Rightarrow> string \<Rightarrow> (exn + sf_result) \<Rightarrow> singleflight \<Rightarrow> (sf_result \<times> singleflight) option" where
  "do_flight t key loader sf =
     (case sf_enter key sf of
        (Rejected r, sf1) \<Rightarrow> Some (r, sf1)
      | (Joined c, sf1) \<Rightarrow>
          (case sf_wait t c sf1 of
             Some (Some r, sf2) \<Rightarrow> map_option (\<lambda>sf3. (r, sf3)) (sf_unlock t c (sf_leave c sf2))
           | _ \<Rightarrow> None)
      | (Leading c, sf1) \<Rightarrow>
          (let r = sf_loaded loader in Some (r, sf_finish key c (sf_notify c (sf_publish c r sf1)))))"

section \<open>Threads\<close>

datatype sf_phase =
    SfIdle
  | SfWaiting string nat                 \<comment> \<open>joined, about to take \<open>mu\<close>\<close>
  | SfSleeping string nat                \<comment> \<open>in \<open>cv.wait\<close>\<close>
  | SfLeaving string nat sf_result       \<comment> \<open>owns \<open>mu\<close>, has the result\<close>
  | SfUnlocking string nat sf_result     \<comment> \<open>owns \<open>mu\<close>, no longer counted as a waiter\<close>
  | SfLoading string nat
  | SfNotifying string nat sf_result     \<comment> \<open>published, before \<open>notify_all\<close>\<close>
  | SfErasing string nat sf_result
  | SfReturned string sf_result

fun waits_for :: "sf_phase \<Rightarrow> (string \<times> nat) option" where
  "waits_for (SfWaiting key c) = Some (key, c)"
| "waits_for (SfSleeping key c) = Some (key, c)"
| "waits_for _ = None"

text \<open>A configuration is the shared state, the phase of every thread, and the history of loader runs (the
  key and what came of it).  \<open>sf_go\<close> are the steps of the program; a waiter that the condition variable still holds takes none.
  \<open>sf_step\<close> adds the spurious wake-ups.\<close>

type_synonym sf_config = "singleflight \<times> (nat \<Rightarrow> sf_phase) \<times> (string \<times> sf_result) list"

inductive sf_go :: "sf_config \<Rightarrow> sf_config \<Rightarrow> bool" where
  sf_reject: "ph t = SfIdle \<or> ph t = SfReturned k0 r0 \<Longrightarrow> sf_enter key sf = (Rejected r, sf') \<Longrightarrow>
    sf_go (sf, ph, h) (sf', ph(t := SfReturned key r), h)"
| sf_join: "ph t = SfIdle \<or> ph t = SfReturned k0 r0 \<Longrightarrow> sf_enter key sf = (Joined c, sf') \<Longrightarrow>
    sf_go (sf, ph, h) (sf', ph(t := SfWaiting key c), h)"
| sf_lead: "ph t = SfIdle \<or> ph t = SfReturned k0 r0 \<Longrightarrow> sf_enter key sf = (Leading c, sf') \<Longrightarrow>
    sf_go (sf, ph, h) (sf', ph(t := SfLoading key c), h)"
| sf_sleep: "waits_for (ph t) = Some (key, c) \<Longrightarrow> t \<notin> set (mon_sleepers (call_of c sf)) \<Longrightarrow>
    sf_wait t c sf = Some (None, sf') \<Longrightarrow> sf_go (sf, ph, h) (sf', ph(t := SfSleeping key c), h)"
| sf_wake: "waits_for (ph t) = Some (key, c) \<Longrightarrow> t \<notin> set (mon_sleepers (call_of c sf)) \<Longrightarrow>
    sf_wait t c sf = Some (Some r, sf') \<Longrightarrow> sf_go (sf, ph, h) (sf', ph(t := SfLeaving key c r), h)"
| sf_gone: "ph t = SfLeaving key c r \<Longrightarrow>
    sf_go (sf, ph, h) (sf_leave c sf, ph(t := SfUnlocking key c r), h)"
| sf_free: "ph t = SfUnlocking key c r \<Longrightarrow> sf_unlock t c sf = Some sf' \<Longrightarrow>
    sf_go (sf, ph, h) (sf', ph(t := SfReturned key r), h)"
| sf_load: "ph t = SfLoading key c \<Longrightarrow> mon_owner (call_of c sf) = None \<Longrightarrow>
    sf_go (sf, ph, h) (sf_publish c (sf_loaded l) sf, ph(t := SfNotifying key c (sf_loaded l)), (key, sf_loaded l) # h)"
| sf_notify_all: "ph t = SfNotifying key c r \<Longrightarrow>
    sf_go (sf, ph, h) (sf_notify c sf, ph(t := SfErasing key c r), h)"
| sf_end: "ph t = SfErasing key c r \<Longrightarrow>
    sf_go (sf, ph, h) (sf_finish key c sf, ph(t := SfReturned key r), h)"

inductive sf_step :: "sf_config \<Rightarrow> sf_config \<Rightarrow> bool" where
  sf_goes: "sf_go cfg cfg' \<Longrightarrow> sf_step cfg cfg'"
| sf_spurious: "ph t = SfSleeping key c \<Longrightarrow>
    sf_step (sf, ph, h) (with_mon c (mon_wake t (call_of c sf)) sf, ph, h)"

inductive_cases sf_goE: "sf_go (sf, ph, h) cfg"

definition sf_start :: "nat \<Rightarrow> nat \<Rightarrow> sf_config" where
  "sf_start max_fl max_wt = (sf_configure max_fl max_wt singleflight_new, (\<lambda>_. SfIdle), [])"

definition sf_reachable :: "nat \<Rightarrow> nat \<Rightarrow> sf_config \<Rightarrow> bool" where
  "sf_reachable max_fl max_wt cfg \<longleftrightarrow> sf_step\<^sup>*\<^sup>* (sf_start max_fl max_wt) cfg"

section \<open>The invariant\<close>

text \<open>\<open>leads\<close>: the call a thread runs the loader for, until it has erased the map entry.\<close>

fun leads :: "sf_phase \<Rightarrow> (string \<times> nat) option" where
  "leads (SfLoading key c) = Some (key, c)"
| "leads (SfNotifying key c r) = Some (key, c)"
| "leads (SfErasing key c r) = Some (key, c)"
| "leads _ = None"

definition leaders_ok :: "singleflight \<Rightarrow> (nat \<Rightarrow> sf_phase) \<Rightarrow> bool" where
  "leaders_ok sf ph \<longleftrightarrow>
     distinct (map fst (inflight sf))
     \<and> (\<forall>t key c. leads (ph t) = Some (key, c) \<longrightarrow> map_of (inflight sf) key = Some c \<and> c < next_call sf)
     \<and> (\<forall>t u key key' c. leads (ph t) = Some (key, c) \<and> leads (ph u) = Some (key', c) \<longrightarrow> t = u)
     \<and> (\<forall>key c. map_of (inflight sf) key = Some c \<longrightarrow> (\<exists>t. leads (ph t) = Some (key, c)))"

text \<open>What each phase promises: a waiting thread's call is done with a result of its own key, or some thread
  is running the loader for it.\<close>

definition awaits :: "singleflight \<Rightarrow> (nat \<Rightarrow> sf_phase) \<Rightarrow> (string \<times> sf_result) list \<Rightarrow> string \<Rightarrow> nat \<Rightarrow> bool" where
  "awaits sf ph h key c \<longleftrightarrow>
     c < next_call sf \<and> (if call_done (calls sf c) then (key, call_result (calls sf c)) \<in> set h
                         else (\<exists>u. ph u = SfLoading key c))"

fun phase_ok :: "singleflight \<Rightarrow> (nat \<Rightarrow> sf_phase) \<Rightarrow> (string \<times> sf_result) list \<Rightarrow> sf_phase \<Rightarrow> bool" where
  "phase_ok sf ph h SfIdle = True"
| "phase_ok sf ph h (SfWaiting key c) = awaits sf ph h key c"
| "phase_ok sf ph h (SfSleeping key c) = awaits sf ph h key c"
| "phase_ok sf ph h (SfLeaving key c r) = (c < next_call sf \<and> call_done (calls sf c) \<and> (key, r) \<in> set h)"
| "phase_ok sf ph h (SfUnlocking key c r) = (c < next_call sf \<and> call_done (calls sf c) \<and> (key, r) \<in> set h)"
| "phase_ok sf ph h (SfLoading key c) = (\<not> call_done (calls sf c))"
| "phase_ok sf ph h (SfNotifying key c r) =
     (call_done (calls sf c) \<and> call_result (calls sf c) = r \<and> (key, r) \<in> set h)"
| "phase_ok sf ph h (SfErasing key c r) =
     (call_done (calls sf c) \<and> call_result (calls sf c) = r \<and> (key, r) \<in> set h)"
| "phase_ok sf ph h (SfReturned key r) = ((key, r) \<in> set h \<or> sf_kind r = FlightOverload)"

definition results_ok :: "singleflight \<Rightarrow> (nat \<Rightarrow> sf_phase) \<Rightarrow> (string \<times> sf_result) list \<Rightarrow> bool" where
  "results_ok sf ph h \<longleftrightarrow> (\<forall>t. phase_ok sf ph h (ph t))"

definition sf_inv :: "sf_config \<Rightarrow> bool" where
  "sf_inv cfg \<longleftrightarrow> (case cfg of (sf, ph, h) \<Rightarrow> leaders_ok sf ph \<and> results_ok sf ph h
     \<and> length (inflight sf) \<le> max_inflight sf \<and> (\<forall>c. call_waiters (calls sf c) \<le> max_waiters_per_key sf))"

lemmas sf_defs = sf_enter_def sf_leave_def sf_publish_def sf_notify_def sf_finish_def with_mon_def with_call_def

lemma sf_start_inv: "sf_inv (sf_start max_fl max_wt)"
  by (simp add: sf_inv_def sf_start_def leaders_ok_def results_ok_def sf_configure_def singleflight_new_def new_call_def)


lemma leaders_ok_same:
  assumes "leaders_ok sf ph" "leads (ph t) = leads x" "inflight sf' = inflight sf" "next_call sf' = next_call sf"
  shows "leaders_ok sf' (ph(t := x))"
proof -
  have "\<And>u. leads ((ph(t := x)) u) = leads (ph u)" using assms(2) by simp
  with assms(1) show ?thesis unfolding leaders_ok_def assms(3,4) by presburger
qed

lemma leaders_ok_lead:
  assumes "leaders_ok sf ph" "leads (ph t) = None" "map_of (inflight sf) key = None"
    "inflight sf' = (key, next_call sf) # inflight sf" "next_call sf' = next_call sf + 1"
  shows "leaders_ok sf' (ph(t := SfLoading key (next_call sf)))"
proof -
  let ?ph = "ph(t := SfLoading key (next_call sf))"
  have inv: "distinct (map fst (inflight sf))"
    "\<And>t k c. leads (ph t) = Some (k, c) \<Longrightarrow> map_of (inflight sf) k = Some c \<and> c < next_call sf"
    "\<And>t u k k' c. leads (ph t) = Some (k, c) \<Longrightarrow> leads (ph u) = Some (k', c) \<Longrightarrow> t = u"
    "\<And>k c. map_of (inflight sf) k = Some c \<Longrightarrow> \<exists>t. leads (ph t) = Some (k, c)"
    using assms(1) unfolding leaders_ok_def by blast+
  have "key \<notin> fst ` set (inflight sf)" using assms(3) by (simp add: map_of_eq_None_iff)
  then have "distinct (map fst (inflight sf'))" using inv(1) assms(4) by simp
  moreover have "map_of (inflight sf') k = Some c \<and> c < next_call sf'" if "leads (?ph u) = Some (k, c)" for u k c
    using that inv(2) [of u k c] assms(3-5) by (auto split: if_splits)
  moreover have "u = v" if "leads (?ph u) = Some (k, c)" "leads (?ph v) = Some (k', c)" for u v k k' c
    using that inv(2) [of u k c] inv(2) [of v k' c] inv(3) [of u k c v k'] by (auto split: if_splits)
  moreover have "\<exists>u. leads (?ph u) = Some (k, c)" if "map_of (inflight sf') k = Some c" for k c
  proof (cases "k = key")
    case True
    with that assms(4) show ?thesis by (intro exI [of _ t]) simp
  next
    case False
    with that assms(4) inv(4) [of k c] obtain u where u: "leads (ph u) = Some (k, c)" by auto
    with assms(2) have "u \<noteq> t" by auto
    with u show ?thesis by (intro exI [of _ u]) simp
  qed
  ultimately show ?thesis unfolding leaders_ok_def by blast
qed

lemma map_of_filter_key:
  "distinct (map fst xs) \<Longrightarrow> map_of (filter (\<lambda>p. fst p \<noteq> key) xs) k = (if k = key then None else map_of xs k)"
  by (induction xs) (auto simp: map_of_eq_None_iff)

lemma leaders_ok_end:
  assumes "leaders_ok sf ph" "ph t = SfErasing key c r"
  shows "leaders_ok (sf_finish key c sf) (ph(t := SfReturned key r))"
proof -
  let ?ph = "ph(t := SfReturned key r)"
  have inv: "distinct (map fst (inflight sf))"
    "\<And>t k c. leads (ph t) = Some (k, c) \<Longrightarrow> map_of (inflight sf) k = Some c \<and> c < next_call sf"
    "\<And>t u k k' c. leads (ph t) = Some (k, c) \<Longrightarrow> leads (ph u) = Some (k', c) \<Longrightarrow> t = u"
    "\<And>k c. map_of (inflight sf) k = Some c \<Longrightarrow> \<exists>t. leads (ph t) = Some (k, c)"
    using assms(1) unfolding leaders_ok_def by blast+
  have lt: "leads (ph t) = Some (key, c)" by (simp add: assms(2))
  have mine: "map_of (inflight sf) key = Some c" using inv(2) [OF lt] by blast
  then have fin: "map_of (inflight (sf_finish key c sf)) k = (if k = key then None else map_of (inflight sf) k)" for k
    using map_of_filter_key [OF inv(1)] by (simp add: sf_finish_def)
  have next_eq: "next_call (sf_finish key c sf) = next_call sf" by (simp add: sf_finish_def)
  have dist: "distinct (map fst (inflight (sf_finish key c sf)))"
    using inv(1) mine by (simp add: sf_finish_def distinct_map_filter)
  have lead: "map_of (inflight (sf_finish key c sf)) k = Some d \<and> d < next_call (sf_finish key c sf)"
    if "leads (?ph u) = Some (k, d)" for u k d
  proof -
    from that have u: "u \<noteq> t" "leads (ph u) = Some (k, d)" by (auto split: if_splits)
    have "k \<noteq> key"
    proof
      assume "k = key"
      with inv(2) [OF u(2)] mine have "d = c" by simp
      with inv(3) [of u k c t key] u lt show False by simp
    qed
    with inv(2) [OF u(2)] fin next_eq show ?thesis by simp
  qed
  have other: "\<exists>u. leads (?ph u) = Some (k, d)" if "map_of (inflight (sf_finish key c sf)) k = Some d" for k d
  proof -
    from that fin have k: "k \<noteq> key" "map_of (inflight sf) k = Some d" by (auto split: if_splits)
    from inv(4) [OF k(2)] obtain u where u: "leads (ph u) = Some (k, d)" ..
    with lt k(1) have "u \<noteq> t" by auto
    with u show ?thesis by (intro exI [of _ u]) simp
  qed
  have uniq: "u = v" if "leads (?ph u) = Some (k, d)" "leads (?ph v) = Some (k', d)" for u v k k' d
    using that inv(3) [of u k d v k'] by (auto split: if_splits)
  from dist lead uniq other show ?thesis unfolding leaders_ok_def by blast
qed

text \<open>A step of one thread keeps the promises of the others if it keeps the loading threads, the calls below
  \<open>next_call\<close> and what is in the history.\<close>

lemma awaits_keep:
  assumes "awaits sf ph h key c" "\<And>k d. ph t \<noteq> SfLoading k d"
    and "call_done (calls sf' c) = call_done (calls sf c) \<and> call_result (calls sf' c) = call_result (calls sf c)"
    and "next_call sf \<le> next_call sf'"
  shows "awaits sf' (ph(t := x)) h key c"
proof -
  have "\<exists>v. (ph(t := x)) v = SfLoading key c" if "ph v = SfLoading key c" for v
    using that assms(2) by (intro exI [of _ v]) auto
  with assms(1,3,4) show ?thesis unfolding awaits_def by (auto simp del: fun_upd_apply split: if_splits)
qed

lemma results_ok_keep:
  assumes ok: "results_ok sf ph h" and lead: "leaders_ok sf ph"
    and t: "\<And>k c. ph t \<noteq> SfLoading k c" and x: "phase_ok sf' (ph(t := x)) h x"
    and calls: "\<And>c. c < next_call sf \<Longrightarrow>
      call_done (calls sf' c) = call_done (calls sf c) \<and> call_result (calls sf' c) = call_result (calls sf c)"
    and next_call: "next_call sf \<le> next_call sf'"
  shows "results_ok sf' (ph(t := x)) h"
proof -
  have "phase_ok sf' (ph(t := x)) h (ph u)" if "u \<noteq> t" for u
  proof -
    have ph: "phase_ok sf ph h (ph u)" using ok by (simp add: results_ok_def)
    have below: "c < next_call sf" if "leads (ph u) = Some (k, c)" for k c
      using lead that unfolding leaders_ok_def by blast
    have wait: "awaits sf' (ph(t := x)) h key c" if "awaits sf ph h key c" for key c
      using that calls [of c] next_call by (intro awaits_keep [OF that t]) (auto simp: awaits_def)
    show ?thesis by (cases "ph u") (use ph below calls wait next_call in auto)
  qed
  with x show ?thesis by (simp add: results_ok_def)
qed

text \<open>The publication: the one step that makes a call done.\<close>

lemma published [simp]:
  "call_done (calls (sf_publish c r sf) d) = (call_done (calls sf d) \<or> d = c)"
  "call_result (calls (sf_publish c r sf) d) = (if d = c then r else call_result (calls sf d))"
  "call_mon (calls (sf_publish c r sf) d) = call_mon (calls sf d)"
  "call_waiters (calls (sf_publish c r sf) d) = call_waiters (calls sf d)"
  "next_call (sf_publish c r sf) = next_call sf" "inflight (sf_publish c r sf) = inflight sf"
  "max_inflight (sf_publish c r sf) = max_inflight sf" "max_waiters_per_key (sf_publish c r sf) = max_waiters_per_key sf"
  by (simp_all add: sf_publish_def with_call_def)

lemma sole_leader:
  assumes "leaders_ok sf ph" "leads (ph t) = Some (key, c)" "leads (ph v) = Some (k, c)"
  shows "v = t \<and> k = key"
proof -
  have "v = t" using assms unfolding leaders_ok_def by blast
  with assms(2,3) show ?thesis by simp
qed

lemma awaits_load:
  assumes await: "awaits sf ph h k d" and lead: "leaders_ok sf ph" and t: "ph t = SfLoading key c"
    and fresh: "\<not> call_done (calls sf c)"
  shows "awaits (sf_publish c r sf) (ph(t := SfNotifying key c r)) ((key, r) # h) k d"
proof (cases "d = c")
  case True
  with await fresh obtain v where "ph v = SfLoading k c" by (auto simp: awaits_def split: if_splits)
  with sole_leader [OF lead, of t key c v k] t have "k = key" by simp
  with await True show ?thesis by (simp add: awaits_def)
next
  case False
  have "\<exists>v. (ph(t := SfNotifying key c r)) v = SfLoading k d" if "ph v = SfLoading k d" for v
    using that t False by (intro exI [of _ v]) auto
  with await False show ?thesis by (auto simp: awaits_def simp del: fun_upd_apply split: if_splits)
qed

lemma results_ok_load:
  assumes ok: "results_ok sf ph h" and lead: "leaders_ok sf ph" and t: "ph t = SfLoading key c"
  shows "results_ok (sf_publish c r sf) (ph(t := SfNotifying key c r)) ((key, r) # h)"
proof -
  let ?ph = "ph(t := SfNotifying key c r)"
  have fresh: "\<not> call_done (calls sf c)" using ok t by (auto simp: results_ok_def dest: spec [of _ t])
  have "phase_ok (sf_publish c r sf) ?ph ((key, r) # h) (ph u)" if u: "u \<noteq> t" for u
  proof -
    have ph: "phase_ok sf ph h (ph u)" using ok by (simp add: results_ok_def)
    have other: "d \<noteq> c" if "leads (ph u) = Some (k, d)" for k d
      using that sole_leader [OF lead, of t key c u k] t u by auto
    show ?thesis by (cases "ph u") (use ph other awaits_load [OF _ lead t fresh, of h _ _ r] in auto)
  qed
  then show ?thesis by (simp add: results_ok_def)
qed

lemma sf_enter_cases:
  "sf_enter key sf = (Rejected r, sf') \<Longrightarrow>
     sf' = sf \<and> (r = overflow ''singleflight waiters overflow'' \<or> r = overflow ''singleflight inflight overflow'')"
  "sf_enter key sf = (Joined c, sf') \<Longrightarrow> map_of (inflight sf) key = Some c
     \<and> call_waiters (calls sf c) < max_waiters_per_key sf
     \<and> sf' = with_call c (\<lambda>call. call\<lparr>call_waiters := call_waiters call + 1\<rparr>) sf"
  "sf_enter key sf = (Leading c, sf') \<Longrightarrow> map_of (inflight sf) key = None
     \<and> length (inflight sf) < max_inflight sf \<and> c = next_call sf
     \<and> sf' = sf\<lparr>inflight := (key, c) # inflight sf, calls := (calls sf)(c := new_call), next_call := c + 1\<rparr>"
  by (auto simp: sf_enter_def split: option.splits if_splits)

lemma sf_inv_dest:
  assumes "sf_inv (sf, ph, h)"
  shows "leaders_ok sf ph" "results_ok sf ph h" "phase_ok sf ph h (ph t)"
    "length (inflight sf) \<le> max_inflight sf" "call_waiters (calls sf c) \<le> max_waiters_per_key sf"
  using assms by (simp_all add: sf_inv_def results_ok_def)

text \<open>A step of a thread that leads the same call as before, or none, and that admits no waiter beyond the
  limit.\<close>

lemma sf_inv_same:
  assumes inv: "sf_inv (sf, ph, h)" and t: "leads x = leads (ph t)" "\<And>k c. ph t \<noteq> SfLoading k c"
    and x: "phase_ok sf' (ph(t := x)) h x"
    and calls: "\<And>c. call_done (calls sf' c) = call_done (calls sf c) \<and> call_result (calls sf' c) = call_result (calls sf c)"
    and kept: "inflight sf' = inflight sf" "next_call sf' = next_call sf" "max_inflight sf' = max_inflight sf"
      "max_waiters_per_key sf' = max_waiters_per_key sf"
    and waiters: "\<And>c. call_waiters (calls sf' c) \<le> max_waiters_per_key sf"
  shows "sf_inv (sf', ph(t := x), h)"
proof -
  note i = sf_inv_dest [OF inv]
  have "leaders_ok sf' (ph(t := x))" using t kept by (intro leaders_ok_same [OF i(1)]) simp_all
  moreover have "results_ok sf' (ph(t := x)) h" using t x calls kept by (intro results_ok_keep [OF i(2,1)]) auto
  ultimately show ?thesis using i(4) kept waiters by (simp add: sf_inv_def)
qed

text \<open>Only the monitor of a call changes.\<close>

lemma with_mon_frame [simp]:
  "call_done (calls (with_mon c m sf) d) = call_done (calls sf d)"
  "call_result (calls (with_mon c m sf) d) = call_result (calls sf d)"
  "call_waiters (calls (with_mon c m sf) d) = call_waiters (calls sf d)"
  "call_mon (calls (with_mon c m sf) d) = (if d = c then m else call_mon (calls sf d))"
  "inflight (with_mon c m sf) = inflight sf" "next_call (with_mon c m sf) = next_call sf"
  "max_inflight (with_mon c m sf) = max_inflight sf" "max_waiters_per_key (with_mon c m sf) = max_waiters_per_key sf"
  by (simp_all add: with_mon_def with_call_def)

lemma with_mon_phase_ok [simp]: "phase_ok (with_mon c m sf) ph h p = phase_ok sf ph h p"
  by (cases p) (simp_all add: awaits_def)

lemma sf_inv_mon:
  assumes inv: "sf_inv (sf, ph, h)" and "leads x = leads (ph t)" "\<And>k c. ph t \<noteq> SfLoading k c"
    and "phase_ok sf (ph(t := x)) h x"
  shows "sf_inv (with_mon c m sf, ph(t := x), h)"
  using assms(2-4) sf_inv_dest(5) [OF inv] by (intro sf_inv_same [OF inv]) simp_all

lemma joined_phase_ok:
  assumes inv: "sf_inv (sf, ph, h)" and t: "leads (ph t) = None" and enter: "sf_enter key sf = (Joined c, sf')"
  shows "phase_ok sf' (ph(t := SfWaiting key c)) h (SfWaiting key c)"
proof -
  note r = sf_enter_cases(2) [OF enter] and i = sf_inv_dest [OF inv]
  from r i(1) obtain u where u: "leads (ph u) = Some (key, c)" unfolding leaders_ok_def by blast
  with i(1) have c: "c < next_call sf" unfolding leaders_ok_def by blast
  from u t have same: "(ph(t := SfWaiting key c)) u = ph u" by auto
  show ?thesis
  proof (cases "ph u")
    case (SfLoading k d)
    with u same have "\<exists>v. (ph(t := SfWaiting key c)) v = SfLoading key c" by (intro exI [of _ u]) simp
    with SfLoading u i(3) [of u] c r show ?thesis
      by (simp add: with_call_def awaits_def fun_upd_same del: fun_upd_apply)
  qed (use u i(3) [of u] c r in \<open>auto simp: with_call_def awaits_def\<close>)
qed

lemma sf_inv_lead:
  assumes inv: "sf_inv (sf, ph, h)" and t: "leads (ph t) = None" and enter: "sf_enter key sf = (Leading c, sf')"
  shows "sf_inv (sf', ph(t := SfLoading key c), h)"
proof -
  note r = sf_enter_cases(3) [OF enter] and i = sf_inv_dest [OF inv]
  have "leaders_ok sf' (ph(t := SfLoading key c))"
    using t r leaders_ok_lead [OF i(1), of t key sf'] by auto
  moreover have "results_ok sf' (ph(t := SfLoading key c)) h"
    using t r by (intro results_ok_keep [OF i(2,1)]) (auto simp: new_call_def)
  ultimately show ?thesis using i(4,5) r by (auto simp: sf_inv_def new_call_def)
qed

lemma sf_inv_load:
  assumes inv: "sf_inv (sf, ph, h)" and t: "ph t = SfLoading key c"
  shows "sf_inv (sf_publish c r sf, ph(t := SfNotifying key c r), (key, r) # h)"
proof -
  note i = sf_inv_dest [OF inv]
  have "leaders_ok (sf_publish c r sf) (ph(t := SfNotifying key c r))"
    using t by (intro leaders_ok_same [OF i(1)]) auto
  with results_ok_load [OF i(2,1) t, of r] i(4,5) show ?thesis by (simp add: sf_inv_def)
qed

text \<open>A waiter that has looked at its condition: the result is the one published, for its own key.\<close>

lemma sf_wait_cases:
  assumes "sf_wait t c sf = Some (res, sf')"
  shows "mon_owner (call_of c sf) = None" "res = (if call_done (calls sf c) then Some (call_result (calls sf c)) else None)"
    "\<exists>m. sf' = with_mon c m sf"
  using assms by (auto simp: sf_wait_def mon_lock_def split: option.splits if_splits)

lemma waiting_ok: "phase_ok sf ph h p \<Longrightarrow> waits_for p = Some (key, c) \<Longrightarrow> awaits sf ph h key c"
  by (cases p) simp_all

lemma waits_not_leading [simp]: "waits_for p = Some k \<Longrightarrow> leads p = None"
  by (cases p) simp_all

lemma sf_inv_end:
  assumes inv: "sf_inv (sf, ph, h)" and t: "ph t = SfErasing key c r"
  shows "sf_inv (sf_finish key c sf, ph(t := SfReturned key r), h)"
proof -
  note i = sf_inv_dest [OF inv]
  have "results_ok (sf_finish key c sf) (ph(t := SfReturned key r)) h"
    using t i(3) [of t] by (intro results_ok_keep [OF i(2,1)]) (auto simp: sf_finish_def)
  with leaders_ok_end [OF i(1) t] i(4,5) show ?thesis
    by (auto simp: sf_inv_def sf_finish_def intro: le_trans [OF length_filter_le])
qed

lemma sf_inv_waited:
  assumes inv: "sf_inv (sf, ph, h)" and t: "waits_for (ph t) = Some (key, c)" and wait: "sf_wait t c sf = Some (res, sf')"
  shows "sf_inv (sf', ph(t := (case res of None \<Rightarrow> SfSleeping key c | Some r \<Rightarrow> SfLeaving key c r)), h)"
proof -
  note w = sf_wait_cases [OF wait]
  from w(3) obtain m where m: "sf' = with_mon c m sf" ..
  have aw: "awaits sf ph h key c" by (rule waiting_ok [OF sf_inv_dest(3) [OF inv] t])
  have loading: "ph t \<noteq> SfLoading k d" for k d using t by auto
  show ?thesis
  proof (cases res)
    case None
    have "awaits sf (ph(t := SfSleeping key c)) h key c" by (rule awaits_keep [OF aw loading]) simp_all
    with t None show ?thesis unfolding m by (intro sf_inv_mon [OF inv] loading) simp_all
  next
    case (Some r)
    with w(2) aw have "phase_ok sf (ph(t := SfLeaving key c r)) h (SfLeaving key c r)"
      by (auto simp: awaits_def split: if_splits)
    with t Some show ?thesis unfolding m by (intro sf_inv_mon [OF inv] loading) simp_all
  qed
qed

lemma sf_go_inv:
  assumes "sf_go cfg cfg'" "sf_inv cfg"
  shows "sf_inv cfg'"
  using assms
proof (induction rule: sf_go.induct)
  case (sf_reject ph t k0 r0 key sf r sf' h)
  then show ?case using sf_enter_cases(1) [OF sf_reject.hyps(2)]
    by (intro sf_inv_same [OF sf_reject.prems]) (auto simp: overflow_def dest: sf_inv_dest(5))
next
  case (sf_join ph t k0 r0 key sf c sf' h)
  have t: "leads (ph t) = None" using sf_join.hyps(1) by auto
  note r = sf_enter_cases(2) [OF sf_join.hyps(2)] and w = sf_inv_dest(5) [OF sf_join.prems]
  show ?case
    by (rule sf_inv_same [OF sf_join.prems _ _ joined_phase_ok [OF sf_join.prems t sf_join.hyps(2)]])
      (use r w t in \<open>auto simp: with_call_def Suc_le_eq\<close>)
next
  case (sf_lead ph t k0 r0 key sf c sf' h)
  then show ?case by (intro sf_inv_lead) auto
next
  case (sf_sleep ph t key c sf sf' h)
  from sf_inv_waited [OF sf_sleep.prems sf_sleep.hyps(1,3)] show ?case by simp
next
  case (sf_wake ph t key c sf r sf' h)
  from sf_inv_waited [OF sf_wake.prems sf_wake.hyps(1,3)] show ?case by simp
next
  case (sf_gone ph t key c r sf h)
  then show ?case using sf_inv_dest(3) [OF sf_gone.prems, of t]
    by (intro sf_inv_same [OF sf_gone.prems])
      (auto simp: sf_leave_def with_call_def intro: le_trans [OF diff_le_self] dest: sf_inv_dest(5))
next
  case (sf_free ph t key c r sf sf' h)
  then obtain m where "sf' = with_mon c m sf" by (auto simp: sf_unlock_def)
  with sf_free show ?case using sf_inv_dest(3) [OF sf_free.prems, of t]
    by (auto intro!: sf_inv_mon [OF sf_free.prems])
next
  case (sf_load ph t key c sf h l)
  then show ?case by (intro sf_inv_load)
next
  case (sf_notify_all ph t key c r sf h)
  then show ?case using sf_inv_dest(3) [OF sf_notify_all.prems, of t]
    by (auto simp: sf_notify_def intro!: sf_inv_mon [OF sf_notify_all.prems])
next
  case (sf_end ph t key c r sf h)
  then show ?case by (intro sf_inv_end)
qed

lemma sf_step_inv: "sf_step cfg cfg' \<Longrightarrow> sf_inv cfg \<Longrightarrow> sf_inv cfg'"
proof (induction rule: sf_step.induct)
  case (sf_spurious ph t key c sf h)
  have "awaits sf (ph(t := SfSleeping key c)) h key c"
    using sf_inv_dest(3) [OF sf_spurious.prems, of t] sf_spurious.hyps by (intro awaits_keep [of sf ph]) simp_all
  then have "sf_inv (with_mon c (mon_wake t (call_of c sf)) sf, ph(t := SfSleeping key c), h)"
    using sf_spurious.hyps by (intro sf_inv_mon [OF sf_spurious.prems]) simp_all
  with sf_spurious.hyps show ?case by (simp add: fun_upd_idem)
qed (rule sf_go_inv)

theorem sf_reachable_inv: "sf_reachable max_fl max_wt cfg \<Longrightarrow> sf_inv cfg"
  unfolding sf_reachable_def by (induction rule: rtranclp_induct) (auto intro: sf_start_inv sf_step_inv)

lemma sf_go_limits:
  "sf_go cfg cfg' \<Longrightarrow> max_inflight (fst cfg') = max_inflight (fst cfg)
     \<and> max_waiters_per_key (fst cfg') = max_waiters_per_key (fst cfg)"
proof (induction rule: sf_go.induct)
  case (sf_sleep ph t key c sf sf' h)
  then show ?case using sf_wait_cases(3) [OF sf_sleep(3)] by auto
next
  case (sf_wake ph t key c sf r sf' h)
  then show ?case using sf_wait_cases(3) [OF sf_wake(3)] by auto
qed (auto simp: sf_defs sf_unlock_def split: option.splits if_splits)

lemma sf_step_limits:
  "sf_step cfg cfg' \<Longrightarrow> max_inflight (fst cfg') = max_inflight (fst cfg)
     \<and> max_waiters_per_key (fst cfg') = max_waiters_per_key (fst cfg)"
  by (induction rule: sf_step.induct) (simp_all add: sf_go_limits)

lemma sf_reachable_limits:
  "sf_reachable max_fl max_wt cfg \<Longrightarrow>
     max_inflight (fst cfg) = max max_fl 1 \<and> max_waiters_per_key (fst cfg) = max max_wt 1"
  unfolding sf_reachable_def
proof (induction rule: rtranclp_induct)
  case base
  then show ?case by (auto simp: sf_start_def sf_configure_def)
next
  case (step y z)
  then show ?case using sf_step_limits [of y z] by simp
qed

section \<open>The condition variable\<close>

fun holds_call :: "nat \<Rightarrow> sf_phase \<Rightarrow> bool" where
  "holds_call c (SfLeaving key d r) = (d = c)"
| "holds_call c (SfUnlocking key d r) = (d = c)"
| "holds_call c _ = False"

fun asleep_call :: "nat \<Rightarrow> sf_phase \<Rightarrow> bool" where
  "asleep_call c (SfSleeping key d) = (d = c)"
| "asleep_call c _ = False"

fun notifies :: "nat \<Rightarrow> sf_phase \<Rightarrow> bool" where
  "notifies c (SfNotifying key d r) = (d = c)"
| "notifies c _ = False"

interpretation call_mutex: monitor_client "holds_call c" "asleep_call c" for c
proof unfold_locales
  show "\<not> holds_call c p" if "asleep_call c p" for p using that by (cases p) simp_all
qed

text \<open>For every call: its owner and its sleepers are the threads that say so, and while a thread sleeps on a
  call that is done, some thread has still to notify.\<close>

definition call_ok :: "singleflight \<Rightarrow> (nat \<Rightarrow> sf_phase) \<Rightarrow> nat \<Rightarrow> bool" where
  "call_ok sf ph c \<longleftrightarrow> call_mutex.mon_ok c (call_of c sf) ph
     \<and> (call_done (calls sf c) \<and> mon_sleepers (call_of c sf) \<noteq> [] \<longrightarrow> (\<exists>u. notifies c (ph u)))"

definition sf_awake :: "sf_config \<Rightarrow> bool" where
  "sf_awake cfg \<longleftrightarrow> sf_inv cfg \<and> (\<forall>c. call_ok (fst cfg) (fst (snd cfg)) c)"

lemma sf_awakeD:
  assumes "sf_awake (sf, ph, h)"
  shows "sf_inv (sf, ph, h)" "call_mutex.mon_ok c (call_of c sf) ph"
    "call_done (calls sf c) \<Longrightarrow> mon_sleepers (call_of c sf) \<noteq> [] \<Longrightarrow> \<exists>u. notifies c (ph u)"
  using assms by (simp_all add: sf_awake_def call_ok_def)

lemma notifies_kept:
  assumes "\<not> notifies c (ph t)" "\<exists>u. notifies c (ph u)"
  shows "\<exists>u. notifies c ((ph(t := x)) u)"
  using assms by (metis fun_upd_other)

text \<open>A thread that moves between two phases that have nothing to do with a call keeps that call.\<close>

lemma call_ok_move:
  assumes "call_ok sf ph c" "\<not> asleep_call c (ph t)" "holds_call c x = holds_call c (ph t)" "\<not> notifies c (ph t)"
    "call_of c sf' = call_of c sf" "call_done (calls sf' c) = call_done (calls sf c)"
  shows "call_ok sf' (ph(t := x)) c"
proof -
  have mon: "call_mutex.mon_ok c (call_of c sf) ph" using assms(1) by (simp add: call_ok_def)
  from call_mutex.mon_ok_move [OF mon assms(3) call_mutex.not_sleeping [OF mon assms(2)]]
  have "call_mutex.mon_ok c (call_of c sf') (ph(t := x))" using assms(5) by simp
  then show ?thesis using assms(1,5,6) notifies_kept [of c ph t x, OF assms(4)]
    unfolding call_ok_def by (simp del: fun_upd_apply)
qed

text \<open>A waiter that has looked at its condition.\<close>

lemma call_ok_waited:
  assumes ok: "call_ok sf ph c" and t: "t \<notin> set (mon_sleepers (call_of c sf))" "waits_for (ph t) = Some (key, c)"
    and wait: "sf_wait t c sf = Some (res, sf')"
  shows "call_ok sf' (ph(t := (case res of None \<Rightarrow> SfSleeping key c | Some r \<Rightarrow> SfLeaving key c r))) c"
proof -
  have mon: "call_mutex.mon_ok c (call_of c sf) ph" using ok by (simp add: call_ok_def)
  obtain m where m: "mon_lock t (call_of c sf) = Some m" using wait by (auto simp: sf_wait_def split: option.splits)
  have quiet: "\<not> notifies c (ph t)" using t(2) by (cases "ph t") simp_all
  have sleepers: "mon_sleepers m = mon_sleepers (call_of c sf)" using m by (auto simp: mon_lock_def split: if_splits)
  show ?thesis
  proof (cases "call_done (calls sf c)")
    case True
    with wait m have e: "res = Some (call_result (calls sf c))" "sf' = with_mon c m sf" by (simp_all add: sf_wait_def)
    let ?ph = "ph(t := SfLeaving key c (call_result (calls sf c)))"
    have "call_mutex.mon_ok c m ?ph" by (rule call_mutex.mon_ok_lock [OF mon m t(1)]) simp
    then show ?thesis using ok sleepers notifies_kept [of c ph t, OF quiet]
      unfolding e call_ok_def by (simp del: fun_upd_apply)
  next
    case False
    with wait m obtain m' where e: "mon_wait t m = Some m'" "res = None" "sf' = with_mon c m' sf"
      by (auto simp: sf_wait_def split: option.splits)
    have "call_mutex.mon_ok c m (ph(t := SfLeaving key c sf_result_new))"
      by (rule call_mutex.mon_ok_lock [OF mon m t(1)]) simp
    from call_mutex.mon_ok_wait [OF this e(1), of "SfSleeping key c"] False show ?thesis
      unfolding e by (simp add: call_ok_def)
  qed
qed

lemma call_ok_notified:
  assumes "call_ok sf ph c" "ph t = SfNotifying key c r"
  shows "call_ok (sf_notify c sf) (ph(t := SfErasing key c r)) c"
proof -
  have mon: "call_mutex.mon_ok c (call_of c sf) ph" using assms(1) by (simp add: call_ok_def)
  have "call_mutex.mon_ok c (mon_broadcast (call_of c sf)) (ph(t := SfErasing key c r))"
    using assms(2) by (intro call_mutex.mon_ok_move call_mutex.mon_ok_broadcast [OF mon]) (simp_all add: mon_broadcast_def)
  then show ?thesis by (simp add: call_ok_def sf_notify_def mon_broadcast_def)
qed

lemma call_ok_freed:
  assumes "call_ok sf ph c" "sf_unlock t c sf = Some sf'" "\<not> notifies c (ph t)"
  shows "call_ok sf' (ph(t := SfReturned key r)) c"
proof -
  from assms(2) obtain m where m: "mon_unlock t (call_of c sf) = Some m" "sf' = with_mon c m sf"
    by (auto simp: sf_unlock_def)
  have "call_mutex.mon_ok c m (ph(t := SfReturned key r))"
    using assms(1) by (intro call_mutex.mon_ok_unlock [OF _ m(1)]) (simp_all add: call_ok_def)
  moreover have "mon_sleepers m = mon_sleepers (call_of c sf)" using m(1) by (auto simp: mon_unlock_def split: if_splits)
  ultimately show ?thesis using assms(1) notifies_kept [of c ph t, OF assms(3)]
    unfolding m(2) call_ok_def by (simp del: fun_upd_apply)
qed

lemma call_ok_published:
  assumes "call_ok sf ph c" "ph t = SfLoading key c"
  shows "call_ok (sf_publish c r sf) (ph(t := SfNotifying key c r)) c"
proof -
  have mon: "call_mutex.mon_ok c (call_of c sf) ph" using assms(1) by (simp add: call_ok_def)
  have "t \<notin> set (mon_sleepers (call_of c sf))" by (rule call_mutex.not_sleeping [OF mon]) (simp add: assms(2))
  with assms(2) have "call_mutex.mon_ok c (call_of c sf) (ph(t := SfNotifying key c r))"
    by (intro call_mutex.mon_ok_move [OF mon]) simp_all
  moreover have "\<exists>u. notifies c ((ph(t := SfNotifying key c r)) u)" by (intro exI [of _ t]) simp
  ultimately show ?thesis by (simp add: call_ok_def del: fun_upd_apply)
qed

lemma call_ok_fresh:
  assumes "sf_inv (sf, ph, h)" "ph t = SfIdle \<or> ph t = SfReturned k0 r0" "next_call sf \<le> c"
    "call_of c sf' = call_mon new_call" "\<not> call_done (calls sf' c)"
  shows "call_ok sf' (ph(t := SfLoading key c)) c"
proof -
  have "\<not> holds_call c (ph u)" for u
    using sf_inv_dest(3) [OF assms(1), of u] assms(3) by (cases "ph u") auto
  with assms(4,5) show ?thesis by (simp add: call_ok_def call_mutex.mon_ok_def new_call_def)
qed

lemma call_ok_spurious: "call_ok sf ph c \<Longrightarrow> call_ok (with_mon c (mon_wake t (call_of c sf)) sf) ph c"
  using call_mutex.mon_ok_wake [of c "call_of c sf" ph t] by (auto simp: call_ok_def mon_wake_def)

text \<open>The call a phase is about.\<close>

fun about_call :: "sf_phase \<Rightarrow> nat option" where
  "about_call (SfWaiting key c) = Some c"
| "about_call (SfSleeping key c) = Some c"
| "about_call (SfLeaving key c r) = Some c"
| "about_call (SfUnlocking key c r) = Some c"
| "about_call (SfLoading key c) = Some c"
| "about_call (SfNotifying key c r) = Some c"
| "about_call (SfErasing key c r) = Some c"
| "about_call _ = None"

lemma call_ok_other:
  assumes "call_ok sf ph d" "about_call (ph t) \<noteq> Some d" "about_call x \<noteq> Some d"
    "call_of d sf' = call_of d sf" "call_done (calls sf' d) = call_done (calls sf d)"
  shows "call_ok sf' (ph(t := x)) d"
proof (rule call_ok_move [OF assms(1) _ _ _ assms(4,5)])
  show "\<not> asleep_call d (ph t)" "\<not> notifies d (ph t)" using assms(2) by (cases "ph t"; simp)+
  have "\<not> holds_call d (ph t)" "\<not> holds_call d x" using assms(2,3) by (cases "ph t"; cases x; simp)+
  then show "holds_call d x = holds_call d (ph t)" by simp
qed

lemma waits_about [simp]: "waits_for p = Some (key, c) \<Longrightarrow> about_call p = Some c"
  by (cases p) simp_all

lemma idle_about [simp]: "p = SfIdle \<or> p = SfReturned k r \<Longrightarrow> about_call p = None"
  by auto

lemma awake_calls: "sf_awake (sf, ph, h) \<Longrightarrow> call_ok sf ph c"
  by (simp add: sf_awake_def)

text \<open>A step of thread \<open>t\<close> on call \<open>c\<close>.\<close>

lemma call_ok_touch:
  assumes awake: "sf_awake (sf, ph, h)" and at: "call_ok sf ph c \<Longrightarrow> call_ok sf' (ph(t := x)) c"
    and "about_call (ph t) \<in> {None, Some c}" "about_call x \<in> {None, Some c}"
    and "\<And>e. e \<noteq> c \<Longrightarrow> calls sf' e = calls sf e"
  shows "call_ok sf' (ph(t := x)) d"
proof (cases "d = c")
  case True
  with at awake_calls [OF awake, of c] show ?thesis by (simp del: fun_upd_apply)
next
  case False
  with assms(3-5) show ?thesis by (intro call_ok_other [OF awake_calls [OF awake]]) auto
qed

lemma sf_wait_calls: "sf_wait t c sf = Some (res, sf') \<Longrightarrow> e \<noteq> c \<Longrightarrow> calls sf' e = calls sf e"
  using sf_wait_cases(3) [of t c sf res sf'] by (auto simp: with_mon_def with_call_def)

lemma sf_go_calls:
  assumes "sf_go cfg cfg'" "sf_awake cfg"
  shows "call_ok (fst cfg') (fst (snd cfg')) d"
  using assms
proof (induction rule: sf_go.induct)
  case (sf_reject ph t k0 r0 key sf r sf' h)
  then show ?case using sf_enter_cases(1) [OF sf_reject.hyps(2)] unfolding fst_conv snd_conv
    by (intro call_ok_other [OF awake_calls [OF sf_reject.prems]]) auto
next
  case (sf_join ph t k0 r0 key sf c sf' h)
  then show ?case using sf_enter_cases(2) [OF sf_join.hyps(2)] unfolding fst_conv snd_conv
    by (intro call_ok_move [OF awake_calls [OF sf_join.prems]]) (auto simp: with_call_def)
next
  case (sf_lead ph t k0 r0 key sf c sf' h)
  note r = sf_enter_cases(3) [OF sf_lead.hyps(2)]
  have "call_ok sf' (ph(t := SfLoading key c)) c"
    using r by (intro call_ok_fresh [OF sf_awakeD(1) [OF sf_lead.prems] sf_lead.hyps(1)]) (auto simp: new_call_def)
  then show ?case unfolding fst_conv snd_conv
    by (rule call_ok_touch [OF sf_lead.prems]) (use r sf_lead.hyps(1) in auto)
next
  case (sf_sleep ph t key c sf sf' h)
  show ?case unfolding fst_conv snd_conv
    by (rule call_ok_touch [OF sf_sleep.prems call_ok_waited [where res = None, unfolded option.case]])
      (use sf_sleep.hyps sf_wait_calls [OF sf_sleep.hyps(3)] in auto)
next
  case (sf_wake ph t key c sf r sf' h)
  show ?case unfolding fst_conv snd_conv
    by (rule call_ok_touch [OF sf_wake.prems call_ok_waited [where res = "Some r", unfolded option.case]])
      (use sf_wake.hyps sf_wait_calls [OF sf_wake.hyps(3)] in auto)
next
  case (sf_gone ph t key c r sf h)
  then show ?case unfolding fst_conv snd_conv
    by (intro call_ok_move [OF awake_calls [OF sf_gone.prems]]) (auto simp: sf_leave_def with_call_def)
next
  case (sf_free ph t key c r sf sf' h)
  then show ?case unfolding fst_conv snd_conv
    by (intro call_ok_touch [OF sf_free.prems call_ok_freed [OF _ sf_free.hyps(2)]])
      (auto simp: sf_unlock_def with_mon_def with_call_def)
next
  case (sf_load ph t key c sf h l)
  then show ?case unfolding fst_conv snd_conv
    by (intro call_ok_touch [OF sf_load.prems call_ok_published]) (auto simp: sf_publish_def with_call_def)
next
  case (sf_notify_all ph t key c r sf h)
  then show ?case unfolding fst_conv snd_conv
    by (intro call_ok_touch [OF sf_notify_all.prems call_ok_notified])
      (auto simp: sf_notify_def with_mon_def with_call_def)
next
  case (sf_end ph t key c r sf h)
  then show ?case unfolding fst_conv snd_conv
    by (intro call_ok_move [OF awake_calls [OF sf_end.prems]]) (auto simp: sf_finish_def)
qed

lemma sf_go_awake: "sf_go cfg cfg' \<Longrightarrow> sf_awake cfg \<Longrightarrow> sf_awake cfg'"
  using sf_go_calls sf_go_inv unfolding sf_awake_def by blast

lemma sf_step_awake:
  assumes "sf_step cfg cfg'" "sf_awake cfg"
  shows "sf_awake cfg'"
  using assms
proof (induction rule: sf_step.induct)
  case (sf_spurious ph t key c sf h)
  have "sf_inv (with_mon c (mon_wake t (call_of c sf)) sf, ph, h)"
    using sf_step.sf_spurious [of ph t key c sf h] sf_spurious.hyps sf_step_inv sf_awakeD(1) [OF sf_spurious.prems]
    by blast
  moreover have "call_ok (with_mon c (mon_wake t (call_of c sf)) sf) ph d" for d
    using sf_spurious.prems call_ok_spurious [of sf ph c t] by (cases "d = c") (auto simp: sf_awake_def call_ok_def)
  ultimately show ?case by (simp add: sf_awake_def)
qed (rule sf_go_awake)

lemma sf_reachable_awake: "sf_reachable max_fl max_wt cfg \<Longrightarrow> sf_awake cfg"
  unfolding sf_reachable_def
proof (induction rule: rtranclp_induct)
  case base
  have "call_ok (sf_configure max_fl max_wt singleflight_new) (\<lambda>_. SfIdle) c" for c
    by (simp add: call_ok_def call_mutex.mon_ok_def sf_configure_def singleflight_new_def new_call_def)
  then show ?case using sf_start_inv [of max_fl max_wt] by (simp add: sf_awake_def sf_start_def)
qed (rule sf_step_awake)

section \<open>Progress\<close>

lemma sf_go_star_awake: "sf_go\<^sup>*\<^sup>* cfg cfg' \<Longrightarrow> sf_awake cfg \<Longrightarrow> sf_awake cfg'"
  by (induction rule: rtranclp_induct) (auto intro: sf_go_awake)

text \<open>Without spurious wake-ups a waiter's call becomes done and lets it go: the leader publishes and notifies.\<close>

lemma notified:
  assumes "sf_awake (sf, ph, h)" "waits_for (ph t) = Some (key, c)" "notifies c (ph u)" "call_done (calls sf c)"
  shows "\<exists>sf' ph'. sf_go (sf, ph, h) (sf', ph', h) \<and> ph' t = ph t \<and> call_done (calls sf' c)
    \<and> t \<notin> set (mon_sleepers (call_of c sf'))"
proof -
  from assms(3) obtain k r where u: "ph u = SfNotifying k c r" by (cases "ph u") auto
  with assms(2) have "u \<noteq> t" by auto
  with sf_notify_all [of ph u k c r sf h, OF u] assms(4) show ?thesis
    by (intro exI [of _ "sf_notify c sf"] exI [of _ "ph(u := SfErasing k c r)"]) (simp add: sf_notify_def mon_broadcast_def)
qed

lemma loading_free:
  assumes "sf_awake (sf, ph, h)" "\<not> call_done (calls sf c)"
  shows "mon_owner (call_of c sf) = None"
proof (rule ccontr)
  assume "mon_owner (call_of c sf) \<noteq> None"
  then obtain v where "holds_call c (ph v)" using sf_awakeD(2) [OF assms(1), of c] by (auto simp: call_mutex.mon_ok_def)
  with sf_inv_dest(3) [OF sf_awakeD(1) [OF assms(1)], of v] assms(2) show False by (cases "ph v") auto
qed

lemma let_go:
  assumes awake: "sf_awake (sf, ph, h)" and t: "waits_for (ph t) = Some (key, c)"
  shows "\<exists>sf' ph' h'. sf_go\<^sup>*\<^sup>* (sf, ph, h) (sf', ph', h') \<and> ph' t = ph t \<and> call_done (calls sf' c)
    \<and> t \<notin> set (mon_sleepers (call_of c sf'))"
proof -
  have aw: "awaits sf ph h key c" by (rule waiting_ok [OF sf_inv_dest(3) [OF sf_awakeD(1) [OF awake]] t])
  consider (load) "\<not> call_done (calls sf c)" | (notify) "call_done (calls sf c)" "t \<in> set (mon_sleepers (call_of c sf))"
    | (free) "call_done (calls sf c)" "t \<notin> set (mon_sleepers (call_of c sf))" by blast
  then show ?thesis
  proof cases
    case load
    with aw obtain u where u: "ph u = SfLoading key c" by (auto simp: awaits_def)
    with t have "u \<noteq> t" by auto
    let ?r = "sf_loaded (Inl JsonTypeError)"
    let ?sf = "sf_publish c ?r sf" and ?ph = "ph(u := SfNotifying key c ?r)"
    have go: "sf_go (sf, ph, h) (?sf, ?ph, (key, ?r) # h)" by (rule sf_load [where ph = ph, OF u loading_free [OF awake load]])
    with notified [OF sf_go_awake [OF go awake], of t key c u] t \<open>u \<noteq> t\<close>
    obtain sf' ph' where "sf_go (?sf, ?ph, (key, ?r) # h) (sf', ph', (key, ?r) # h)" "ph' t = ph t"
      "call_done (calls sf' c)" "t \<notin> set (mon_sleepers (call_of c sf'))" by auto
    with go show ?thesis by (meson converse_rtranclp_into_rtranclp r_into_rtranclp)
  next
    case notify
    with sf_awakeD(3) [OF awake] obtain u where "notifies c (ph u)" by fastforce
    with notified [OF awake t _ notify(1)] show ?thesis by (meson r_into_rtranclp)
  qed blast
qed

text \<open>The owner of the mutex of a call gives it back.\<close>

lemma unlock_steps:
  assumes "sf_awake (sf, ph, h)" "ph v = SfUnlocking k c r"
  shows "\<exists>m. sf_go (sf, ph, h) (with_mon c m sf, ph(v := SfReturned k r), h) \<and> mon_owner m = None
    \<and> mon_sleepers m = mon_sleepers (call_of c sf)"
proof -
  obtain m where m: "mon_unlock v (call_of c sf) = Some m"
    using call_mutex.holder_unlocks [OF sf_awakeD(2) [OF assms(1)], of c v] assms(2) by auto
  then have "sf_unlock v c sf = Some (with_mon c m sf)" by (simp add: sf_unlock_def)
  with sf_free [of ph v k c r sf _ h, OF assms(2)] m show ?thesis by (auto simp: mon_unlock_def split: if_splits)
qed

lemma leave_steps:
  assumes awake: "sf_awake (sf, ph, h)" and v: "ph v = SfLeaving k c r \<or> ph v = SfUnlocking k c r"
  shows "\<exists>sf'. sf_go\<^sup>*\<^sup>* (sf, ph, h) (sf', ph(v := SfReturned k r), h) \<and> mon_owner (call_of c sf') = None
    \<and> mon_sleepers (call_of c sf') = mon_sleepers (call_of c sf) \<and> call_done (calls sf' c) = call_done (calls sf c)"
  using v
proof
  assume "ph v = SfUnlocking k c r"
  from unlock_steps [OF awake this] show ?thesis by (auto intro: r_into_rtranclp)
next
  assume leaving: "ph v = SfLeaving k c r"
  let ?sf = "sf_leave c sf" and ?ph = "ph(v := SfUnlocking k c r)"
  have go: "sf_go (sf, ph, h) (?sf, ?ph, h)" by (rule sf_gone [where ph = ph, OF leaving])
  from unlock_steps [OF sf_go_awake [OF go awake], of v k c r] obtain m where
    "sf_go (?sf, ?ph, h) (with_mon c m ?sf, ph(v := SfReturned k r), h)" "mon_owner m = None"
    "mon_sleepers m = mon_sleepers (call_of c ?sf)" by auto
  with go show ?thesis
    by (intro exI [of _ "with_mon c m ?sf"])
      (auto simp: sf_leave_def with_call_def intro: converse_rtranclp_into_rtranclp r_into_rtranclp)
qed

lemma mutex_free:
  assumes awake: "sf_awake (sf, ph, h)" and t: "waits_for (ph t) = Some (key, c)"
    and c: "call_done (calls sf c)" "t \<notin> set (mon_sleepers (call_of c sf))"
  shows "\<exists>sf' ph'. sf_go\<^sup>*\<^sup>* (sf, ph, h) (sf', ph', h) \<and> ph' t = ph t \<and> call_done (calls sf' c)
    \<and> t \<notin> set (mon_sleepers (call_of c sf')) \<and> mon_owner (call_of c sf') = None"
proof (cases "mon_owner (call_of c sf)")
  case None
  with c show ?thesis by blast
next
  case (Some v)
  then have "holds_call c (ph v)" using sf_awakeD(2) [OF awake, of c] by (simp add: call_mutex.mon_ok_def)
  then obtain k r where v: "ph v = SfLeaving k c r \<or> ph v = SfUnlocking k c r" by (cases "ph v") auto
  with t have "v \<noteq> t" by auto
  with leave_steps [OF awake v] c show ?thesis by fastforce
qed

lemma waiter_returns:
  assumes awake: "sf_awake (sf, ph, h)" and t: "waits_for (ph t) = Some (key, c)"
  shows "\<exists>sf' ph' h' r. sf_go\<^sup>*\<^sup>* (sf, ph, h) (sf', ph', h') \<and> ph' t = SfReturned key r"
proof -
  obtain sf1 ph1 h1 where 1: "sf_go\<^sup>*\<^sup>* (sf, ph, h) (sf1, ph1, h1)" "ph1 t = ph t" "call_done (calls sf1 c)"
    "t \<notin> set (mon_sleepers (call_of c sf1))" using let_go [OF awake t] by blast
  have t1: "waits_for (ph1 t) = Some (key, c)" using 1(2) t by simp
  from mutex_free [OF sf_go_star_awake [OF 1(1) awake] t1 1(3,4)] obtain sf2 ph2 where
    2: "sf_go\<^sup>*\<^sup>* (sf1, ph1, h1) (sf2, ph2, h1)" "ph2 t = ph1 t" "call_done (calls sf2 c)"
    "t \<notin> set (mon_sleepers (call_of c sf2))" "mon_owner (call_of c sf2) = None" by blast
  let ?r = "call_result (calls sf2 c)"
  obtain m where "sf_wait t c sf2 = Some (Some ?r, with_mon c m sf2)" using 2(3,5) by (auto simp: sf_wait_def mon_lock_def)
  then have 3: "sf_go (sf2, ph2, h1) (with_mon c m sf2, ph2(t := SfLeaving key c ?r), h1)"
    using 2(2,4) t1 by (intro sf_wake) simp_all
  note run = rtranclp.rtrancl_into_rtrancl [OF rtranclp_trans [OF 1(1) 2(1)] 3]
  from leave_steps [OF sf_go_star_awake [OF run awake], of t key c ?r] obtain sf3 where
    "sf_go\<^sup>*\<^sup>* (with_mon c m sf2, ph2(t := SfLeaving key c ?r), h1) (sf3, ph2(t := SfReturned key ?r), h1)" by auto
  from rtranclp_trans [OF run this] show ?thesis by fastforce
qed

section \<open>Properties\<close>

text \<open>C19: at most one thread at a time runs the loader of a key, in every interleaving of any number of
  callers.\<close>

theorem one_loader_per_key:
  assumes "sf_reachable max_fl max_wt (sf, ph, h)" "ph t = SfLoading key c" "ph u = SfLoading key d"
  shows "t = u \<and> c = d"
proof -
  from sf_reachable_inv [OF assms(1)] have inv: "leaders_ok sf ph" by (simp add: sf_inv_def)
  have "leads (ph t) = Some (key, c)" "leads (ph u) = Some (key, d)" by (simp_all add: assms(2,3))
  moreover from this inv have "c = d" unfolding leaders_ok_def by (metis option.inject)
  ultimately show ?thesis using inv unfolding leaders_ok_def by blast
qed

text \<open>A concrete run: thread 0 leads on a key, thread 1 joins it and sleeps, the loader answers, thread 0
  notifies, and thread 1 returns.\<close>

definition demo_hit :: sf_result where
  "demo_hit = sf_result_new\<lparr>sf_kind := FlightHit, sf_long_url := ''https://a''\<rparr>"

definition demo_sf :: "nat list \<Rightarrow> nat option \<Rightarrow> nat \<Rightarrow> bool \<Rightarrow> singleflight" where
  "demo_sf sleepers owner waiters finished =
     \<lparr>inflight = [(''k'', 0)],
      calls = (\<lambda>_. new_call)(0 := \<lparr>call_done = finished, call_result = (if finished then demo_hit else sf_result_new),
        call_waiters = waiters, call_mon = \<lparr>mon_owner = owner, mon_sleepers = sleepers\<rparr>\<rparr>),
      next_call = 1, max_inflight = 1, max_waiters_per_key = 1\<rparr>"

definition demo_ph :: "sf_phase \<Rightarrow> sf_phase \<Rightarrow> nat \<Rightarrow> sf_phase" where
  "demo_ph p q = (\<lambda>_. SfIdle)(0 := p, 1 := q)"

lemmas demo_defs = demo_sf_def demo_ph_def demo_hit_def sf_start_def sf_configure_def singleflight_new_def new_call_def

lemma demo_leading: "sf_reachable 1 1 (demo_sf [] None 0 False, demo_ph (SfLoading ''k'' 0) SfIdle, [])"
proof -
  have "sf_enter ''k'' (sf_configure 1 1 singleflight_new) = (Leading 0, demo_sf [] None 0 False)"
    by (simp add: sf_enter_def demo_defs)
  from sf_lead [where ph = "\<lambda>_. SfIdle" and t = 0 and h = "[]", OF _ this]
  have "sf_go (sf_start 1 1) (demo_sf [] None 0 False, demo_ph (SfLoading ''k'' 0) SfIdle, [])"
    by (simp add: sf_start_def demo_ph_def fun_upd_idem)
  then show ?thesis by (auto simp: sf_reachable_def intro: sf_goes)
qed

lemma demo_go: "sf_reachable 1 1 cfg \<Longrightarrow> sf_go cfg cfg' \<Longrightarrow> sf_reachable 1 1 cfg'"
  unfolding sf_reachable_def by (meson rtranclp.rtrancl_into_rtrancl sf_goes)

lemma demo_sleeping: "sf_reachable 1 1 (demo_sf [1] None 1 False, demo_ph (SfLoading ''k'' 0) (SfSleeping ''k'' 0), [])"
proof -
  let ?ph = "demo_ph (SfLoading ''k'' 0)"
  have "sf_enter ''k'' (demo_sf [] None 0 False) = (Joined 0, demo_sf [] None 1 False)"
    by (simp add: sf_enter_def demo_sf_def with_call_def)
  from sf_join [of "?ph SfIdle" 1 _ _ _ _ _ _ "[]", OF _ this]
  have join: "sf_go (demo_sf [] None 0 False, ?ph SfIdle, []) (demo_sf [] None 1 False, ?ph (SfWaiting ''k'' 0), [])"
    by (simp add: demo_ph_def)
  have "sf_wait 1 0 (demo_sf [] None 1 False) = Some (None, demo_sf [1] None 1 False)"
    by (simp add: sf_wait_def demo_sf_def with_mon_def with_call_def mon_lock_def mon_wait_def)
  from sf_sleep [of "?ph (SfWaiting ''k'' 0)" 1 "''k''" 0 "demo_sf [] None 1 False" _ "[]", OF _ _ this]
  have "sf_go (demo_sf [] None 1 False, ?ph (SfWaiting ''k'' 0), []) (demo_sf [1] None 1 False, ?ph (SfSleeping ''k'' 0), [])"
    by (simp add: demo_ph_def demo_sf_def)
  from demo_go [OF demo_go [OF demo_leading join] this] show ?thesis .
qed

lemma demo_returned: "sf_reachable 1 1 (demo_sf [] None 0 True, demo_ph (SfErasing ''k'' 0 demo_hit) (SfReturned ''k'' demo_hit), [(''k'', demo_hit)])"
proof -
  let ?h = "[(''k'', demo_hit)]" and ?e = "SfErasing ''k'' 0 demo_hit"
  have 1: "sf_go (demo_sf [1] None 1 False, demo_ph (SfLoading ''k'' 0) (SfSleeping ''k'' 0), [])
      (demo_sf [1] None 1 True, demo_ph (SfNotifying ''k'' 0 demo_hit) (SfSleeping ''k'' 0), ?h)"
    using sf_load [of "demo_ph (SfLoading ''k'' 0) (SfSleeping ''k'' 0)" 0 "''k''" 0 "demo_sf [1] None 1 False" "[]" "Inr demo_hit"]
    by (simp add: demo_ph_def demo_sf_def sf_loaded_def sf_publish_def with_call_def fun_upd_twist)
  have 2: "sf_go (demo_sf [1] None 1 True, demo_ph (SfNotifying ''k'' 0 demo_hit) (SfSleeping ''k'' 0), ?h)
      (demo_sf [] None 1 True, demo_ph ?e (SfSleeping ''k'' 0), ?h)"
    using sf_notify_all [of "demo_ph (SfNotifying ''k'' 0 demo_hit) (SfSleeping ''k'' 0)" 0 "''k''" 0 demo_hit
        "demo_sf [1] None 1 True" ?h]
    by (simp add: demo_ph_def demo_sf_def sf_notify_def with_mon_def with_call_def mon_broadcast_def fun_upd_twist)
  have "sf_wait 1 0 (demo_sf [] None 1 True) = Some (Some demo_hit, demo_sf [] (Some 1) 1 True)"
    by (simp add: sf_wait_def demo_sf_def with_mon_def with_call_def mon_lock_def)
  from sf_wake [of "demo_ph ?e (SfSleeping ''k'' 0)" 1 "''k''" 0 "demo_sf [] None 1 True" _ _ ?h, OF _ _ this]
  have 3: "sf_go (demo_sf [] None 1 True, demo_ph ?e (SfSleeping ''k'' 0), ?h)
      (demo_sf [] (Some 1) 1 True, demo_ph ?e (SfLeaving ''k'' 0 demo_hit), ?h)"
    by (simp add: demo_ph_def demo_sf_def)
  have 4: "sf_go (demo_sf [] (Some 1) 1 True, demo_ph ?e (SfLeaving ''k'' 0 demo_hit), ?h)
      (demo_sf [] (Some 1) 0 True, demo_ph ?e (SfUnlocking ''k'' 0 demo_hit), ?h)"
    using sf_gone [of "demo_ph ?e (SfLeaving ''k'' 0 demo_hit)" 1 "''k''" 0 demo_hit "demo_sf [] (Some 1) 1 True" ?h]
    by (simp add: demo_ph_def demo_sf_def sf_leave_def with_call_def)
  have 5: "sf_go (demo_sf [] (Some 1) 0 True, demo_ph ?e (SfUnlocking ''k'' 0 demo_hit), ?h)
      (demo_sf [] None 0 True, demo_ph ?e (SfReturned ''k'' demo_hit), ?h)"
    using sf_free [of "demo_ph ?e (SfUnlocking ''k'' 0 demo_hit)" 1 "''k''" 0 demo_hit "demo_sf [] (Some 1) 0 True"
        "demo_sf [] None 0 True" ?h]
    by (simp add: demo_ph_def demo_sf_def sf_unlock_def with_mon_def with_call_def mon_unlock_def)
  from demo_go [OF demo_go [OF demo_go [OF demo_go [OF demo_go [OF demo_sleeping 1] 2] 3] 4] 5] show ?thesis .
qed

lemma one_loader_per_key_witness:
  "demo_ph (SfLoading ''k'' 0) (SfSleeping ''k'' 0) 0 = SfLoading ''k'' 0 \<and> (0 :: nat) = 0 \<and> (0 :: nat) = 0"
  using one_loader_per_key [OF demo_sleeping, of 0 "''k''" 0 0 0] by (simp add: demo_ph_def)

text \<open>C20: whatever a caller gets back is the result of a loader run for its own key, or an overload
  rejection; a waiter never gets a result that was not loaded, nor one of another key.\<close>

theorem flight_returns_loaded:
  assumes "sf_reachable max_fl max_wt (sf, ph, h)" "ph t = SfReturned key r"
  shows "(key, r) \<in> set h \<or> sf_kind r = FlightOverload"
proof -
  from sf_reachable_inv [OF assms(1)] have "phase_ok sf ph h (ph t)" by (simp add: sf_inv_def results_ok_def)
  with assms(2) show ?thesis by simp
qed

lemma flight_returns_loaded_witness:
  "demo_ph (SfErasing ''k'' 0 demo_hit) (SfReturned ''k'' demo_hit) 1 = SfReturned ''k'' demo_hit
   \<and> (''k'', demo_hit) \<in> set [(''k'', demo_hit)] \<and> sf_kind demo_hit \<noteq> FlightOverload"
  using flight_returns_loaded [OF demo_returned, of 1 "''k''" demo_hit] by (simp add: demo_ph_def demo_hit_def)

text \<open>The table of calls in flight and the waiters of one call never exceed the configured limits (a limit
  of zero counts as one).\<close>

theorem flight_bounds:
  assumes "sf_reachable max_fl max_wt (sf, ph, h)"
  shows "inflight_count sf \<le> max max_fl 1 \<and> call_waiters (calls sf c) \<le> max max_wt 1"
  using sf_reachable_inv [OF assms] sf_reachable_limits [OF assms]
  by (auto simp: sf_inv_def inflight_count_def)

text \<open>C21: no caller is stranded on the condition variable.  A thread that waits for a call, asleep or not, is
  either waiting for a thread that still runs the loader or has still to call \<open>notify_all\<close>, or its call is
  done and it is not among the sleepers.  And from every reachable configuration the threads have a run, in
  which the loader returns and nobody wakes spuriously, that ends with this thread returning.\<close>

theorem flight_not_stuck:
  assumes "sf_reachable max_fl max_wt (sf, ph, h)" "ph t = SfWaiting key c \<or> ph t = SfSleeping key c"
  shows "((\<exists>u. ph u = SfLoading key c) \<or> (\<exists>u k r. ph u = SfNotifying k c r)
      \<or> call_done (calls sf c) \<and> t \<notin> set (mon_sleepers (call_of c sf)))
    \<and> (\<exists>sf' ph' h' r. sf_go\<^sup>*\<^sup>* (sf, ph, h) (sf', ph', h') \<and> ph' t = SfReturned key r)"
proof -
  note awake = sf_reachable_awake [OF assms(1)]
  from assms(2) have t: "waits_for (ph t) = Some (key, c)" by auto
  have "awaits sf ph h key c" by (rule waiting_ok [OF sf_inv_dest(3) [OF sf_awakeD(1) [OF awake]] t])
  moreover have "\<exists>u k r. ph u = SfNotifying k c r" if fin: "call_done (calls sf c)" and asleep: "t \<in> set (mon_sleepers (call_of c sf))"
  proof -
    obtain u where "notifies c (ph u)" using sf_awakeD(3) [OF awake fin] asleep by (metis empty_iff empty_set)
    then show ?thesis by (cases "ph u") auto
  qed
  ultimately show ?thesis using waiter_returns [OF awake t] unfolding awaits_def by metis
qed

lemma flight_not_stuck_witness:
  "\<exists>sf' ph' h' r. sf_go\<^sup>*\<^sup>* (demo_sf [1] None 1 False, demo_ph (SfLoading ''k'' 0) (SfSleeping ''k'' 0), []) (sf', ph', h')
     \<and> ph' 1 = SfReturned ''k'' r"
  using flight_not_stuck [OF demo_sleeping, of 1 "''k''" 0] by (simp add: demo_ph_def)

end
