(* ===== verification/Conn_Pool.thy ===== *)
theory Conn_Pool
  imports Locks "HOL-Library.Multiset"
begin

text \<open>
  \<open>src/CGImysql/sql_connection_pool.h\<close> and \<open>sql_connection_pool.cpp\<close>, with the semaphore of
  \<open>src/lock/locker.h\<close>.

  A \<open>MYSQL*\<close> is a positive number, the null pointer is \<open>None\<close>.  The MySQL client library is not part of
  the sources: whether \<open>mysql_init\<close> and \<open>mysql_real_connect\<close> succeed, and which handle they return, is an
  argument of \<open>pool_init\<close>.  Between two critical sections any other thread may run, so
  \<open>GetConnection\<close> and \<open>ReleaseConnection\<close> are cut at their locks: \<open>pool_step\<close> interleaves the
  sections of a fixed set of threads.
\<close>

section \<open>State\<close>

record conn_pool =
  m_MaxConn :: int
  m_CurConn :: int
  m_FreeConn :: int
  m_acquire_timeout_ms :: int
  m_test_mode :: bool
  connList :: "nat list"
  reserve :: nat
  pool_url :: string
  pool_port :: string
  pool_user :: string
  pool_password :: string
  pool_database :: string
  pool_close_log :: int

definition kDefaultAcquireTimeoutMs :: int where
  "kDefaultAcquireTimeoutMs = 50"

definition connection_pool_new :: conn_pool where
  "connection_pool_new =
     \<lparr>m_MaxConn = 0, m_CurConn = 0, m_FreeConn = 0, m_acquire_timeout_ms = kDefaultAcquireTimeoutMs,
      m_test_mode = False, connList = [], reserve = 0, pool_url = [], pool_port = [], pool_user = [],
      pool_password = [], pool_database = [], pool_close_log = 0\<rparr>"

section \<open>Operations\<close>

definition set_acquire_timeout_ms :: "int \<Rightarrow> conn_pool \<Rightarrow> conn_pool" where
  "set_acquire_timeout_ms timeout_ms p = p\<lparr>m_acquire_timeout_ms := timeout_ms\<rparr>"

text \<open>The loop of \<open>init\<close>: the outcomes of the attempts to connect, up to \<open>MaxConn\<close> of them; the first
  failure ends it.\<close>

fun connect_loop :: "nat \<Rightarrow> nat option list \<Rightarrow> conn_pool \<Rightarrow> conn_pool" where
  "connect_loop (Suc n) (Some con # attempts) p =
     connect_loop n attempts (p\<lparr>connList := connList p @ [con], m_FreeConn := m_FreeConn p + 1\<rparr>)"
| "connect_loop _ _ p = p"

text \<open>\<open>m_Port = Port\<close> assigns an \<open>int\<close> to a \<open>std::string\<close>: it becomes the one character with that code.\<close>

definition string_from_int :: "int \<Rightarrow> string" where
  "string_from_int i = [char_of (nat (i mod 256))]"

definition pool_init ::
  "string \<Rightarrow> string \<Rightarrow> string \<Rightarrow> string \<Rightarrow> int \<Rightarrow> int \<Rightarrow> int \<Rightarrow> nat option list \<Rightarrow> conn_pool \<Rightarrow> conn_pool" where
  "pool_init url user pass db prt max_conn close_log attempts p =
     (let p1 = p\<lparr>pool_url := url, pool_port := string_from_int prt, pool_user := user, pool_password := pass,
                 pool_database := db, pool_close_log := close_log, m_test_mode := False,
                 m_CurConn := 0, m_FreeConn := 0, connList := []\<rparr>;
          p2 = connect_loop (nat max_conn) attempts p1
      in p2\<lparr>m_MaxConn := m_FreeConn p2, reserve := nat (m_FreeConn p2)\<rparr>)"

text \<open>\<open>init_for_test\<close> and \<open>DestroyPool\<close> also report the handles they close.\<close>

definition pool_init_for_test :: "int \<Rightarrow> int \<Rightarrow> conn_pool \<Rightarrow> nat list \<times> conn_pool" where
  "pool_init_for_test conn_count timeout_ms p =
     (if m_test_mode p then [] else connList p,
      p\<lparr>connList := map Suc [0..<nat conn_count], m_CurConn := 0, m_FreeConn := int (nat conn_count),
       m_MaxConn := int (nat conn_count), m_test_mode := True, m_acquire_timeout_ms := timeout_ms,
       pool_close_log := 1, reserve := nat conn_count\<rparr>)"

text \<open>The last section of \<open>GetConnection\<close>, after the semaphore.\<close>

definition take_connection :: "conn_pool \<Rightarrow> nat option \<times> conn_pool" where
  "take_connection p =
     (case connList p of
        [] \<Rightarrow> (None, p\<lparr>reserve := sem_post (reserve p)\<rparr>)
      | con # cs \<Rightarrow> (Some con, p\<lparr>connList := cs, m_FreeConn := m_FreeConn p - 1, m_CurConn := m_CurConn p + 1\<rparr>))"

text \<open>\<open>GetConnection(timeout_ms)\<close> as a whole: the outer \<open>None\<close> is a call that blocks.\<close>

definition GetConnection_within :: "int \<Rightarrow> conn_pool \<Rightarrow> (nat option \<times> conn_pool) option" where
  "GetConnection_within timeout_ms p =
     (if m_MaxConn p \<le> 0 then Some (None, p)
      else case sem_wait timeout_ms (reserve p) of
             None \<Rightarrow> None
           | Some (False, n) \<Rightarrow> Some (None, p)
           | Some (True, n) \<Rightarrow> Some (take_connection (p\<lparr>reserve := n\<rparr>)))"

definition GetConnection :: "conn_pool \<Rightarrow> (nat option \<times> conn_pool) option" where
  "GetConnection p = GetConnection_within (m_acquire_timeout_ms p) p"

text \<open>\<open>ReleaseConnection\<close>: the section under the lock, then the post.\<close>

definition give_connection :: "nat \<Rightarrow> conn_pool \<Rightarrow> conn_pool" where
  "give_connection con p =
     p\<lparr>connList := connList p @ [con], m_FreeConn := m_FreeConn p + 1, m_CurConn := m_CurConn p - 1\<rparr>"

definition ReleaseConnection :: "nat option \<Rightarrow> conn_pool \<Rightarrow> bool \<times> conn_pool" where
  "ReleaseConnection con p =
     (case con of
        None \<Rightarrow> (False, p)
      | Some c \<Rightarrow> (let p' = give_connection c p in (True, p'\<lparr>reserve := sem_post (reserve p')\<rparr>)))"

definition DestroyPool :: "conn_pool \<Rightarrow> nat list \<times> conn_pool" where
  "DestroyPool p =
     (if m_test_mode p then [] else connList p,
      p\<lparr>m_CurConn := 0, m_FreeConn := 0, m_MaxConn := 0, connList := [], m_test_mode := False, reserve := 0\<rparr>)"

text \<open>\<open>connectionRAII\<close>: the constructor stores what it got, the destructor gives it back.\<close>

definition with_connection :: "(nat option \<Rightarrow> conn_pool \<Rightarrow> 'a \<times> conn_pool) \<Rightarrow> conn_pool \<Rightarrow> ('a \<times> conn_pool) option" where
  "with_connection body p =
     (case GetConnection p of
        None \<Rightarrow> None
      | Some (con, p1) \<Rightarrow>
          (case body con p1 of (r, p2) \<Rightarrow>
             Some (r, case con of None \<Rightarrow> p2 | Some c \<Rightarrow> snd (ReleaseConnection con p2))))"

section \<open>Threads\<close>

text \<open>\<open>DestroyPool\<close> is not among the steps: the server joins its workers before the pool is destroyed.  The branch of
  \<open>GetConnection\<close> that loses the race against it is in \<open>take_connection\<close> all the same, but no step reaches it.\<close>

datatype pool_phase = PIdle | PAsking | PPassed | PHolding nat | PGiven

inductive pool_step :: "conn_pool \<times> pool_phase list \<Rightarrow> conn_pool \<times> pool_phase list \<Rightarrow> bool" where
  pool_ask: "t < length ph \<Longrightarrow> ph ! t = PIdle \<Longrightarrow> m_MaxConn p > 0 \<Longrightarrow> pool_step (p, ph) (p, ph[t := PAsking])"
| pool_timeout: "t < length ph \<Longrightarrow> ph ! t = PAsking \<Longrightarrow> sem_wait (m_acquire_timeout_ms p) (reserve p) = Some (False, n) \<Longrightarrow>
    pool_step (p, ph) (p, ph[t := PIdle])"
| pool_pass: "t < length ph \<Longrightarrow> ph ! t = PAsking \<Longrightarrow> sem_wait (m_acquire_timeout_ms p) (reserve p) = Some (True, n) \<Longrightarrow>
    pool_step (p, ph) (p\<lparr>reserve := n\<rparr>, ph[t := PPassed])"
| pool_take: "t < length ph \<Longrightarrow> ph ! t = PPassed \<Longrightarrow> take_connection p = (Some c, p') \<Longrightarrow>
    pool_step (p, ph) (p', ph[t := PHolding c])"
| pool_lost: "t < length ph \<Longrightarrow> ph ! t = PPassed \<Longrightarrow> take_connection p = (None, p') \<Longrightarrow>
    pool_step (p, ph) (p', ph[t := PIdle])"
| pool_give: "t < length ph \<Longrightarrow> ph ! t = PHolding c \<Longrightarrow>
    pool_step (p, ph) (give_connection c p, ph[t := PGiven])"
| pool_post: "t < length ph \<Longrightarrow> ph ! t = PGiven \<Longrightarrow>
    pool_step (p, ph) (p\<lparr>reserve := sem_post (reserve p)\<rparr>, ph[t := PIdle])"

text \<open>What a thread holds, and the tickets it has taken from the semaphore or still owes to it.\<close>

fun held :: "pool_phase \<Rightarrow> nat multiset" where
  "held (PHolding c) = {#c#}"
| "held _ = {#}"

fun owed :: "pool_phase \<Rightarrow> nat" where
  "owed PPassed = 1"
| "owed PGiven = 1"
| "owed _ = 0"

definition pool_inv :: "nat list \<Rightarrow> conn_pool \<times> pool_phase list \<Rightarrow> bool" where
  "pool_inv conns cfg \<longleftrightarrow> (case cfg of (p, ph) \<Rightarrow>
     mset (connList p) + sum_list (map held ph) = mset conns
     \<and> reserve p + sum_list (map owed ph) = length (connList p)
     \<and> m_FreeConn p = int (length (connList p)) \<and> m_MaxConn p = int (length conns)
     \<and> m_CurConn p + m_FreeConn p = m_MaxConn p)"

lemma pool_inv_move:
  assumes "pool_inv conns (p, ph)" "t < length ph"
    and "mset (connList p') + held x = mset (connList p) + held (ph ! t)"
    and "reserve p' + length (connList p) + owed x = reserve p + length (connList p') + owed (ph ! t)"
    and "m_FreeConn p' = int (length (connList p'))" "m_MaxConn p' = m_MaxConn p"
    and "m_CurConn p' + m_FreeConn p' = m_CurConn p + m_FreeConn p"
  shows "pool_inv conns (p', ph[t := x])"
proof -
  note h = sum_list_map_update [OF assms(2), of held x] and o = sum_list_map_update [OF assms(2), of owed x]
  have "mset (connList p') + sum_list (map held (ph[t := x])) + (held x + held (ph ! t))
      = (mset (connList p') + held x) + (sum_list (map held (ph[t := x])) + held (ph ! t))"
    by (simp add: ac_simps)
  also have "\<dots> = mset (connList p) + sum_list (map held ph) + (held x + held (ph ! t))"
    unfolding h assms(3) by (simp add: ac_simps)
  finally have "mset (connList p') + sum_list (map held (ph[t := x])) = mset (connList p) + sum_list (map held ph)"
    by simp
  moreover have "reserve p' + sum_list (map owed (ph[t := x])) = length (connList p')"
    using assms(1,4) o unfolding pool_inv_def by simp
  ultimately show ?thesis using assms unfolding pool_inv_def by simp
qed

lemma pool_take_finds:
  assumes "pool_inv conns (p, ph)" "t < length ph" "ph ! t = PPassed"
  shows "\<exists>c. fst (take_connection p) = Some c"
proof -
  from sum_list_map_member [OF assms(2), of owed] assms(3) have "0 < sum_list (map owed ph)" by auto
  moreover from assms(1) have "reserve p + sum_list (map owed ph) = length (connList p)"
    unfolding pool_inv_def by simp
  ultimately have "0 < length (connList p)" by linarith
  then show ?thesis by (cases "connList p") (simp_all add: take_connection_def)
qed

lemma pool_step_inv:
  assumes "pool_step cfg cfg'" "pool_inv conns cfg"
  shows "pool_inv conns cfg'"
  using assms
proof (induction rule: pool_step.induct)
  case (pool_ask t ph p)
  then show ?case by (intro pool_inv_move [where p = p]) (auto simp: pool_inv_def)
next
  case (pool_timeout t ph p n)
  then show ?case by (intro pool_inv_move [where p = p]) (auto simp: pool_inv_def)
next
  case (pool_pass t ph p n)
  then show ?case by (intro pool_inv_move [where p = p]) (auto simp: pool_inv_def sem_wait_def split: if_splits)
next
  case (pool_take t ph p c p')
  then show ?case by (intro pool_inv_move [where p = p]) (auto simp: pool_inv_def take_connection_def split: list.splits)
next
  case (pool_lost t ph p p')
  with pool_take_finds [of conns p ph t] show ?case by auto
next
  case (pool_give t ph c p)
  then show ?case by (intro pool_inv_move [where p = p]) (auto simp: pool_inv_def give_connection_def)
next
  case (pool_post t ph p)
  then show ?case by (intro pool_inv_move [where p = p]) (auto simp: pool_inv_def sem_post_def)
qed

lemma pool_steps_inv: "pool_step\<^sup>*\<^sup>* cfg cfg' \<Longrightarrow> pool_inv conns cfg \<Longrightarrow> pool_inv conns cfg'"
  by (induction rule: rtranclp_induct) (auto intro: pool_step_inv)

lemma connect_loop_counts:
  "m_FreeConn p = int (length (connList p)) \<Longrightarrow>
     m_FreeConn (connect_loop n as p) = int (length (connList (connect_loop n as p)))
     \<and> m_CurConn (connect_loop n as p) = m_CurConn p
     \<and> length (connList (connect_loop n as p)) \<le> length (connList p) + n"
  by (induction n as p rule: connect_loop.induct) auto

lemma pool_init_inv:
  "pool_inv (connList (pool_init url user pass db prt mx cl as p))
     (pool_init url user pass db prt mx cl as p, replicate n PIdle)"
proof -
  have "sum_list (map held (replicate n PIdle)) = {#}" "sum_list (map owed (replicate n PIdle)) = 0"
    by (induction n) simp_all
  then show ?thesis unfolding pool_inv_def pool_init_def Let_def
    using connect_loop_counts [of "p\<lparr>pool_url := url, pool_port := string_from_int prt, pool_user := user,
      pool_password := pass, pool_database := db, pool_close_log := cl, m_test_mode := False, m_CurConn := 0,
      m_FreeConn := 0, connList := []\<rparr>" "nat mx" as] by simp
qed

lemma held_twice:
  assumes "t < length ph" "u < length ph" "t \<noteq> u" "ph ! t = PHolding c" "ph ! u = PHolding c"
  shows "count (sum_list (map held ph)) c \<ge> 2"
proof -
  have 1: "sum_list (map held (ph[t := PIdle])) + {#c#} = sum_list (map held ph)"
    using sum_list_map_update [OF assms(1), of held PIdle] assms(4) by simp
  obtain r where "sum_list (map held (ph[t := PIdle])) = {#c#} + r"
    using sum_list_map_member [of u "ph[t := PIdle]" held] assms by auto
  with 1 have "sum_list (map held ph) = {#c#} + r + {#c#}" by simp
  then show ?thesis by simp
qed

lemma pool_inv_exclusive:
  assumes "pool_inv conns (p, ph)" "distinct conns" "t < length ph" "u < length ph" "t \<noteq> u" "ph ! t = PHolding c"
  shows "ph ! u \<noteq> PHolding c"
proof
  assume "ph ! u = PHolding c"
  with held_twice [of t ph u c] assms have "count (sum_list (map held ph)) c \<ge> 2" by simp
  moreover have "count (mset (connList p) + sum_list (map held ph)) c \<le> 1"
    using assms(1,2) unfolding pool_inv_def by (simp add: distinct_count_atmost_1)
  ultimately show False by simp
qed

section \<open>Properties\<close>

text \<open>C27: the pool hands out every connection exclusively. From an initialised pool, in every interleaving
  of the sections of \<open>n\<close> threads: two threads never hold the same connection, a free connection is not held
  (the free list and the held connections are together a permutation of the opened ones), the counters agree
  with the list, and a thread that has passed the semaphore always finds a connection.\<close>

theorem pool_exclusive:
  assumes "pool_step\<^sup>*\<^sup>* (pool_init url user pass db prt mx cl as p0, replicate n PIdle) (p, ph)"
    and "distinct (connList (pool_init url user pass db prt mx cl as p0))"
    and "t < length ph" "u < length ph" "t \<noteq> u"
  shows "(ph ! t = PHolding c \<longrightarrow> ph ! u \<noteq> PHolding c \<and> c \<notin> set (connList p))
    \<and> mset (connList p) + sum_list (map held ph) = mset (connList (pool_init url user pass db prt mx cl as p0))
    \<and> m_FreeConn p = int (length (connList p)) \<and> m_CurConn p + m_FreeConn p = m_MaxConn p
    \<and> (ph ! t = PPassed \<longrightarrow> fst (take_connection p) \<noteq> None)"
proof -
  let ?conns = "connList (pool_init url user pass db prt mx cl as p0)"
  have inv: "pool_inv ?conns (p, ph)" by (rule pool_steps_inv [OF assms(1) pool_init_inv])
  have "c \<notin> set (connList p)" if hold: "ph ! t = PHolding c"
  proof
    assume "c \<in> set (connList p)"
    then have free: "count (mset (connList p)) c \<ge> 1" by (simp add: count_mset_gt_0 Suc_leI)
    obtain r where "sum_list (map held ph) = {#c#} + r"
      using sum_list_map_member [OF assms(3), of held] hold by (metis held.simps(1))
    then have "count (sum_list (map held ph)) c \<ge> 1" by simp
    with free have "count (mset (connList p) + sum_list (map held ph)) c \<ge> 2" unfolding count_union by linarith
    with inv assms(2) show False unfolding pool_inv_def by (simp add: distinct_count_atmost_1 split: if_splits)
  qed
  moreover have "fst (take_connection p) \<noteq> None" if "ph ! t = PPassed"
    using pool_take_finds [OF inv assms(3) that] by auto
  ultimately show ?thesis using inv pool_inv_exclusive [OF inv assms(2-5)] unfolding pool_inv_def by auto
qed

definition demo_pool :: conn_pool where
  "demo_pool = pool_init [] [] [] [] 3306 2 0 [Some 7, Some 9] connection_pool_new"

lemma demo_pool_run:
  "pool_step\<^sup>*\<^sup>* (demo_pool, replicate 2 PIdle)
     (demo_pool\<lparr>reserve := 1, connList := [9], m_FreeConn := 1, m_CurConn := 1\<rparr>, [PHolding 7, PIdle])"
proof -
  have "pool_step (demo_pool, replicate 2 PIdle) (demo_pool, [PAsking, PIdle])"
    using pool_ask [of 0 "replicate 2 PIdle" demo_pool]
    by (simp add: numeral_2_eq_2 demo_pool_def pool_init_def)
  moreover have "pool_step (demo_pool, [PAsking, PIdle]) (demo_pool\<lparr>reserve := 1\<rparr>, [PPassed, PIdle])"
    using pool_pass [of 0 "[PAsking, PIdle]" demo_pool 1]
    by (simp add: demo_pool_def pool_init_def sem_wait_def numeral_2_eq_2)
  moreover have "pool_step (demo_pool\<lparr>reserve := 1\<rparr>, [PPassed, PIdle])
     (demo_pool\<lparr>reserve := 1, connList := [9], m_FreeConn := 1, m_CurConn := 1\<rparr>, [PHolding 7, PIdle])"
    using pool_take [of 0 "[PPassed, PIdle]" "demo_pool\<lparr>reserve := 1\<rparr>" 7
        "demo_pool\<lparr>reserve := 1, connList := [9], m_FreeConn := 1, m_CurConn := 1\<rparr>"]
    by (simp add: demo_pool_def pool_init_def take_connection_def numeral_2_eq_2)
  ultimately show ?thesis by (meson converse_rtranclp_into_rtranclp rtranclp.rtrancl_refl)
qed

theorem pool_exclusive_witness:
  "(7 :: nat) \<notin> set (connList (demo_pool\<lparr>reserve := 1, connList := [9], m_FreeConn := 1, m_CurConn := 1\<rparr>))
   \<and> pool_step\<^sup>*\<^sup>* (demo_pool, replicate 2 PIdle)
     (demo_pool\<lparr>reserve := 1, connList := [9], m_FreeConn := 1, m_CurConn := 1\<rparr>, [PHolding 7, PIdle])"
proof -
  have "distinct (connList demo_pool)" by (simp add: demo_pool_def pool_init_def numeral_2_eq_2)
  from pool_exclusive [OF demo_pool_run [unfolded demo_pool_def] this [unfolded demo_pool_def], of 0 1 7] demo_pool_run
  show ?thesis by (simp add: demo_pool_def)
qed

end
