(* ===== verification/Bounded_Fifo.thy ===== *)
theory Bounded_Fifo
  imports Prelude
begin

text \<open>
  The contract of a bounded first-in first-out queue.  The program has four of them: the ring buffer of
  \<open>src/log/block_queue.h\<close>, the work list of \<open>src/threadpool/threadpool.h\<close>, and the queues of
  \<open>src/analytics/click_event_producer.cpp\<close> and \<open>src/observability/structured_logger.cpp\<close>.  Each of their
  theories interprets the locale on its own operations.

  A queue that is shutting down refuses every element: \<open>accepting\<close>.
\<close>

datatype 'a fifo_op = Put 'a | Get

locale bounded_fifo =
  fixes put :: "'a \<Rightarrow> 'q \<Rightarrow> bool \<times> 'q"
    and get :: "'q \<Rightarrow> ('a \<times> 'q) option"
    and content :: "'q \<Rightarrow> 'a list"
    and capacity :: "'q \<Rightarrow> nat"
    and accepting :: "'q \<Rightarrow> bool"
    and ok :: "'q \<Rightarrow> bool"
  assumes put_accept: "ok q \<Longrightarrow> fst (put x q) = (accepting q \<and> length (content q) < capacity q)"
    and put_content: "ok q \<Longrightarrow> content (snd (put x q)) = content q @ (if fst (put x q) then [x] else [])"
    and put_frame: "ok q \<Longrightarrow> ok (snd (put x q)) \<and> capacity (snd (put x q)) = capacity q
                     \<and> accepting (snd (put x q)) = accepting q"
    and get_empty: "ok q \<Longrightarrow> content q = [] \<Longrightarrow> get q = None"
    and get_first: "ok q \<Longrightarrow> content q = x # xs \<Longrightarrow> \<exists>q'. get q = Some (x, q') \<and> content q' = xs
                     \<and> ok q' \<and> capacity q' = capacity q \<and> accepting q' = accepting q"
begin

text \<open>A run: the elements accepted and the elements taken, both in order.\<close>

fun run :: "'a fifo_op list \<Rightarrow> 'q \<Rightarrow> 'a list \<times> 'a list \<times> 'q" where
  "run [] q = ([], [], q)"
| "run (Put x # ops) q =
     (case put x q of (acc, q') \<Rightarrow> case run ops q' of (ins, outs, q'') \<Rightarrow> (if acc then x # ins else ins, outs, q''))"
| "run (Get # ops) q =
     (case get q of None \<Rightarrow> run ops q
      | Some (x, q') \<Rightarrow> case run ops q' of (ins, outs, q'') \<Rightarrow> (ins, x # outs, q''))"

lemma run_fifo:
  assumes "ok q" "run ops q = (ins, outs, q')"
  shows "content q @ ins = outs @ content q' \<and> ok q' \<and> capacity q' = capacity q"
  using assms
proof (induction ops arbitrary: q ins outs q')
  case Nil
  then show ?case by simp
next
  case (Cons op ops)
  note IH = Cons.IH and prems = Cons.prems
  show ?case
  proof (cases op)
    case (Put x)
    obtain acc q1 where p: "put x q = (acc, q1)" by fastforce
    obtain ins1 outs1 q2 where r: "run ops q1 = (ins1, outs1, q2)" by (metis prod_cases3)
    from put_frame [OF prems(1), of x] p have f: "ok q1" "capacity q1 = capacity q" by simp_all
    from put_content [OF prems(1), of x] p have c: "content q1 = content q @ (if acc then [x] else [])" by simp
    from prems(2) Put p r have e: "ins = (if acc then x # ins1 else ins1)" "outs = outs1" "q' = q2" by simp_all
    from IH [OF f(1) r] c e f(2) show ?thesis by auto
  next
    case Get
    show ?thesis
    proof (cases "content q")
      case Nil
      with Get get_empty [OF prems(1)] IH [OF prems(1)] prems(2) show ?thesis by simp
    next
      case (Cons y ys)
      from get_first [OF prems(1) Cons] obtain q1 where g: "get q = Some (y, q1)" "content q1 = ys" "ok q1"
        "capacity q1 = capacity q" by blast
      obtain ins1 outs1 q2 where r: "run ops q1 = (ins1, outs1, q2)" by (metis prod_cases3)
      from IH [OF g(3) r] prems(2) Get g r Cons show ?thesis by auto
    qed
  qed
qed

lemma run_within:
  assumes "ok q" "length (content q) \<le> capacity q" "run ops q = (ins, outs, q')"
  shows "length (content q') \<le> capacity q'"
  using assms
proof (induction ops arbitrary: q ins outs q')
  case (Cons op ops)
  note IH = Cons.IH and prems = Cons.prems
  show ?case
  proof (cases op)
    case (Put x)
    obtain acc q1 where p: "put x q = (acc, q1)" by fastforce
    obtain ins1 outs1 q2 where r: "run ops q1 = (ins1, outs1, q2)" by (metis prod_cases3)
    have f: "ok q1" "capacity q1 = capacity q" using put_frame [OF prems(1), of x] p by simp_all
    have "length (content q1) \<le> capacity q1"
      using put_content [OF prems(1), of x] put_accept [OF prems(1), of x] p f prems(2) by auto
    from IH [OF f(1) this r] prems(3) Put p r show ?thesis by simp
  next
    case Get
    show ?thesis
    proof (cases "content q")
      case Nil
      with Get get_empty [OF prems(1)] IH [OF prems(1,2)] prems(3) show ?thesis by simp
    next
      case (Cons y ys)
      from get_first [OF prems(1) Cons] obtain q1 where g: "get q = Some (y, q1)" "content q1 = ys" "ok q1"
        "capacity q1 = capacity q" by blast
      obtain ins1 outs1 q2 where r: "run ops q1 = (ins1, outs1, q2)" by (metis prod_cases3)
      have "length (content q1) \<le> capacity q1" using g Cons prems(2) by simp
      from IH [OF g(3) this r] prems(3) Get g r show ?thesis by simp
    qed
  qed
qed simp

end

end
