(* ===== verification/Block_Queue.thy ===== *)
theory Block_Queue
  imports Bounded_Fifo
begin

text \<open>
  \<open>src/log/block_queue.h\<close>: the blocking ring buffer behind the asynchronous log.  Every operation holds
  the mutex, so it is one step; a wait on the condition variable gives the mutex up, and what the wait
  returns and the queue it wakes up to are arguments (\<open>woken\<close>); \<open>Queue_Monitor\<close> interleaves the threads.  Indices are C \<open>int\<close>s, bounded by the
  capacity.
\<close>

record 'a block_queue =
  m_array :: "'a list"
  m_size :: int
  m_max_size :: int
  m_front :: int
  m_back :: int

text \<open>The constructor; with a capacity that is not positive it ends the process.  \<open>d\<close> is a
  default-constructed element.\<close>

definition block_queue_new :: "'a \<Rightarrow> int \<Rightarrow> 'a block_queue option" where
  "block_queue_new d max_size =
     (if max_size \<le> 0 then None
      else Some \<lparr>m_array = replicate (nat max_size) d, m_size = 0, m_max_size = max_size, m_front = -1, m_back = -1\<rparr>)"

definition bq_clear :: "'a block_queue \<Rightarrow> 'a block_queue" where
  "bq_clear q = q\<lparr>m_size := 0, m_front := -1, m_back := -1\<rparr>"

definition bq_full :: "'a block_queue \<Rightarrow> bool" where
  "bq_full q \<longleftrightarrow> m_size q \<ge> m_max_size q"

definition bq_empty :: "'a block_queue \<Rightarrow> bool" where
  "bq_empty q \<longleftrightarrow> m_size q = 0"

definition bq_size :: "'a block_queue \<Rightarrow> int" where
  "bq_size q = m_size q"

definition bq_max_size :: "'a block_queue \<Rightarrow> int" where
  "bq_max_size q = m_max_size q"

text \<open>Reading the array at a C index: outside its bounds the behaviour is undefined.\<close>

datatype 'a array_read = NoElement | Undefined_Read | Element 'a

definition array_at :: "'a list \<Rightarrow> int \<Rightarrow> 'a array_read" where
  "array_at xs i = (if 0 \<le> i \<and> i < int (length xs) then Element (xs ! nat i) else Undefined_Read)"

definition bq_front :: "'a block_queue \<Rightarrow> 'a array_read" where
  "bq_front q = (if m_size q = 0 then NoElement else array_at (m_array q) (m_front q))"

definition bq_back :: "'a block_queue \<Rightarrow> 'a array_read" where
  "bq_back q = (if m_size q = 0 then NoElement else array_at (m_array q) (m_back q))"

definition bq_push :: "'a \<Rightarrow> 'a block_queue \<Rightarrow> bool \<times> 'a block_queue" where
  "bq_push item q =
     (if m_size q \<ge> m_max_size q then (False, q)
      else let b = (m_back q + 1) mod m_max_size q
           in (True, q\<lparr>m_back := b, m_array := (m_array q)[nat b := item], m_size := m_size q + 1\<rparr>))"

text \<open>The common tail of both \<open>pop\<close>s.\<close>

definition bq_take :: "'a block_queue \<Rightarrow> 'a \<times> 'a block_queue" where
  "bq_take q =
     (let f = (m_front q + 1) mod m_max_size q
      in (m_array q ! nat f, q\<lparr>m_front := f, m_size := m_size q - 1\<rparr>))"

text \<open>The blocking \<open>pop\<close>: \<open>None\<close> is a call that is still waiting, \<open>Some None\<close> the return value
  \<open>false\<close> after a failed wait.\<close>

fun bq_pop :: "(bool \<times> 'a block_queue) list \<Rightarrow> 'a block_queue \<Rightarrow> ('a \<times> 'a block_queue) option option" where
  "bq_pop woken q =
     (if m_size q \<le> 0 then
        (case woken of
           [] \<Rightarrow> None
         | (ok, q') # rest \<Rightarrow> if \<not> ok then Some None else bq_pop rest q')
      else Some (Some (bq_take q)))"

declare bq_pop.simps [simp del]

text \<open>The deadline of the timed \<open>pop\<close> (seconds, nanoseconds), and the operation: one wait.\<close>

definition timed_pop_deadline :: "int \<Rightarrow> int \<times> int \<Rightarrow> int \<times> int" where
  "timed_pop_deadline ms_timeout now =
     (fst now + ms_timeout div 1000, ms_timeout mod 1000 * 1000)"

definition bq_timed_pop :: "bool \<times> 'a block_queue \<Rightarrow> 'a block_queue \<Rightarrow> ('a \<times> 'a block_queue) option" where
  "bq_timed_pop woken q =
     (if m_size q \<le> 0 then
        if \<not> fst woken then None
        else if m_size (snd woken) \<le> 0 then None
        else Some (bq_take (snd woken))
      else Some (bq_take q))"

section \<open>The queue as a list\<close>

definition bq_ok :: "'a block_queue \<Rightarrow> bool" where
  "bq_ok q \<longleftrightarrow> 0 < m_max_size q \<and> length (m_array q) = nat (m_max_size q)
     \<and> 0 \<le> m_size q \<and> m_size q \<le> m_max_size q \<and> -1 \<le> m_front q \<and> m_front q < m_max_size q
     \<and> -1 \<le> m_back q \<and> m_back q < m_max_size q
     \<and> (m_front q + m_size q) mod m_max_size q = m_back q mod m_max_size q"

definition slot :: "'a block_queue \<Rightarrow> nat \<Rightarrow> nat" where
  "slot q i = nat ((m_front q + 1 + int i) mod m_max_size q)"

definition bq_content :: "'a block_queue \<Rightarrow> 'a list" where
  "bq_content q = map (\<lambda>i. m_array q ! slot q i) [0..<nat (m_size q)]"

lemma bq_size_content: "bq_ok q \<Longrightarrow> bq_size q = int (length (bq_content q)) \<and> bq_size q \<le> bq_max_size q"
  by (simp add: bq_size_def bq_max_size_def bq_ok_def bq_content_def)

lemma slot_less: "bq_ok q \<Longrightarrow> slot q i < length (m_array q)"
  by (simp add: bq_ok_def slot_def nat_less_iff)

lemma mod_shift_inject:
  assumes "0 < (n :: int)" "0 \<le> i" "i < n" "0 \<le> j" "j < n" "(k + i) mod n = (k + j) mod n"
  shows "i = j"
proof -
  from assms(6) have "i mod n = j mod n" by (simp add: mod_eq_dvd_iff)
  with assms show ?thesis by simp
qed

lemma slot_inject:
  assumes "bq_ok q" "i < nat (m_max_size q)" "j < nat (m_max_size q)" "slot q i = slot q j"
  shows "i = j"
proof -
  have "0 < m_max_size q" using assms(1) by (simp add: bq_ok_def)
  then have "(m_front q + 1 + int i) mod m_max_size q = (m_front q + 1 + int j) mod m_max_size q"
    using assms(4) unfolding slot_def by (metis nat_eq_iff2 pos_mod_sign)
  from mod_shift_inject [OF \<open>0 < m_max_size q\<close> _ _ _ _ this] assms(2,3) show ?thesis by linarith
qed

lemma push_slot: "bq_ok q \<Longrightarrow> nat ((m_back q + 1) mod m_max_size q) = slot q (nat (m_size q))"
  unfolding bq_ok_def slot_def by (metis add.assoc add.commute int_nat_eq mod_add_left_eq)

lemma bq_push_content:
  assumes "bq_ok q"
  shows "bq_content (snd (bq_push x q)) = bq_content q @ (if fst (bq_push x q) then [x] else [])"
    and "bq_ok (snd (bq_push x q))" and "m_max_size (snd (bq_push x q)) = m_max_size q"
proof -
  let ?b = "(m_back q + 1) mod m_max_size q"
  have pos: "0 < m_max_size q" "0 \<le> m_size q" using assms by (simp_all add: bq_ok_def)
  have content: "bq_content (snd (bq_push x q)) = bq_content q @ [x]" if room: "m_size q < m_max_size q"
  proof -
    have eq: "snd (bq_push x q) = q\<lparr>m_back := ?b, m_array := (m_array q)[slot q (nat (m_size q)) := x], m_size := m_size q + 1\<rparr>"
      using room push_slot [OF assms] by (simp add: bq_push_def Let_def)
    have other: "(m_array q)[slot q (nat (m_size q)) := x] ! slot q i = m_array q ! slot q i" if "i < nat (m_size q)" for i
      using slot_inject [OF assms, of i "nat (m_size q)"] that room pos
      by (intro nth_list_update_neq) auto
    have "[0..<nat (m_size q + 1)] = [0..<nat (m_size q)] @ [nat (m_size q)]"
      using pos by (simp add: nat_add_distrib)
    moreover have "slot (snd (bq_push x q)) i = slot q i" for i unfolding eq by (simp add: slot_def)
    ultimately show ?thesis using other slot_less [OF assms, of "nat (m_size q)"]
      unfolding bq_content_def by (simp add: eq)
  qed
  then show "bq_content (snd (bq_push x q)) = bq_content q @ (if fst (bq_push x q) then [x] else [])"
    by (auto simp: bq_push_def Let_def)
  show "m_max_size (snd (bq_push x q)) = m_max_size q" by (simp add: bq_push_def Let_def)
  have "(m_front q + (m_size q + 1)) mod m_max_size q = ?b mod m_max_size q"
    using assms unfolding bq_ok_def by (metis add.assoc mod_add_left_eq mod_mod_trivial)
  then show "bq_ok (snd (bq_push x q))"
    using assms pos by (auto simp: bq_push_def Let_def bq_ok_def intro: order_trans [OF _ pos_mod_sign])
qed

lemma bq_push_accept: "bq_ok q \<Longrightarrow> fst (bq_push x q) = (length (bq_content q) < nat (m_max_size q))"
  by (auto simp: bq_push_def Let_def bq_content_def bq_ok_def)

lemma bq_take_content:
  assumes "bq_ok q" "0 < m_size q"
  shows "bq_content q = fst (bq_take q) # bq_content (snd (bq_take q))"
    and "bq_ok (snd (bq_take q))" and "m_max_size (snd (bq_take q)) = m_max_size q"
proof -
  let ?q = "snd (bq_take q)"
  have pos: "0 < m_max_size q" using assms(1) by (simp add: bq_ok_def)
  have step: "slot ?q i = slot q (Suc i)" for i
  proof -
    have "((m_front q + 1) mod m_max_size q + 1 + int i) mod m_max_size q
        = (m_front q + 1 + (1 + int i)) mod m_max_size q"
      by (metis add.assoc mod_add_left_eq)
    then show ?thesis by (simp add: slot_def bq_take_def Let_def algebra_simps)
  qed
  obtain n where n: "nat (m_size q) = Suc n" using assms(2) by (cases "nat (m_size q)") auto
  then have n': "nat (m_size q - 1) = n" by linarith
  have "bq_content q = m_array q ! slot q 0 # map (\<lambda>i. m_array q ! slot q (Suc i)) [0..<n]"
    unfolding bq_content_def n by (simp only: upt_conv_Cons [of 0 "Suc n"] list.map map_Suc_upt [symmetric] map_map comp_def zero_less_Suc)
  also have "m_array q ! slot q 0 = fst (bq_take q)" by (simp add: slot_def bq_take_def Let_def)
  also have "map (\<lambda>i. m_array q ! slot q (Suc i)) [0..<n] = bq_content ?q"
    unfolding bq_content_def using step n' by (simp add: bq_take_def Let_def)
  finally show "bq_content q = fst (bq_take q) # bq_content ?q" .
  show "m_max_size ?q = m_max_size q" by (simp add: bq_take_def Let_def)
  have "((m_front q + 1) mod m_max_size q + (m_size q - 1)) mod m_max_size q = m_back q mod m_max_size q"
    using assms(1) unfolding bq_ok_def mod_add_left_eq by simp
  then show "bq_ok ?q"
    using assms pos by (auto simp: bq_take_def Let_def bq_ok_def intro: order_trans [OF _ pos_mod_sign])
qed

text \<open>\<open>pop\<close> when no other thread interferes: it waits exactly on the empty queue.\<close>

definition bq_get :: "'a block_queue \<Rightarrow> ('a \<times> 'a block_queue) option" where
  "bq_get q = (case bq_pop [] q of Some r \<Rightarrow> r | None \<Rightarrow> None)"

lemma bq_get_eq: "bq_get q = (if m_size q \<le> 0 then None else Some (bq_take q))"
  by (simp add: bq_get_def bq_pop.simps)

interpretation bq: bounded_fifo bq_push bq_get bq_content "\<lambda>q. nat (m_max_size q)" "\<lambda>_. True" bq_ok
proof unfold_locales
  fix q :: "'a block_queue" and x xs
  assume ok: "bq_ok q"
  show "fst (bq_push x q) = (True \<and> length (bq_content q) < nat (m_max_size q))" using bq_push_accept [OF ok] by simp
  show "bq_content (snd (bq_push x q)) = bq_content q @ (if fst (bq_push x q) then [x] else [])"
    by (rule bq_push_content(1) [OF ok])
  show "bq_ok (snd (bq_push x q)) \<and> nat (m_max_size (snd (bq_push x q))) = nat (m_max_size q) \<and> True = True"
    using bq_push_content(2,3) [OF ok] by simp
  show "bq_content q = [] \<Longrightarrow> bq_get q = None" using ok by (simp add: bq_get_eq bq_content_def)
  show "\<exists>q'. bq_get q = Some (x, q') \<and> bq_content q' = xs \<and> bq_ok q' \<and> nat (m_max_size q') = nat (m_max_size q) \<and> True = True"
    if "bq_content q = x # xs"
  proof -
    from that have "length (bq_content q) > 0" by simp
    then have "0 < m_size q" by (simp add: bq_content_def)
    with bq_take_content [OF ok this] that show ?thesis by (cases "bq_take q") (simp add: bq_get_eq)
  qed
qed

lemma block_queue_new_ok:
  "block_queue_new d n = Some q \<Longrightarrow> bq_ok q \<and> bq_content q = [] \<and> m_max_size q = n"
  by (auto simp: block_queue_new_def bq_ok_def bq_content_def split: if_splits)

section \<open>Properties\<close>

text \<open>The ring buffer is a bounded queue. Whatever pushes and pops are made on a new queue of capacity
  \<open>n\<close>, the accepted elements are those popped followed by those still queued, in order, and there are never
  more than \<open>n\<close> of them in the queue.\<close>

theorem ring_buffer_fifo:
  assumes "block_queue_new d n = Some q" "bq.run ops q = (accepted, popped, q')"
  shows "accepted = popped @ bq_content q' \<and> length (bq_content q') \<le> nat n"
proof -
  from block_queue_new_ok [OF assms(1)] have q: "bq_ok q" "bq_content q = []" "m_max_size q = n" by simp_all
  from bq.run_fifo [OF q(1) assms(2)] q have "accepted = popped @ bq_content q'" "nat (m_max_size q') = nat n"
    by simp_all
  moreover have "length (bq_content q') \<le> nat (m_max_size q')"
    using bq.run_within [OF q(1) _ assms(2)] q by simp
  ultimately show ?thesis by simp
qed

theorem ring_buffer_fifo_witness:
  "case block_queue_new (0 :: nat) 2 of
     Some q \<Rightarrow> (case bq.run [Put 5, Put 6, Put 7, Get, Put 8] q of
        (accepted, popped, q') \<Rightarrow> accepted = [5, 6, 8] \<and> popped = [5] \<and> accepted = popped @ bq_content q')
   | None \<Rightarrow> False"
proof -
  obtain q where q: "block_queue_new (0 :: nat) 2 = Some q" by (simp add: block_queue_new_def)
  obtain a p q' where r: "bq.run [Put 5, Put 6, Put 7, Get, Put 8] q = (a, p, q')" by (metis prod_cases3)
  from ring_buffer_fifo [OF q r] have "a = p @ bq_content q'" by simp
  moreover from q r have "a = [5, 6, 8] \<and> p = [5]"
    by (auto simp: block_queue_new_def bq_push_def bq_get_eq bq_take_def numeral_2_eq_2)
  ultimately show ?thesis using q r by simp
qed

text \<open>\<open>front\<close> does not return the head of the queue. \<open>m_front\<close> is the place before the head, so on a new
  queue with one element the call reads \<open>m_array[-1]\<close>, and after a pop it returns the element that was popped.\<close>

theorem front_misses_head:
  assumes "block_queue_new d n = Some q" "2 \<le> n"
  shows "bq_front (snd (bq_push x q)) = Undefined_Read
    \<and> bq_front (snd (bq_take (snd (bq_push y (snd (bq_push x q)))))) = Element x
    \<and> bq_content (snd (bq_take (snd (bq_push y (snd (bq_push x q)))))) = [y]"
proof -
  let ?q1 = "snd (bq_push x q)" and ?q2 = "snd (bq_push y (snd (bq_push x q)))"
  have q: "q = \<lparr>m_array = replicate (nat n) d, m_size = 0, m_max_size = n, m_front = -1, m_back = -1\<rparr>"
    using assms by (simp add: block_queue_new_def)
  have q1: "?q1 = q\<lparr>m_back := 0, m_array := (replicate (nat n) d)[0 := x], m_size := 1\<rparr>"
    using assms(2) by (simp add: q bq_push_def)
  have q2: "?q2 = q\<lparr>m_back := 1, m_array := (replicate (nat n) d)[0 := x, 1 := y], m_size := 2\<rparr>"
    using assms(2) unfolding q1 by (simp add: q bq_push_def)
  have q3: "snd (bq_take ?q2) = q\<lparr>m_back := 1, m_array := (replicate (nat n) d)[0 := x, 1 := y], m_size := 1, m_front := 0\<rparr>"
    using assms(2) unfolding q2 by (simp add: q bq_take_def)
  have "bq_front ?q1 = Undefined_Read" unfolding q1 by (simp add: q bq_front_def array_at_def)
  moreover have "bq_front (snd (bq_take ?q2)) = Element x"
    using assms(2) unfolding q3 by (simp add: bq_front_def array_at_def)
  moreover have "bq_content (snd (bq_take ?q2)) = [y]"
    using assms(2) unfolding q3 by (simp add: q bq_content_def slot_def)
  ultimately show ?thesis by simp
qed

theorem front_misses_head_witness:
  "case block_queue_new (0 :: nat) 2 of
     Some q \<Rightarrow> bq_front (snd (bq_push 5 q)) = Undefined_Read | None \<Rightarrow> False"
  using front_misses_head [of "0 :: nat" 2 _ 5 6] by (simp add: block_queue_new_def)

end
