(* ===== verification/Log.thy ===== *)
theory Log
  imports Block_Queue
begin

text \<open>
  \<open>src/log/log.h\<close> and \<open>log.cpp\<close>: the file log.  The broken-down local time, the result of the
  \<open>printf\<close> formatting of the message and whether \<open>fopen\<close> succeeds are arguments; files are modelled by
  the lines written to them, newest first.  The line buffer is a list of bytes of the configured length,
  and a store into it is checked against that length; so are the copies of the file name into the arrays
  \<open>dir_name\<close> and \<open>log_name\<close>.  \<open>None\<close> is a store outside, or a division by zero.
\<close>

section \<open>State\<close>

record log_tm =
  tm_year :: int
  tm_mon :: int
  tm_mday :: int
  tm_hour :: int
  tm_min :: int
  tm_sec :: int
  tm_usec :: int

record log_state =
  log_dir_name :: string
  log_log_name :: string
  log_split_lines :: int
  log_buf_size :: int
  log_count :: int
  log_today :: int
  log_fp :: "string option"
  log_buf :: string
  log_queue :: "string block_queue option"
  log_is_async :: bool
  log_close_log :: int
  log_written :: "(string \<times> string) list"

definition log_new :: log_state where
  "log_new = \<lparr>log_dir_name = [], log_log_name = [], log_split_lines = 0, log_buf_size = 0, log_count = 0,
     log_today = 0, log_fp = None, log_buf = [], log_queue = None, log_is_async = False, log_close_log = 0,
     log_written = []\<rparr>"

section \<open>Formatting\<close>

definition pad :: "nat \<Rightarrow> int \<Rightarrow> string" where
  "pad n i = (let s = to_string i in replicate (n - length s) CHR ''0'' @ s)"

definition date_prefix :: "log_tm \<Rightarrow> string" where
  "date_prefix tm = to_string (tm_year tm + 1900) @ ''_'' @ pad 2 (tm_mon tm + 1) @ ''_'' @ pad 2 (tm_mday tm) @ ''_''"

definition level_tag :: "int \<Rightarrow> string" where
  "level_tag level =
     (if level = 0 then ''[debug]:'' else if level = 1 then ''[info]:'' else if level = 2 then ''[warn]:''
      else if level = 3 then ''[erro]:'' else ''[info]:'')"

definition line_prefix :: "log_tm \<Rightarrow> int \<Rightarrow> string" where
  "line_prefix tm level =
     to_string (tm_year tm + 1900) @ ''-'' @ pad 2 (tm_mon tm + 1) @ ''-'' @ pad 2 (tm_mday tm) @ '' ''
     @ pad 2 (tm_hour tm) @ '':'' @ pad 2 (tm_min tm) @ '':'' @ pad 2 (tm_sec tm) @ ''.'' @ pad 6 (tm_usec tm)
     @ '' '' @ level_tag level @ '' ''"

section \<open>Opening and rotating\<close>

definition last_slash :: "string \<Rightarrow> nat option" where
  "last_slash s = (if CHR ''/'' \<in> set s then Some (length s - 1 - length (takeWhile (\<lambda>c. c \<noteq> CHR ''/'') (rev s))) else None)"

text \<open>The sizes of the name arrays, the buffers that \<open>snprintf\<close> fills with a full name and with the date, and
  what \<open>snprintf\<close> leaves of a text in a buffer.\<close>

definition NAME_SIZE :: nat where "NAME_SIZE = 128"
definition FULL_NAME_SIZE :: nat where "FULL_NAME_SIZE = 512"
definition TAIL_SIZE :: nat where "TAIL_SIZE = 16"

definition snprintf_text :: "nat \<Rightarrow> string \<Rightarrow> string" where
  "snprintf_text sz s = take (sz - 1) s"

text \<open>\<open>strcpy(log_name, p + 1)\<close> stores a terminating zero; \<open>strncpy\<close> of the directory stores none, and the one that
  ends \<open>dir_name\<close> is there because the only \<open>Log\<close> is a static object.  A directory that fills the array leaves
  no terminator, and the \<open>%s\<close> that follows reads past it.\<close>

definition log_names :: "string \<Rightarrow> log_state \<Rightarrow> log_state option" where
  "log_names file_name l =
     (case last_slash file_name of
        None \<Rightarrow> Some l
      | Some p \<Rightarrow>
          if length (drop (Suc p) file_name) \<ge> NAME_SIZE \<or> Suc p \<ge> NAME_SIZE then None
          else Some (l\<lparr>log_log_name := drop (Suc p) file_name, log_dir_name := take (Suc p) file_name\<rparr>))"

definition log_init ::
  "string \<Rightarrow> int \<Rightarrow> int \<Rightarrow> int \<Rightarrow> int \<Rightarrow> log_tm \<Rightarrow> bool \<Rightarrow> log_state \<Rightarrow> (bool \<times> log_state) option" where
  "log_init file_name close_log buf_size split_lines max_queue_size tm fopen_ok l =
     (let l1 = (if max_queue_size \<ge> 1
                then l\<lparr>log_is_async := True, log_queue := block_queue_new [] max_queue_size\<rparr> else l);
          l2 = l1\<lparr>log_close_log := close_log, log_buf_size := buf_size,
                  log_buf := replicate (nat buf_size) (CHR 0x00), log_split_lines := split_lines\<rparr>
      in case log_names file_name l2 of
           None \<Rightarrow> None
         | Some l3 \<Rightarrow>
             (let full_name = snprintf_text FULL_NAME_SIZE
                    (case last_slash file_name of
                       None \<Rightarrow> date_prefix tm @ file_name
                     | Some p \<Rightarrow> log_dir_name l3 @ date_prefix tm @ log_log_name l3);
                  l4 = l3\<lparr>log_today := tm_mday tm, log_fp := (if fopen_ok then Some full_name else None)\<rparr>
              in Some (fopen_ok, l4)))"

text \<open>The first critical section of \<open>write_log\<close>: count the line, and rotate when the file is missing, the day
  has changed or the line count says so.  The condition is evaluated from left to right, so a
  \<open>m_split_lines\<close> of zero divides only when the first two tests fail.\<close>

definition rotation_due :: "log_tm \<Rightarrow> log_state \<Rightarrow> bool option" where
  "rotation_due tm l =
     (if log_fp l = None \<or> log_today l \<noteq> tm_mday tm then Some True
      else if log_split_lines l = 0 then None
      else Some (log_count l mod log_split_lines l = 0))"

definition trunc_div :: "int \<Rightarrow> int \<Rightarrow> int" where
  "trunc_div a b = sgn a * sgn b * (\<bar>a\<bar> div \<bar>b\<bar>)"

definition log_rotate :: "log_tm \<Rightarrow> bool \<Rightarrow> log_state \<Rightarrow> log_state option" where
  "log_rotate tm fopen_ok l0 =
     (let l = l0\<lparr>log_count := log_count l0 + 1\<rparr>; tail = snprintf_text TAIL_SIZE (date_prefix tm)
      in case rotation_due tm l of
           None \<Rightarrow> None
         | Some False \<Rightarrow> Some l
         | Some True \<Rightarrow>
             if log_today l \<noteq> tm_mday tm then
               Some (l\<lparr>log_today := tm_mday tm, log_count := 0,
                 log_fp := (if fopen_ok
                            then Some (snprintf_text FULL_NAME_SIZE (log_dir_name l @ tail @ log_log_name l)) else None)\<rparr>)
             else if log_split_lines l = 0 then None
             else
               Some (l\<lparr>log_fp := (if fopen_ok
                            then Some (snprintf_text FULL_NAME_SIZE (log_dir_name l @ tail @ log_log_name l @ ''.''
                                         @ to_string (trunc_div (log_count l) (log_split_lines l))))
                            else None)\<rparr>))"

section \<open>The line buffer\<close>

text \<open>\<open>snprintf(buf + at, size, ...)\<close> with the text \<open>s\<close>: at most \<open>size - 1\<close> bytes and a terminating
  zero; the return value is the length of the whole text.\<close>

definition put_text :: "nat \<Rightarrow> nat \<Rightarrow> string \<Rightarrow> string \<Rightarrow> string option" where
  "put_text at sz s buf =
     (if sz = 0 then Some buf
      else let out = take (sz - 1) s @ [CHR 0x00]
           in if at + length out \<le> length buf
              then Some (take at buf @ out @ drop (at + length out) buf) else None)"

definition put_char :: "int \<Rightarrow> char \<Rightarrow> string \<Rightarrow> string option" where
  "put_char i c buf = (if 0 \<le> i \<and> i < int (length buf) then Some (buf[nat i := c]) else None)"

text \<open>The clamped offsets, and the second critical section: the buffer with the line in it.  \<open>fmt\<close> is the
  formatted message, or \<open>None\<close> when \<open>vsnprintf\<close> returns an error.\<close>

definition clamp_n :: "int \<Rightarrow> int \<Rightarrow> int" where
  "clamp_n buf_size n = (if n < 0 then 0 else if n > buf_size - 2 then buf_size - 2 else n)"

definition clamp_m :: "int \<Rightarrow> int \<Rightarrow> int \<Rightarrow> int" where
  "clamp_m buf_size n m = (if m < 0 then 0 else if m > buf_size - n - 2 then buf_size - n - 2 else m)"

definition format_line :: "int \<Rightarrow> string \<Rightarrow> string option \<Rightarrow> string \<Rightarrow> string option" where
  "format_line buf_size prefix fmt buf =
     (case put_text 0 48 prefix buf of None \<Rightarrow> None | Some b1 \<Rightarrow>
        (let n = clamp_n buf_size (int (length prefix));
             m = clamp_m buf_size n (case fmt of None \<Rightarrow> -1 | Some s \<Rightarrow> int (length s))
         in case (case fmt of None \<Rightarrow> Some b1 | Some s \<Rightarrow> put_text (nat n) (nat (buf_size - n - 1)) s b1) of
              None \<Rightarrow> None
            | Some b2 \<Rightarrow>
                (case put_char (n + m) (CHR 0x0A) b2 of None \<Rightarrow> None
                 | Some b3 \<Rightarrow> put_char (n + m + 1) (CHR 0x00) b3)))"

definition c_string :: "string \<Rightarrow> string" where
  "c_string buf = takeWhile (\<lambda>c. c \<noteq> CHR 0x00) buf"

section \<open>\<open>write_log\<close>\<close>

definition log_fputs :: "string \<Rightarrow> log_state \<Rightarrow> log_state" where
  "log_fputs line l = (case log_fp l of None \<Rightarrow> l | Some f \<Rightarrow> l\<lparr>log_written := (f, line) # log_written l\<rparr>)"

definition log_emit :: "string \<Rightarrow> log_state \<Rightarrow> log_state" where
  "log_emit line l =
     (case log_queue l of
        Some q \<Rightarrow> if log_is_async l \<and> \<not> bq_full q then l\<lparr>log_queue := Some (snd (bq_push line q))\<rparr>
                  else log_fputs line l
      | None \<Rightarrow> log_fputs line l)"

definition write_log :: "int \<Rightarrow> string option \<Rightarrow> log_tm \<Rightarrow> bool \<Rightarrow> log_state \<Rightarrow> log_state option" where
  "write_log level fmt tm fopen_ok l0 =
     (case log_rotate tm fopen_ok l0 of
        None \<Rightarrow> None
      | Some l \<Rightarrow>
          (case format_line (log_buf_size l) (line_prefix tm level) fmt (log_buf l) of
             None \<Rightarrow> None
           | Some b \<Rightarrow> Some (log_emit (c_string b) (l\<lparr>log_buf := b\<rparr>))))"

text \<open>The writer thread: one turn of the loop of \<open>async_write_log\<close> when the queue is not empty.\<close>

definition async_write_one :: "log_state \<Rightarrow> log_state" where
  "async_write_one l =
     (case log_queue l of
        None \<Rightarrow> l
      | Some q \<Rightarrow> (case bq_get q of None \<Rightarrow> l | Some (line, q') \<Rightarrow> log_fputs line (l\<lparr>log_queue := Some q'\<rparr>)))"

section \<open>When the buffer is large enough\<close>

lemma put_text_room:
  assumes "at + min (sz - 1) (length s) < length buf" "0 < sz"
  shows "\<exists>rest. put_text at sz s buf = Some (take at buf @ take (sz - 1) s @ [CHR 0x00] @ rest)
    \<and> length (take at buf @ take (sz - 1) s @ [CHR 0x00] @ rest) = length buf"
  using assms by (auto simp: put_text_def Let_def min_def split: if_splits)

lemma put_char_append:
  assumes "i = int (length xs)"
  shows "put_char i c (xs @ d # ys) = Some (xs @ c # ys)"
  using assms by (simp add: put_char_def)

text \<open>The first \<open>snprintf\<close> is given the size 48 whatever the buffer has: it stores the header and a zero.\<close>

lemma format_line_overrun:
  assumes "length buf = nat bs" "bs \<le> int (length prefix)" "length prefix \<le> 47"
  shows "format_line bs prefix fmt buf = None"
proof -
  have "\<not> Suc (length prefix) \<le> nat bs" using assms(2) by linarith
  with assms have "put_text 0 48 prefix buf = None" by (simp add: put_text_def Let_def)
  then show ?thesis by (simp add: format_line_def)
qed

lemma format_line_exact:
  assumes "length buf = nat bs" "int (length prefix) < bs" "0 < length prefix" "length prefix \<le> 47"
    and "CHR 0x00 \<notin> set prefix" "CHR 0x00 \<notin> set msg"
  shows "\<exists>b. format_line bs prefix (Some msg) buf = Some b \<and> length b = length buf
    \<and> c_string b = take (nat bs - 2) prefix @ take (nat bs - 2 - length prefix) msg @ [CHR 0x0A]"
proof -
  from assms(2) obtain B where bs: "bs = int B" using zero_le_imp_eq_int [of bs] by fastforce
  define p k where "p = take (B - 2) prefix" and "k = B - 2 - length prefix"
  let ?t = "p @ take k msg"
  have lp: "length p = min (length prefix) (B - 2)" by (simp add: p_def)
  have B: "1 \<le> length prefix" "length prefix < B" using assms(2,3) unfolding bs by linarith+
  have lk: "B = length p + k + 2 \<and> (length prefix = length p \<or> k = 0 \<and> length prefix = Suc (length p))"
    using B by (cases "length prefix \<le> B - 2") (auto simp: lp k_def)
  then have n: "clamp_n bs (int (length prefix)) = int (length p)"
    and m: "clamp_m bs (int (length p)) (int (length msg)) = int (length (take k msg))"
    and sz: "nat (bs - int (length p) - 1) = Suc k"
    unfolding clamp_n_def clamp_m_def bs by auto
  obtain r1 where r1: "put_text 0 48 prefix buf = Some (prefix @ [CHR 0x00] @ r1)"
    "length (prefix @ [CHR 0x00] @ r1) = length buf"
    using put_text_room [of 0 48 prefix buf] assms(1,4) B bs by auto
  have tp: "take (length p) (prefix @ [CHR 0x00] @ r1) = p" by (simp add: p_def min_def)
  have fits: "length p + length (take k msg) + 2 \<le> length buf" using assms(1) lk bs by simp
  obtain r2 where r2: "put_text (length p) (Suc k) msg (prefix @ [CHR 0x00] @ r1) = Some (?t @ [CHR 0x00] @ r2)"
    "length (?t @ [CHR 0x00] @ r2) = length buf"
    using put_text_room [of "length p" "Suc k" msg "prefix @ [CHR 0x00] @ r1"] fits r1(2) unfolding tp
    by (auto simp: min.commute)
  with fits obtain c r3 where r3: "r2 = c # r3" by (cases r2) auto
  have "format_line bs prefix (Some msg) buf = Some (?t @ [CHR 0x0A, CHR 0x00] @ r3)"
    using put_char_append [of _ ?t "CHR 0x0A" "CHR 0x00" r2]
      put_char_append [of _ "?t @ [CHR 0x0A]" "CHR 0x00" c r3]
    by (simp add: format_line_def r1(1) [simplified] n m sz r2(1) [simplified] Let_def r3 add.commute)
  moreover have "c_string (?t @ [CHR 0x0A, CHR 0x00] @ r3) = ?t @ [CHR 0x0A]"
    unfolding c_string_def using assms(5,6)
    by (subst takeWhile_append2) (auto simp: p_def dest: in_set_takeD)
  moreover have "length (?t @ [CHR 0x0A, CHR 0x00] @ r3) = length buf" using r2(2) r3 by simp
  ultimately show ?thesis by (auto simp: p_def k_def bs)
qed

text \<open>The fields of a broken-down time that a \<open>localtime\<close> call can return in the years 1000 to 9999.\<close>

definition valid_tm :: "log_tm \<Rightarrow> bool" where
  "valid_tm tm \<longleftrightarrow> -900 \<le> tm_year tm \<and> tm_year tm \<le> 8099 \<and> 0 \<le> tm_mon tm \<and> tm_mon tm \<le> 11
     \<and> 1 \<le> tm_mday tm \<and> tm_mday tm \<le> 31 \<and> 0 \<le> tm_hour tm \<and> tm_hour tm \<le> 23 \<and> 0 \<le> tm_min tm \<and> tm_min tm \<le> 59
     \<and> 0 \<le> tm_sec tm \<and> tm_sec tm \<le> 60 \<and> 0 \<le> tm_usec tm \<and> tm_usec tm < 1000000"

lemma dec_digits_length: "n < 10 ^ k \<Longrightarrow> 0 < k \<Longrightarrow> length (dec_digits n) \<le> k"
proof (induction k arbitrary: n)
  case (Suc k)
  show ?case
  proof (cases "n < 10")
    case False
    then have "0 < k" using Suc.prems(1) by (cases k) auto
    moreover have "n div 10 < 10 ^ k" using Suc.prems(1) by auto
    ultimately show ?thesis using Suc.IH [of "n div 10"] False by (subst dec_digits.simps) simp
  qed (subst dec_digits.simps, simp)
qed simp

lemma pad_length: "0 \<le> i \<Longrightarrow> i < 10 ^ k \<Longrightarrow> 0 < k \<Longrightarrow> length (pad k i) = k"
  using dec_digits_length [of "nat i" k] by (simp add: pad_def to_string_def Let_def nat_less_iff)

lemma to_string_length: "0 \<le> i \<Longrightarrow> i < 10 ^ k \<Longrightarrow> 0 < k \<Longrightarrow> length (to_string i) \<le> k"
  using dec_digits_length [of "nat i" k] by (simp add: to_string_def nat_less_iff)

lemma level_tag_length: "length (level_tag level) \<le> 8"
  by (simp add: level_tag_def)

lemma line_prefix_length: "valid_tm tm \<Longrightarrow> 0 < length (line_prefix tm level) \<and> length (line_prefix tm level) \<le> 47"
  using to_string_length [of "tm_year tm + 1900" 4] pad_length [of "tm_mon tm + 1" 2] pad_length [of "tm_mday tm" 2]
    pad_length [of "tm_hour tm" 2] pad_length [of "tm_min tm" 2] pad_length [of "tm_sec tm" 2]
    pad_length [of "tm_usec tm" 6] level_tag_length [of level]
  by (simp add: line_prefix_def valid_tm_def)

lemma to_string_no_nul: "CHR 0x00 \<notin> set (to_string i)"
  using dec_digits_are_digits [of "CHR 0x00"] by (auto simp: to_string_def is_digit_def)

lemma pad_no_nul: "CHR 0x00 \<notin> set (pad k i)"
  using to_string_no_nul [of i] by (auto simp: pad_def Let_def)

lemma line_prefix_no_nul: "CHR 0x00 \<notin> set (line_prefix tm level)"
  using to_string_no_nul pad_no_nul by (auto simp: line_prefix_def level_tag_def)

lemma log_rotate_returns:
  assumes "log_split_lines l \<noteq> 0"
  shows "\<exists>l'. log_rotate tm ok l = Some l' \<and> log_buf l' = log_buf l \<and> log_buf_size l' = log_buf_size l"
proof (cases "rotation_due tm (l\<lparr>log_count := log_count l + 1\<rparr>)")
  case None
  with assms show ?thesis by (simp add: rotation_due_def split: if_splits)
next
  case (Some due)
  with assms show ?thesis by (cases due) (simp_all add: log_rotate_def Let_def)
qed

text \<open>A log set up with zero lines a file divides by zero at its first line.\<close>

lemma zero_split_lines_faults:
  assumes "log_init file_name close_log buf_size 0 qs tm True l = Some (True, l')"
  shows "write_log level fmt tm fopen_ok l' = None"
proof -
  from assms have "log_fp l' \<noteq> None" "log_today l' = tm_mday tm" "log_split_lines l' = 0"
    by (auto simp: log_init_def log_names_def Let_def split: option.splits if_splits)
  then show ?thesis by (auto simp: write_log_def log_rotate_def rotation_due_def Let_def)
qed

text \<open>A directory or a file name of 128 bytes overruns its array.\<close>

lemma long_name_overruns:
  assumes "CHR ''/'' \<notin> set name" "NAME_SIZE \<le> length name \<or> NAME_SIZE \<le> Suc (length dir)"
  shows "log_init (dir @ ''/'' @ name) close_log buf_size split_lines qs tm ok l = None"
proof -
  have "takeWhile (\<lambda>c. c \<noteq> CHR ''/'') (rev name @ CHR ''/'' # rev dir) = rev name"
    using assms(1) by (subst takeWhile_append2) auto
  then have "last_slash (dir @ ''/'' @ name) = Some (length dir)" by (simp add: last_slash_def)
  with assms(2) show ?thesis by (auto simp: log_init_def log_names_def Let_def)
qed

section \<open>Properties\<close>

text \<open>C25: What \<open>write_log\<close> does to its line buffer, for every configured size.  When the buffer has more bytes than the
  header of the line (35 or 36 bytes), it never stores outside, however long the message is, and what
  it emits is the header and the message, cut to what the buffer has left, and a line end.  When the buffer
  is not larger than the header, the first \<open>snprintf\<close>, which is given the size 48 in place of the size of the
  buffer, stores outside it (the server uses 2000).  The number of lines per file is not zero (a log with
  zero divides by zero, \<open>zero_split_lines_faults\<close>), the clock is between the years 1000 and 9999 and the
  message has no zero byte.\<close>

theorem write_log_in_buffer:
  assumes "length (log_buf l) = nat (log_buf_size l)" "log_split_lines l \<noteq> 0" "valid_tm tm" "CHR 0x00 \<notin> set msg"
  shows "if log_buf_size l \<le> int (length (line_prefix tm level)) then write_log level (Some msg) tm fopen_ok l = None
    else \<exists>b l'. length b = length (log_buf l) \<and> log_rotate tm fopen_ok l = Some l'
      \<and> write_log level (Some msg) tm fopen_ok l =
        Some (log_emit (take (nat (log_buf_size l) - 2) (line_prefix tm level)
                        @ take (nat (log_buf_size l) - 2 - length (line_prefix tm level)) msg @ [CHR 0x0A])
                (l'\<lparr>log_buf := b\<rparr>))"
proof -
  note len = line_prefix_length [OF assms(3), of level]
  obtain l' where l': "log_rotate tm fopen_ok l = Some l'" "log_buf l' = log_buf l" "log_buf_size l' = log_buf_size l"
    using log_rotate_returns [OF assms(2)] by blast
  show ?thesis
  proof (cases "log_buf_size l \<le> int (length (line_prefix tm level))")
    case True
    with l' format_line_overrun [OF assms(1) True] len show ?thesis by (simp add: write_log_def)
  next
    case False
    with format_line_exact [OF assms(1) _ _ _ line_prefix_no_nul assms(4), of tm level] len
    obtain b where "format_line (log_buf_size l) (line_prefix tm level) (Some msg) (log_buf l) = Some b"
      "length b = length (log_buf l)"
      "c_string b = take (nat (log_buf_size l) - 2) (line_prefix tm level)
                    @ take (nat (log_buf_size l) - 2 - length (line_prefix tm level)) msg @ [CHR 0x0A]" by auto
    with l' False show ?thesis by (intro if_not_P [THEN iffD2]) (auto simp: write_log_def)
  qed
qed

definition demo_tm :: log_tm where
  "demo_tm = \<lparr>tm_year = 126, tm_mon = 0, tm_mday = 2, tm_hour = 3, tm_min = 4, tm_sec = 5, tm_usec = 6\<rparr>"

definition demo_log :: log_state where
  "demo_log = log_new\<lparr>log_buf_size := 60, log_buf := replicate 60 (CHR 0x00), log_split_lines := 10\<rparr>"

lemma demo_prefix: "length (line_prefix demo_tm 3) = 35"
  by code_simp

theorem write_log_in_buffer_witness:
  "(\<exists>b l'. length b = 60 \<and> write_log 3 (Some (replicate 100 CHR ''x'')) demo_tm True demo_log =
      Some (log_emit (line_prefix demo_tm 3 @ replicate 23 CHR ''x'' @ [CHR 0x0A]) (l'\<lparr>log_buf := b\<rparr>)))
   \<and> write_log 3 (Some []) demo_tm True (demo_log\<lparr>log_buf_size := 30, log_buf := replicate 30 (CHR 0x00)\<rparr>) = None"
proof -
  have tm: "valid_tm demo_tm" by (simp add: demo_tm_def valid_tm_def)
  have "log_buf_size demo_log = 60" "length (log_buf demo_log) = 60" "log_split_lines demo_log = 10"
    by (simp_all add: demo_log_def)
  with tm write_log_in_buffer [of demo_log demo_tm "replicate 100 CHR ''x''" 3 True]
    write_log_in_buffer [of "demo_log\<lparr>log_buf_size := 30, log_buf := replicate 30 (CHR 0x00)\<rparr>" demo_tm "[]" 3 True]
  show ?thesis by (auto simp: demo_prefix)
qed

end
