(* ===== verification/Thread_Pool.thy ===== *)
theory Thread_Pool
  imports Bounded_Fifo
begin

text \<open>
  \<open>src/threadpool/threadpool.h\<close>: the queue of tasks and the worker threads.  A task names a connection slot
  (\<open>None\<close> is the null pointer) and the generation it was queued for.  \<open>append_p\<close>, \<open>stop\<close> and the loop of
  \<open>run\<close> are cut at their locks and semaphore operations; \<open>tp_step\<close> interleaves the workers with
  the event loop thread, which is the only one to append and to stop.
\<close>

record task =
  t_request :: "nat option"
  t_generation :: u64

record threadpool =
  m_thread_number :: int
  m_max_requests :: int
  m_workqueue :: "task list"
  m_queuestat :: nat
  m_stop :: bool
  m_joined :: bool

text \<open>The constructor: the members, or the exception.  Creating the threads succeeds or fails as a whole
  (\<open>create_ok\<close>).\<close>

definition threadpool_new :: "int \<Rightarrow> int \<Rightarrow> bool \<Rightarrow> exn + threadpool" where
  "threadpool_new thread_number max_requests create_ok =
     (if thread_number \<le> 0 \<or> max_requests \<le> 0 then Inl (RuntimeError ''std::exception'')
      else if \<not> create_ok then Inl (RuntimeError ''std::exception'')
      else Inr \<lparr>m_thread_number = thread_number, m_max_requests = max_requests, m_workqueue = [],
                m_queuestat = 0, m_stop = False, m_joined = False\<rparr>)"

text \<open>The critical section of \<open>append_p\<close>; the post that follows it is a step of its own.\<close>

definition enqueue_task :: "task \<Rightarrow> threadpool \<Rightarrow> bool \<times> threadpool" where
  "enqueue_task t p =
     (if m_stop p \<or> length (m_workqueue p) \<ge> nat (m_max_requests p) then (False, p)
      else (True, p\<lparr>m_workqueue := m_workqueue p @ [t]\<rparr>))"

definition post :: "nat \<Rightarrow> threadpool \<Rightarrow> threadpool" where
  "post n p = p\<lparr>m_queuestat := m_queuestat p + n\<rparr>"

definition append_p :: "nat option \<Rightarrow> u64 \<Rightarrow> threadpool \<Rightarrow> bool \<times> threadpool" where
  "append_p request generation p =
     (case enqueue_task \<lparr>t_request = request, t_generation = generation\<rparr> p of
        (True, p') \<Rightarrow> (True, post 1 p') | (False, p') \<Rightarrow> (False, p'))"

definition stop_section :: "threadpool \<Rightarrow> threadpool" where
  "stop_section p = p\<lparr>m_stop := True, m_workqueue := []\<rparr>"

text \<open>\<open>stop\<close> up to the joins, which return when the workers have.\<close>

definition tp_stop :: "threadpool \<Rightarrow> threadpool" where
  "tp_stop p = (if m_joined p then p else (post (nat (m_thread_number p)) (stop_section p))\<lparr>m_joined := True\<rparr>)"

text \<open>What a worker does between the lock and the unlock of one turn of \<open>run\<close>.\<close>

datatype worker_turn = Leave | Again | Run task

definition worker_section :: "threadpool \<Rightarrow> worker_turn \<times> threadpool" where
  "worker_section p =
     (case m_workqueue p of
        [] \<Rightarrow> (if m_stop p then Leave else Again, p)
      | t # q \<Rightarrow> (Run t, p\<lparr>m_workqueue := q\<rparr>))"

text \<open>A worker that takes a ticket and looks at the queue, seen from the event loop thread.\<close>

definition pool_turn :: "threadpool \<Rightarrow> threadpool" where
  "pool_turn p = (case m_queuestat p of 0 \<Rightarrow> p | Suc n \<Rightarrow> snd (worker_section (p\<lparr>m_queuestat := n\<rparr>)))"

text \<open>What becomes of a task: it is dropped when its slot is null or has moved on to another
  generation, and processed otherwise.\<close>

definition runs_task :: "(nat \<Rightarrow> u64) \<Rightarrow> task \<Rightarrow> nat option" where
  "runs_task current t =
     (case t_request t of None \<Rightarrow> None | Some r \<Rightarrow> if current r \<noteq> t_generation t then None else Some r)"

section \<open>The queue contract\<close>

definition take_task :: "threadpool \<Rightarrow> (task \<times> threadpool) option" where
  "take_task p = (case worker_section p of (Run t, p') \<Rightarrow> Some (t, p') | _ \<Rightarrow> None)"

interpretation tp: bounded_fifo enqueue_task take_task m_workqueue "\<lambda>p. nat (m_max_requests p)" "\<lambda>p. \<not> m_stop p" "\<lambda>_. True"
  by unfold_locales (auto simp: enqueue_task_def take_task_def worker_section_def)

section \<open>Threads\<close>

datatype worker_phase = WWaiting | WAwake | WRunning task | WExited

text \<open>A configuration: the pool, the phases of the workers, and the posts the event loop thread still has to
  make.  \<open>run\<close> ignores the result of \<open>m_queuestat.wait()\<close>, so a worker whose wait a signal interrupts goes on to look at
  the queue without having taken a ticket (\<open>tp_interrupt\<close>).\<close>

inductive tp_step :: "threadpool \<times> worker_phase list \<times> nat \<Rightarrow> threadpool \<times> worker_phase list \<times> nat \<Rightarrow> bool" where
  tp_append: "enqueue_task t p = (True, p') \<Longrightarrow> tp_step (p, ws, k) (p', ws, Suc k)"
| tp_stop: "\<not> m_stop p \<Longrightarrow> tp_step (p, ws, k) (stop_section p, ws, k + nat (m_thread_number p))"
| tp_post: "tp_step (p, ws, Suc k) (post 1 p, ws, k)"
| tp_wake: "i < length ws \<Longrightarrow> ws ! i = WWaiting \<Longrightarrow> m_queuestat p = Suc n \<Longrightarrow>
    tp_step (p, ws, k) (p\<lparr>m_queuestat := n\<rparr>, ws[i := WAwake], k)"
| tp_interrupt: "i < length ws \<Longrightarrow> ws ! i = WWaiting \<Longrightarrow> tp_step (p, ws, k) (p, ws[i := WAwake], k)"
| tp_leave: "i < length ws \<Longrightarrow> ws ! i = WAwake \<Longrightarrow> worker_section p = (Leave, p') \<Longrightarrow>
    tp_step (p, ws, k) (p', ws[i := WExited], k)"
| tp_again: "i < length ws \<Longrightarrow> ws ! i = WAwake \<Longrightarrow> worker_section p = (Again, p') \<Longrightarrow>
    tp_step (p, ws, k) (p', ws[i := WWaiting], k)"
| tp_take: "i < length ws \<Longrightarrow> ws ! i = WAwake \<Longrightarrow> worker_section p = (Run t, p') \<Longrightarrow>
    tp_step (p, ws, k) (p', ws[i := WRunning t], k)"
| tp_done: "i < length ws \<Longrightarrow> ws ! i = WRunning t \<Longrightarrow> tp_step (p, ws, k) (p, ws[i := WWaiting], k)"

fun awake :: "worker_phase \<Rightarrow> nat" where
  "awake WAwake = 1" | "awake _ = 0"

fun exited :: "worker_phase \<Rightarrow> nat" where
  "exited WExited = 1" | "exited _ = 0"

definition tickets :: "threadpool \<times> worker_phase list \<times> nat \<Rightarrow> nat" where
  "tickets cfg = (case cfg of (p, ws, k) \<Rightarrow> m_queuestat p + k + sum_list (map awake ws))"

definition tp_inv :: "threadpool \<times> worker_phase list \<times> nat \<Rightarrow> bool" where
  "tp_inv cfg \<longleftrightarrow> (case cfg of (p, ws, k) \<Rightarrow>
     int (length ws) = m_thread_number p \<and> length (m_workqueue p) \<le> nat (m_max_requests p)
     \<and> (if m_stop p then m_workqueue p = [] \<and> length ws \<le> tickets cfg + sum_list (map exited ws)
        else length (m_workqueue p) \<le> tickets cfg \<and> sum_list (map exited ws) = 0))"

lemma tp_step_inv:
  assumes "tp_step cfg cfg'" "tp_inv cfg"
  shows "tp_inv cfg'"
  using assms
proof (induction rule: tp_step.induct)
  case (tp_wake i ws p n k)
  then show ?case using sum_list_map_update [OF tp_wake(1), of awake WAwake] sum_list_map_update [OF tp_wake(1), of exited WAwake]
    by (auto simp: tp_inv_def tickets_def split: if_splits)
next
  case (tp_interrupt i ws p k)
  then show ?case using sum_list_map_update [OF tp_interrupt(1), of awake WAwake] sum_list_map_update [OF tp_interrupt(1), of exited WAwake]
    by (auto simp: tp_inv_def tickets_def split: if_splits)
next
  case (tp_leave i ws p p' k)
  then show ?case using sum_list_map_update [OF tp_leave(1), of awake WExited] sum_list_map_update [OF tp_leave(1), of exited WExited]
    by (auto simp: tp_inv_def tickets_def worker_section_def split: if_splits list.splits)
next
  case (tp_again i ws p p' k)
  then show ?case using sum_list_map_update [OF tp_again(1), of awake WWaiting] sum_list_map_update [OF tp_again(1), of exited WWaiting]
    by (auto simp: tp_inv_def tickets_def worker_section_def split: if_splits list.splits)
next
  case (tp_take i ws p t p' k)
  then show ?case using sum_list_map_update [OF tp_take(1), of awake "WRunning t"] sum_list_map_update [OF tp_take(1), of exited "WRunning t"]
    by (auto simp: tp_inv_def tickets_def worker_section_def split: if_splits list.splits)
next
  case (tp_done i ws t p k)
  then show ?case using sum_list_map_update [OF tp_done(1), of awake WWaiting] sum_list_map_update [OF tp_done(1), of exited WWaiting]
    by (auto simp: tp_inv_def tickets_def split: if_splits)
qed (auto simp: tp_inv_def tickets_def enqueue_task_def stop_section_def post_def split: if_splits)

definition tp_start :: "int \<Rightarrow> int \<Rightarrow> threadpool \<times> worker_phase list \<times> nat" where
  "tp_start n cap = (case threadpool_new n cap True of
     Inr p \<Rightarrow> (p, replicate (nat n) WWaiting, 0)
   | Inl _ \<Rightarrow> (\<lparr>m_thread_number = 0, m_max_requests = 0, m_workqueue = [], m_queuestat = 0, m_stop = True, m_joined = True\<rparr>, [], 0))"

lemma sum_list_waiting [simp]:
  "sum_list (map awake (replicate n WWaiting)) = 0" "sum_list (map exited (replicate n WWaiting)) = 0"
  by (induction n) simp_all

lemma tp_start_inv: "tp_inv (tp_start n cap)"
  by (auto simp: tp_start_def threadpool_new_def tp_inv_def tickets_def)

lemma tp_steps_inv: "tp_step\<^sup>*\<^sup>* cfg cfg' \<Longrightarrow> tp_inv cfg \<Longrightarrow> tp_inv cfg'"
  by (induction rule: rtranclp_induct) (auto intro: tp_step_inv)


section \<open>Shutting down\<close>





section \<open>Properties\<close>

text \<open>C28: no task is stranded. In every reachable state, with waits interrupted by signals at any moment, there is for each queued
  task a ticket in the semaphore, one about to be posted, or a worker that is awake and about to look at the
  queue; and the queue never exceeds its limit.\<close>

theorem queued_tasks_have_tickets:
  assumes "tp_step\<^sup>*\<^sup>* (tp_start n cap) (p, ws, k)"
  shows "length (m_workqueue p) \<le> m_queuestat p + k + sum_list (map awake ws)
    \<and> length (m_workqueue p) \<le> nat (m_max_requests p)"
  using tp_steps_inv [OF assms tp_start_inv] by (auto simp: tp_inv_def tickets_def split: if_splits)

text \<open>A pool of one worker with one queued task, and the same pool stopped.\<close>

definition demo_threads :: "threadpool \<times> worker_phase list \<times> nat" where
  "demo_threads = (case tp_start 1 4 of (p, ws, k) \<Rightarrow>
     (snd (enqueue_task \<lparr>t_request = Some 3, t_generation = 1\<rparr> p), ws, Suc k))"

lemma demo_threads_reachable: "tp_step\<^sup>*\<^sup>* (tp_start 1 4) demo_threads"
proof -
  have "tp_step (tp_start 1 4) demo_threads"
    using tp_append [of "\<lparr>t_request = Some 3, t_generation = 1\<rparr>" "fst (tp_start 1 4)" _ "fst (snd (tp_start 1 4))" 0]
    by (simp add: demo_threads_def tp_start_def threadpool_new_def enqueue_task_def)
  then show ?thesis by blast
qed

theorem queued_tasks_have_tickets_witness:
  "length (m_workqueue (fst demo_threads)) = 1 \<and> snd (snd demo_threads) = 1
   \<and> length (m_workqueue (fst demo_threads)) \<le> nat (m_max_requests (fst demo_threads))"
  using queued_tasks_have_tickets [of 1 4 "fst demo_threads" "fst (snd demo_threads)" "snd (snd demo_threads)"]
    demo_threads_reachable
  by (simp add: demo_threads_def tp_start_def threadpool_new_def enqueue_task_def)



end
