(* ===== verification/Timer_List.thy ===== *)
theory Timer_List
  imports Prelude
begin

text \<open>
  \<open>class sort_timer_lst\<close> of \<open>src/timer/lst_timer.h\<close> and \<open>lst_timer.cpp\<close>: the doubly linked list of
  connection timers, kept in the order of their expiry.

  A \<open>util_timer*\<close> is a number, the null pointer is \<open>None\<close>, and the heap is a map from numbers to nodes that
  \<open>delete\<close> removes from; an access through a null or dangling pointer is the result \<open>None\<close>.  The
  callback of a timer is recorded as the number of the client data it is called with; \<open>cb_func\<close> itself is in
  \<open>Web_Server\<close>.
\<close>

section \<open>State\<close>

record util_timer =
  expire :: int
  user_data :: nat
  t_prev :: "nat option"
  t_next :: "nat option"

type_synonym theap = "nat \<rightharpoonup> util_timer"

record timer_lst =
  heap :: theap
  tl_head :: "nat option"
  tl_tail :: "nat option"

definition sort_timer_lst_new :: timer_lst where
  "sort_timer_lst_new = \<lparr>heap = Map.empty, tl_head = None, tl_tail = None\<rparr>"

text \<open>Assignments through a pointer.\<close>

definition poke :: "nat option \<Rightarrow> (util_timer \<Rightarrow> util_timer) \<Rightarrow> timer_lst \<Rightarrow> timer_lst option" where
  "poke p f st =
     (case p of None \<Rightarrow> None
      | Some a \<Rightarrow> (case heap st a of None \<Rightarrow> None | Some n \<Rightarrow> Some (st\<lparr>heap := (heap st)(a \<mapsto> f n)\<rparr>)))"

definition set_next :: "nat option \<Rightarrow> nat option \<Rightarrow> timer_lst \<Rightarrow> timer_lst option" where
  "set_next p v = poke p (\<lambda>n. n\<lparr>t_next := v\<rparr>)"

definition set_prev :: "nat option \<Rightarrow> nat option \<Rightarrow> timer_lst \<Rightarrow> timer_lst option" where
  "set_prev p v = poke p (\<lambda>n. n\<lparr>t_prev := v\<rparr>)"

definition free_timer :: "nat \<Rightarrow> timer_lst \<Rightarrow> timer_lst" where
  "free_timer a st = st\<lparr>heap := (heap st)(a := None)\<rparr>"

section \<open>Operations\<close>

text \<open>The loop of the private \<open>add_timer(timer, lst_head)\<close>, and the append after it.\<close>

partial_function (option) add_loop :: "nat \<Rightarrow> nat option \<Rightarrow> nat option \<Rightarrow> timer_lst \<Rightarrow> timer_lst option" where
  "add_loop timer prev tmp st =
     (case tmp of
        None \<Rightarrow> Option.bind (set_next prev (Some timer) st) (\<lambda>st.
                Option.bind (set_prev (Some timer) prev st) (\<lambda>st.
                Option.bind (set_next (Some timer) None st) (\<lambda>st.
                Some (st\<lparr>tl_tail := Some timer\<rparr>))))
      | Some u \<Rightarrow>
          Option.bind (heap st timer) (\<lambda>nt. Option.bind (heap st u) (\<lambda>nu.
            if expire nt < expire nu then
              Option.bind (set_next prev (Some timer) st) (\<lambda>st.
              Option.bind (set_next (Some timer) tmp st) (\<lambda>st.
              Option.bind (set_prev tmp (Some timer) st) (\<lambda>st.
              set_prev (Some timer) prev st)))
            else add_loop timer tmp (t_next nu) st)))"

definition add_timer_from :: "nat \<Rightarrow> nat option \<Rightarrow> timer_lst \<Rightarrow> timer_lst option" where
  "add_timer_from timer lst_head st =
     (case lst_head of None \<Rightarrow> None
      | Some a \<Rightarrow> Option.bind (heap st a) (\<lambda>n. add_loop timer lst_head (t_next n) st))"

definition tl_add_timer :: "nat option \<Rightarrow> timer_lst \<Rightarrow> timer_lst option" where
  "tl_add_timer timer st =
     (case timer of
        None \<Rightarrow> Some st
      | Some t \<Rightarrow>
          (case tl_head st of
             None \<Rightarrow> Some (st\<lparr>tl_head := timer, tl_tail := timer\<rparr>)
           | Some h \<Rightarrow>
               Option.bind (heap st t) (\<lambda>nt. Option.bind (heap st h) (\<lambda>nh.
                 if expire nt < expire nh then
                   Option.bind (set_next timer (Some h) st) (\<lambda>st.
                   Option.bind (set_prev (Some h) timer st) (\<lambda>st.
                   Some (st\<lparr>tl_head := timer\<rparr>)))
                 else add_timer_from t (Some h) st))))"

definition tl_adjust_timer :: "nat option \<Rightarrow> timer_lst \<Rightarrow> timer_lst option" where
  "tl_adjust_timer timer st =
     (case timer of
        None \<Rightarrow> Some st
      | Some t \<Rightarrow>
          Option.bind (heap st t) (\<lambda>nt.
            case t_next nt of
              None \<Rightarrow> Some st
            | Some u \<Rightarrow>
                Option.bind (heap st u) (\<lambda>nu.
                  if expire nt < expire nu then Some st
                  else if timer = tl_head st then
                    Option.bind (set_prev (Some u) None (st\<lparr>tl_head := Some u\<rparr>)) (\<lambda>st.
                    Option.bind (set_next timer None st) (\<lambda>st.
                    add_timer_from t (tl_head st) st))
                  else
                    Option.bind (set_next (t_prev nt) (t_next nt) st) (\<lambda>st.
                    Option.bind (set_prev (t_next nt) (t_prev nt) st) (\<lambda>st.
                    add_timer_from t (t_next nt) st)))))"

definition tl_del_timer :: "nat option \<Rightarrow> timer_lst \<Rightarrow> timer_lst option" where
  "tl_del_timer timer st =
     (case timer of
        None \<Rightarrow> Some st
      | Some t \<Rightarrow>
          if timer = tl_head st \<and> timer = tl_tail st then
            Option.bind (heap st t) (\<lambda>_. Some ((free_timer t st)\<lparr>tl_head := None, tl_tail := None\<rparr>))
          else
            Option.bind (heap st t) (\<lambda>nt.
              if timer = tl_head st then
                Option.bind (set_prev (t_next nt) None (st\<lparr>tl_head := t_next nt\<rparr>)) (\<lambda>st. Some (free_timer t st))
              else if timer = tl_tail st then
                Option.bind (set_next (t_prev nt) None (st\<lparr>tl_tail := t_prev nt\<rparr>)) (\<lambda>st. Some (free_timer t st))
              else
                Option.bind (set_next (t_prev nt) (t_next nt) st) (\<lambda>st.
                Option.bind (set_prev (t_next nt) (t_prev nt) st) (\<lambda>st. Some (free_timer t st)))))"

text \<open>The loop of \<open>tick\<close>; the result lists the client data of the fired timers, in order.\<close>

partial_function (option) tick_loop :: "int \<Rightarrow> nat option \<Rightarrow> timer_lst \<Rightarrow> (nat list \<times> timer_lst) option" where
  "tick_loop cur tmp st =
     (case tmp of
        None \<Rightarrow> Some ([], st)
      | Some t \<Rightarrow>
          Option.bind (heap st t) (\<lambda>nt.
            if cur < expire nt then Some ([], st)
            else
              Option.bind (case t_next nt of
                             None \<Rightarrow> Some (st\<lparr>tl_head := None\<rparr>)
                           | Some u \<Rightarrow> set_prev (Some u) None (st\<lparr>tl_head := Some u\<rparr>)) (\<lambda>st.
              Option.bind (tick_loop cur (t_next nt) (free_timer t st)) (\<lambda>(fired, st'). Some (user_data nt # fired, st')))))"

definition tl_tick :: "int \<Rightarrow> timer_lst \<Rightarrow> (nat list \<times> timer_lst) option" where
  "tl_tick cur st = (case tl_head st of None \<Rightarrow> Some ([], st) | Some _ \<Rightarrow> tick_loop cur (tl_head st) st)"

text \<open>The destructor's loop.\<close>

partial_function (option) destroy_loop :: "nat option \<Rightarrow> timer_lst \<Rightarrow> timer_lst option" where
  "destroy_loop tmp st =
     (case tmp of
        None \<Rightarrow> Some st
      | Some t \<Rightarrow> Option.bind (heap st t) (\<lambda>n. destroy_loop (t_next n) (free_timer t (st\<lparr>tl_head := t_next n\<rparr>))))"

definition tl_destroy :: "timer_lst \<Rightarrow> timer_lst option" where
  "tl_destroy st = destroy_loop (tl_head st) st"

text \<open>Allocation of a timer by the event loop (\<open>new util_timer\<close> and its two assignments), and the assignment of a
  later expiry before \<open>adjust_timer\<close>.\<close>

definition new_timer :: "nat \<Rightarrow> nat \<Rightarrow> int \<Rightarrow> timer_lst \<Rightarrow> timer_lst" where
  "new_timer t user ex st =
     st\<lparr>heap := (heap st)(t \<mapsto> \<lparr>expire = ex, user_data = user, t_prev = None, t_next = None\<rparr>)\<rparr>"

definition set_expire :: "nat \<Rightarrow> int \<Rightarrow> timer_lst \<Rightarrow> timer_lst option" where
  "set_expire t ex = poke (Some t) (\<lambda>n. n\<lparr>expire := ex\<rparr>)"

section \<open>The list in the heap\<close>

text \<open>\<open>dseg h p ts q\<close>: the nodes \<open>ts\<close> are linked in this order, with \<open>p\<close> before the first and \<open>q\<close> after the
  last.\<close>

definition first :: "nat list \<Rightarrow> nat option \<Rightarrow> nat option" where
  "first ts q = (case ts of [] \<Rightarrow> q | t # _ \<Rightarrow> Some t)"

definition final :: "nat option \<Rightarrow> nat list \<Rightarrow> nat option" where
  "final p ts = (if ts = [] then p else Some (last ts))"

fun dseg :: "theap \<Rightarrow> nat option \<Rightarrow> nat list \<Rightarrow> nat option \<Rightarrow> bool" where
  "dseg h p [] q = True"
| "dseg h p (t # ts) q =
     ((case h t of None \<Rightarrow> False | Some n \<Rightarrow> t_prev n = p \<and> t_next n = first ts q) \<and> dseg h (Some t) ts q)"

lemma first_simps [simp]: "first [] q = q" "first (t # ts) q = Some t"
  by (simp_all add: first_def)

lemma final_simps [simp]: "final p [] = p" "final p (t # ts) = final (Some t) ts" "final p (ts @ [t]) = Some t"
  by (simp_all add: final_def)

lemma first_append [simp]: "first (as @ bs) q = first as (first bs q)"
  by (cases as) simp_all

lemma final_append [simp]: "final p (as @ bs) = final (final p as) bs"
  by (simp add: final_def)

lemma dseg_append: "dseg h p (as @ bs) q \<longleftrightarrow> dseg h p as (first bs q) \<and> dseg h (final p as) bs q"
  by (induction as arbitrary: p) (auto split: option.splits)

lemma dseg_frame: "t \<notin> set ts \<Longrightarrow> dseg (h(t := v)) p ts q = dseg h p ts q"
  by (induction ts arbitrary: p) (auto simp del: fun_upd_apply simp add: fun_upd_other)

text \<open>A list object stands for the timers \<open>ts\<close>.  \<open>tick\<close> does not reset \<open>tail\<close>, so it only counts when the
  list is not empty.\<close>

definition tl_rep :: "timer_lst \<Rightarrow> nat list \<Rightarrow> bool" where
  "tl_rep st ts \<longleftrightarrow> distinct ts \<and> dseg (heap st) None ts None \<and> tl_head st = first ts None
     \<and> (ts \<noteq> [] \<longrightarrow> tl_tail st = Some (last ts))"

text \<open>What the links do not touch.\<close>

definition info :: "theap \<Rightarrow> nat \<rightharpoonup> int \<times> nat" where
  "info h t = map_option (\<lambda>n. (expire n, user_data n)) (h t)"

definition exp_of :: "theap \<Rightarrow> nat \<Rightarrow> int" where
  "exp_of h t = (case h t of None \<Rightarrow> 0 | Some n \<Rightarrow> expire n)"

lemma exp_of_info: "exp_of h t = (case info h t of None \<Rightarrow> 0 | Some x \<Rightarrow> fst x)"
  by (simp add: exp_of_def info_def split: option.splits)

lemma info_relink:
  "h t = Some n \<Longrightarrow> info (h(t \<mapsto> n\<lparr>t_next := v\<rparr>)) = info h"
  "h t = Some n \<Longrightarrow> info (h(t \<mapsto> n\<lparr>t_prev := v\<rparr>)) = info h"
  by (auto simp: info_def fun_eq_iff)

lemma poke_Some: "heap st a = Some n \<Longrightarrow> poke (Some a) f st = Some (st\<lparr>heap := (heap st)(a \<mapsto> f n)\<rparr>)"
  by (simp add: poke_def)

lemma dseg_member: "dseg h p ts q \<Longrightarrow> t \<in> set ts \<Longrightarrow> \<exists>n. h t = Some n"
  by (induction ts arbitrary: p) (auto split: option.splits)

lemmas set_defs = set_next_def set_prev_def poke_def

text \<open>Splicing a node into the list after \<open>a\<close>: at the end, and before \<open>b\<close>.\<close>

lemma splice_end:
  assumes "dseg (heap st) None (as @ [a]) None" "distinct (as @ [a])" "t \<notin> set (as @ [a])" "heap st t = Some nt"
  shows "\<exists>h'. Option.bind (set_next (Some a) (Some t) st) (\<lambda>st. Option.bind (set_prev (Some t) (Some a) st) (\<lambda>st.
      Option.bind (set_next (Some t) None st) (\<lambda>st. Some (st\<lparr>tl_tail := Some t\<rparr>)))) = Some (st\<lparr>heap := h', tl_tail := Some t\<rparr>)
    \<and> dseg h' None (as @ [a, t]) None \<and> info h' = info (heap st)"
proof -
  obtain na where na: "heap st a = Some na" using dseg_member [OF assms(1), of a] by auto
  let ?h = "(heap st)(a \<mapsto> na\<lparr>t_next := Some t\<rparr>, t \<mapsto> nt\<lparr>t_prev := Some a, t_next := None\<rparr>)"
  have "dseg ?h None (as @ [a, t]) None"
    using assms na by (auto simp: dseg_append dseg_frame simp del: fun_upd_apply) (auto split: option.splits)
  moreover have "info ?h = info (heap st)" using na assms(4) by (auto simp: info_def fun_eq_iff)
  moreover have "a \<noteq> t" using assms(3) by auto
  ultimately show ?thesis using na assms(4) by (auto simp: set_defs intro!: exI [of _ ?h])
qed

lemma splice_before:
  assumes "dseg (heap st) None (as @ a # b # bs) None" "distinct (as @ a # b # bs)" "t \<notin> set (as @ a # b # bs)"
    "heap st t = Some nt"
  shows "\<exists>h'. Option.bind (set_next (Some a) (Some t) st) (\<lambda>st. Option.bind (set_next (Some t) (Some b) st) (\<lambda>st.
      Option.bind (set_prev (Some b) (Some t) st) (\<lambda>st. set_prev (Some t) (Some a) st))) = Some (st\<lparr>heap := h'\<rparr>)
    \<and> dseg h' None (as @ a # t # b # bs) None \<and> info h' = info (heap st)"
proof -
  obtain na where na: "heap st a = Some na" using dseg_member [OF assms(1), of a] by auto
  obtain nb where nb: "heap st b = Some nb" using dseg_member [OF assms(1), of b] by auto
  have ne: "a \<noteq> t" "b \<noteq> t" "a \<noteq> b" using assms(2,3) by auto
  let ?h = "(heap st)(a \<mapsto> na\<lparr>t_next := Some t\<rparr>, t \<mapsto> nt\<lparr>t_next := Some b, t_prev := Some a\<rparr>, b \<mapsto> nb\<lparr>t_prev := Some t\<rparr>)"
  have "dseg ?h None (as @ a # t # b # bs) None"
    using assms na nb ne by (auto simp: dseg_append dseg_frame simp del: fun_upd_apply) (auto split: option.splits)
  moreover have "info ?h = info (heap st)" using na nb assms(4) by (auto simp: info_def fun_eq_iff)
  moreover have "(heap st)(a \<mapsto> na\<lparr>t_next := Some t\<rparr>, t \<mapsto> nt\<lparr>t_next := Some b\<rparr>, b \<mapsto> nb\<lparr>t_prev := Some t\<rparr>,
      t \<mapsto> nt\<lparr>t_next := Some b, t_prev := Some a\<rparr>) = ?h" using ne by (auto simp: fun_eq_iff)
  ultimately show ?thesis using na nb ne assms(4) by (auto simp: set_defs intro!: exI [of _ ?h])
qed

text \<open>The place of a timer in a list: after all timers that do not expire later.\<close>

definition insert_timer :: "(nat \<Rightarrow> int) \<Rightarrow> nat \<Rightarrow> nat list \<Rightarrow> nat list" where
  "insert_timer e t ts = takeWhile (\<lambda>u. e u \<le> e t) ts @ t # dropWhile (\<lambda>u. e u \<le> e t) ts"

lemma set_insert_timer [simp]: "set (insert_timer e t ts) = insert t (set ts)"
proof -
  have "set (takeWhile P ts) \<union> set (dropWhile P ts) = set ts" for P
    by (metis set_append takeWhile_dropWhile_id)
  then show ?thesis by (auto simp: insert_timer_def)
qed

lemma distinct_insert_timer: "distinct ts \<Longrightarrow> t \<notin> set ts \<Longrightarrow> distinct (insert_timer e t ts)"
  by (induction ts) (auto simp: insert_timer_def dest: set_takeWhileD set_dropWhileD)

lemma sorted_insert_timer: "sorted (map e ts) \<Longrightarrow> sorted (map e (insert_timer e t ts))"
proof (induction ts)
  case (Cons a ts)
  show ?case
  proof (cases "e a \<le> e t")
    case True
    then have "insert_timer e t (a # ts) = a # insert_timer e t ts" by (simp add: insert_timer_def)
    with Cons True show ?thesis by auto
  next
    case False
    then have "insert_timer e t (a # ts) = t # a # ts" by (simp add: insert_timer_def)
    with Cons False show ?thesis by auto
  qed
qed (simp add: insert_timer_def)

lemma add_loop_inserts:
  assumes "dseg (heap st) None (as @ a # bs) None" "distinct (as @ a # bs)" "t \<notin> set (as @ a # bs)" "heap st t = Some nt"
    and tail: "tl_tail st = Some (last (as @ a # bs))"
  shows "\<exists>h' tail'. add_loop t (Some a) (first bs None) st = Some (st\<lparr>heap := h', tl_tail := tail'\<rparr>)
    \<and> dseg h' None (as @ a # insert_timer (exp_of (heap st)) t bs) None \<and> info h' = info (heap st)
    \<and> tail' = Some (last (as @ a # insert_timer (exp_of (heap st)) t bs))"
  using assms
proof (induction bs arbitrary: as a)
  case Nil
  from splice_end [OF Nil(1-4)] show ?case by (subst add_loop.simps) (auto simp: insert_timer_def)
next
  case (Cons b bs)
  obtain nb where nb: "heap st b = Some nb" using dseg_member [OF Cons.prems(1), of b] by auto
  have e: "exp_of (heap st) b = expire nb" "exp_of (heap st) t = expire nt"
    using nb Cons.prems(4) by (simp_all add: exp_of_def)
  show ?case
  proof (cases "expire nt < expire nb")
    case True
    have st: "st\<lparr>heap := h', tl_tail := tl_tail st\<rparr> = st\<lparr>heap := h'\<rparr>" for h' by simp
    from splice_before [OF Cons.prems(1-4)] True nb Cons.prems(4,5) e show ?thesis
      by (subst add_loop.simps) (force simp: insert_timer_def)
  next
    case False
    have next_b: "t_next nb = first bs None" using Cons.prems(1) nb by (auto simp: dseg_append split: option.splits)
    have "\<exists>h' tail'. add_loop t (Some b) (first bs None) st = Some (st\<lparr>heap := h', tl_tail := tail'\<rparr>)
      \<and> dseg h' None ((as @ [a]) @ b # insert_timer (exp_of (heap st)) t bs) None \<and> info h' = info (heap st)
      \<and> tail' = Some (last ((as @ [a]) @ b # insert_timer (exp_of (heap st)) t bs))"
      using Cons.prems by (intro Cons.IH) auto
    with False nb Cons.prems(4) e next_b show ?thesis
      by (subst add_loop.simps) (simp add: insert_timer_def)
  qed
qed

lemma tl_add_timer_inserts:
  assumes "tl_rep st ts" "t \<notin> set ts" "heap st t = Some nt" "t_prev nt = None" "t_next nt = None"
  shows "\<exists>st'. tl_add_timer (Some t) st = Some st' \<and> tl_rep st' (insert_timer (exp_of (heap st)) t ts)
    \<and> info (heap st') = info (heap st)"
proof (cases ts)
  case Nil
  with assms show ?thesis by (auto simp: tl_rep_def tl_add_timer_def insert_timer_def)
next
  case (Cons a bs)
  have rep: "dseg (heap st) None ([] @ a # bs) None" "distinct ([] @ a # bs)" "tl_head st = Some a"
    "tl_tail st = Some (last ([] @ a # bs))" using assms(1) Cons by (simp_all add: tl_rep_def)
  have t: "t \<notin> set ([] @ a # bs)" using assms(2) Cons by simp
  obtain na where na: "heap st a = Some na" using dseg_member [OF rep(1), of a] by auto
  have e: "exp_of (heap st) a = expire na" "exp_of (heap st) t = expire nt"
    using na assms(3) by (simp_all add: exp_of_def)
  show ?thesis
  proof (cases "expire nt < expire na")
    case True
    let ?h = "(heap st)(t \<mapsto> nt\<lparr>t_next := Some a\<rparr>, a \<mapsto> na\<lparr>t_prev := Some t\<rparr>)"
    have ne: "a \<noteq> t" using t by auto
    have "dseg ?h None (t # a # bs) None"
      using rep t na ne assms(4) by (auto simp: dseg_frame simp del: fun_upd_apply) (auto split: option.splits)
    moreover have "info ?h = info (heap st)" using na assms(3) by (auto simp: info_def fun_eq_iff)
    moreover have "tl_add_timer (Some t) st = Some (st\<lparr>heap := ?h, tl_head := Some t\<rparr>)"
      using rep(3) na assms(3) True ne by (simp add: tl_add_timer_def set_defs)
    ultimately show ?thesis using rep t True e Cons by (auto simp: tl_rep_def insert_timer_def)
  next
    case False
    have next_a: "t_next na = first bs None" using rep(1) na by (auto split: option.splits)
    from add_loop_inserts [OF rep(1,2) t assms(3) rep(4)] obtain h' tail'
      where l: "add_loop t (Some a) (first bs None) st = Some (st\<lparr>heap := h', tl_tail := tail'\<rparr>)"
        "dseg h' None (a # insert_timer (exp_of (heap st)) t bs) None" "info h' = info (heap st)"
        "tail' = Some (last (a # insert_timer (exp_of (heap st)) t bs))" by auto
    have ins: "insert_timer (exp_of (heap st)) t ts = a # insert_timer (exp_of (heap st)) t bs"
      using False e Cons by (simp add: insert_timer_def)
    have "tl_add_timer (Some t) st = Some (st\<lparr>heap := h', tl_tail := tail'\<rparr>)"
      using rep(3) na assms(3) False l(1) next_a by (simp add: tl_add_timer_def add_timer_from_def)
    moreover have "distinct (a # insert_timer (exp_of (heap st)) t bs)"
      using distinct_insert_timer [of bs t] rep(2) t by auto
    ultimately show ?thesis using l rep(3) unfolding ins by (auto simp: tl_rep_def)
  qed
qed

text \<open>Taking a node out: at the head, in the middle and at the end.\<close>

lemma unlink_head:
  assumes "dseg (heap st) None (t # b # bs) None" "distinct (t # b # bs)" "heap st b = Some nb"
  shows "dseg ((heap st)(b \<mapsto> nb\<lparr>t_prev := None\<rparr>)) None (b # bs) None"
  using assms by (auto simp: dseg_frame simp del: fun_upd_apply) (auto split: option.splits)

lemma unlink_middle:
  assumes "dseg (heap st) None (as @ a # t # b # bs) None" "distinct (as @ a # t # b # bs)"
  shows "\<exists>h'. Option.bind (set_next (Some a) (Some b) st) (set_prev (Some b) (Some a)) = Some (st\<lparr>heap := h'\<rparr>)
    \<and> dseg h' None (as @ a # b # bs) None \<and> info h' = info (heap st) \<and> h' t = heap st t"
proof -
  obtain na where na: "heap st a = Some na" using dseg_member [OF assms(1), of a] by auto
  obtain nb where nb: "heap st b = Some nb" using dseg_member [OF assms(1), of b] by auto
  have ne: "a \<noteq> b" "a \<noteq> t" "b \<noteq> t" using assms(2) by auto
  let ?h = "(heap st)(a \<mapsto> na\<lparr>t_next := Some b\<rparr>, b \<mapsto> nb\<lparr>t_prev := Some a\<rparr>)"
  have "dseg ?h None (as @ a # b # bs) None"
    using assms na nb ne by (auto simp: dseg_append dseg_frame simp del: fun_upd_apply) (auto split: option.splits)
  moreover have "info ?h = info (heap st)" using na nb by (auto simp: info_def fun_eq_iff)
  ultimately show ?thesis using na nb ne by (auto simp: set_defs intro!: exI [of _ ?h])
qed

lemma unlink_end:
  assumes "dseg (heap st) None (as @ [a, t]) None" "distinct (as @ [a, t])" "heap st a = Some na"
  shows "dseg ((heap st)(a \<mapsto> na\<lparr>t_next := None\<rparr>)) None (as @ [a]) None"
  using assms by (auto simp: dseg_append dseg_frame simp del: fun_upd_apply) (auto split: option.splits)

lemma dseg_links:
  assumes "dseg h None (as @ t # bs) None"
  obtains n where "h t = Some n" "t_prev n = final None as" "t_next n = first bs None"
  using assms by (auto simp: dseg_append split: option.splits)

lemma rep_links:
  assumes "tl_rep st (as @ t # bs)"
  shows "\<exists>n. heap st t = Some n \<and> t_prev n = final None as \<and> t_next n = first bs None"
    and "Some t = tl_head st \<longleftrightarrow> as = []" and "Some t = tl_tail st \<longleftrightarrow> bs = []"
proof -
  have d: "dseg (heap st) None (as @ t # bs) None" "distinct (as @ t # bs)" "tl_head st = first (as @ t # bs) None"
    "tl_tail st = Some (last (as @ t # bs))" using assms by (simp_all add: tl_rep_def)
  from dseg_links [OF d(1)] show "\<exists>n. heap st t = Some n \<and> t_prev n = final None as \<and> t_next n = first bs None" by blast
  show "Some t = tl_head st \<longleftrightarrow> as = []" using d by (cases as) auto
  show "Some t = tl_tail st \<longleftrightarrow> bs = []" using d by (cases bs rule: rev_cases) auto
qed

lemma exp_of_same: "info h' = info h \<Longrightarrow> exp_of h' = exp_of h"
  by (simp add: exp_of_info fun_eq_iff)

text \<open>A timer that is overtaken by its successor \<open>b\<close> moves behind it: from the head, and from the middle.\<close>

lemma adjust_head:
  assumes rep: "tl_rep st (t # b # cs)" and nt: "heap st t = Some nt" and nb: "heap st b = Some nb"
    and late: "\<not> expire nt < expire nb"
  shows "\<exists>h' tail'. tl_adjust_timer (Some t) st = Some (st\<lparr>tl_head := Some b, heap := h', tl_tail := tail'\<rparr>)
    \<and> dseg h' None (b # insert_timer (exp_of (heap st)) t cs) None \<and> info h' = info (heap st)
    \<and> tail' = Some (last (b # insert_timer (exp_of (heap st)) t cs))"
proof -
  let ?h = "(heap st)(b \<mapsto> nb\<lparr>t_prev := None\<rparr>, t \<mapsto> nt\<lparr>t_next := None\<rparr>)"
  let ?st = "st\<lparr>tl_head := Some b, heap := ?h\<rparr>"
  have d: "dseg (heap st) None (t # b # cs) None" "distinct (t # b # cs)" "tl_head st = Some t"
    "tl_tail st = Some (last (t # b # cs))" using rep by (simp_all add: tl_rep_def)
  have links: "t_next nt = Some b" "t_next nb = first cs None" using d(1) nt nb by simp_all
  have i: "info ?h = info (heap st)" using nt nb by (auto simp: info_def fun_eq_iff)
  have seg: "dseg ?h None (b # cs) None"
    using unlink_head [OF d(1,2) nb] d(2) by (subst dseg_frame) auto
  have "\<exists>h' tail'. add_loop t (Some b) (first cs None) ?st = Some (?st\<lparr>heap := h', tl_tail := tail'\<rparr>)
    \<and> dseg h' None ([] @ b # insert_timer (exp_of (heap ?st)) t cs) None \<and> info h' = info (heap ?st)
    \<and> tail' = Some (last ([] @ b # insert_timer (exp_of (heap ?st)) t cs))"
    using seg d by (intro add_loop_inserts [where nt = "nt\<lparr>t_next := None\<rparr>"]) auto
  moreover have "tl_adjust_timer (Some t) st = add_loop t (Some b) (first cs None) ?st"
    using nt nb late d(2,3) links by (auto simp: tl_adjust_timer_def set_defs add_timer_from_def)
  ultimately show ?thesis using i exp_of_same [OF i] by auto
qed

lemma adjust_middle:
  assumes rep: "tl_rep st (xs @ a # t # b # cs)" and nt: "heap st t = Some nt" and nb: "heap st b = Some nb"
    and late: "\<not> expire nt < expire nb"
  shows "\<exists>h' tail'. tl_adjust_timer (Some t) st = Some (st\<lparr>heap := h', tl_tail := tail'\<rparr>)
    \<and> dseg h' None (xs @ a # b # insert_timer (exp_of (heap st)) t cs) None \<and> info h' = info (heap st)
    \<and> tail' = Some (last (xs @ a # b # insert_timer (exp_of (heap st)) t cs))"
proof -
  have d: "dseg (heap st) None (xs @ a # t # b # cs) None" "distinct (xs @ a # t # b # cs)"
    "tl_tail st = Some (last (xs @ a # t # b # cs))" using rep by (simp_all add: tl_rep_def)
  have not_head: "Some t \<noteq> tl_head st" using rep_links(2) [of st "xs @ [a]" t "b # cs"] rep by simp
  have links: "t_prev nt = Some a" "t_next nt = Some b"
    using rep_links(1) [of st "xs @ [a]" t "b # cs"] rep nt by auto
  from unlink_middle [OF d(1,2)] obtain h
    where u: "Option.bind (set_next (Some a) (Some b) st) (set_prev (Some b) (Some a)) = Some (st\<lparr>heap := h\<rparr>)"
      "dseg h None (xs @ a # b # cs) None" "info h = info (heap st)" "h t = heap st t" by auto
  let ?st = "st\<lparr>heap := h\<rparr>"
  obtain nb' where nb': "h b = Some nb'" "t_next nb' = first cs None"
    using dseg_links [of h "xs @ [a]" b cs] u(2) by auto
  have "\<exists>h' tail'. add_loop t (Some b) (first cs None) ?st = Some (?st\<lparr>heap := h', tl_tail := tail'\<rparr>)
    \<and> dseg h' None ((xs @ [a]) @ b # insert_timer (exp_of (heap ?st)) t cs) None \<and> info h' = info (heap ?st)
    \<and> tail' = Some (last ((xs @ [a]) @ b # insert_timer (exp_of (heap ?st)) t cs))"
    using u(2,4) d(2,3) nt by (intro add_loop_inserts [where nt = nt]) auto
  moreover have "tl_adjust_timer (Some t) st =
      Option.bind (Option.bind (set_next (Some a) (Some b) st) (set_prev (Some b) (Some a))) (add_timer_from t (Some b))"
    using nt nb late not_head links by (simp add: tl_adjust_timer_def)
  moreover have "add_timer_from t (Some b) ?st = add_loop t (Some b) (first cs None) ?st"
    using nb' by (simp add: add_timer_from_def)
  ultimately show ?thesis using u(1,3) exp_of_same [OF u(3)] by auto
qed

lemma tl_adjust_timer_moves:
  assumes rep: "tl_rep st (as @ t # bs)"
  shows "\<exists>st'. tl_adjust_timer (Some t) st = Some st' \<and> tl_rep st' (as @ insert_timer (exp_of (heap st)) t bs)
    \<and> info (heap st') = info (heap st)"
proof -
  obtain nt where nt: "heap st t = Some nt" "t_next nt = first bs None" using rep_links(1) [OF rep] by blast
  show ?thesis
  proof (cases bs)
    case Nil
    with nt rep show ?thesis by (auto simp: tl_adjust_timer_def insert_timer_def)
  next
    case (Cons b cs)
    obtain nb where nb: "heap st b = Some nb" using rep_links(1) [of st "as @ [t]" b cs] rep Cons by auto
    have e: "exp_of (heap st) b = expire nb" "exp_of (heap st) t = expire nt"
      using nb nt by (simp_all add: exp_of_def)
    show ?thesis
    proof (cases "expire nt < expire nb")
      case True
      with nt nb rep e Cons show ?thesis by (auto simp: tl_adjust_timer_def insert_timer_def)
    next
      case False
      then have ins: "insert_timer (exp_of (heap st)) t bs = b # insert_timer (exp_of (heap st)) t cs"
        using e Cons by (simp add: insert_timer_def)
      have shape: "distinct (as @ b # insert_timer (exp_of (heap st)) t cs)" "tl_head st = first (as @ t # bs) None"
        using distinct_insert_timer [of cs t] rep Cons by (auto simp: tl_rep_def)
      show ?thesis
      proof (cases as rule: rev_cases)
        case Nil
        with rep Cons adjust_head [OF _ nt(1) nb False, of cs] obtain h' tail'
          where l: "tl_adjust_timer (Some t) st = Some (st\<lparr>tl_head := Some b, heap := h', tl_tail := tail'\<rparr>)"
            "dseg h' None (b # insert_timer (exp_of (heap st)) t cs) None" "info h' = info (heap st)"
            "tail' = Some (last (b # insert_timer (exp_of (heap st)) t cs))" by auto
        with shape Nil show ?thesis unfolding ins by (simp add: tl_rep_def)
      next
        case (snoc xs a)
        with rep Cons adjust_middle [OF _ nt(1) nb False, of xs a cs] obtain h' tail'
          where l: "tl_adjust_timer (Some t) st = Some (st\<lparr>heap := h', tl_tail := tail'\<rparr>)"
            "dseg h' None (xs @ a # b # insert_timer (exp_of (heap st)) t cs) None" "info h' = info (heap st)"
            "tail' = Some (last (xs @ a # b # insert_timer (exp_of (heap st)) t cs))" by auto
        with shape snoc show ?thesis unfolding ins by (simp add: tl_rep_def)
      qed
    qed
  qed
qed

lemma tl_del_timer_removes:
  assumes rep: "tl_rep st (as @ t # bs)"
  shows "\<exists>st'. tl_del_timer (Some t) st = Some st' \<and> tl_rep st' (as @ bs) \<and> info (heap st') = (info (heap st))(t := None)"
proof -
  obtain nt where nt: "heap st t = Some nt" "t_prev nt = final None as" "t_next nt = first bs None"
    using rep_links(1) [OF rep] by blast
  note ends = rep_links(2,3) [OF rep]
  have d: "dseg (heap st) None (as @ t # bs) None" "distinct (as @ t # bs)" "tl_head st = first (as @ t # bs) None"
    "tl_tail st = Some (last (as @ t # bs))" using rep by (simp_all add: tl_rep_def)
  have freed: "info ((h :: theap)(t := None)) = (info h)(t := None)" for h by (auto simp: info_def)
  consider "as = []" "bs = []" | b cs where "as = []" "bs = b # cs" | xs a where "as = xs @ [a]" "bs = []"
    | xs a b cs where "as = xs @ [a]" "bs = b # cs"
    by (cases as rule: rev_cases; cases bs) auto
  then show ?thesis
  proof cases
    case 1
    with d have "tl_head st = Some t" "tl_tail st = Some t" by simp_all
    with 1 nt(1) freed show ?thesis by (auto simp: tl_del_timer_def tl_rep_def free_timer_def)
  next
    case (2 b cs)
    obtain nb where nb: "heap st b = Some nb" using dseg_member [OF d(1), of b] 2 by auto
    let ?h = "(heap st)(b \<mapsto> nb\<lparr>t_prev := None\<rparr>)"
    have "dseg ?h None (b # cs) None" using unlink_head [of st t b cs] d nb 2 by simp
    then have "dseg (?h(t := None)) None (b # cs) None" using d(2) 2 by (subst dseg_frame) auto
    moreover have "tl_del_timer (Some t) st = Some (st\<lparr>tl_head := Some b, heap := ?h(t := None)\<rparr>)"
      using nt nb ends(2) d(3) 2 by (simp add: tl_del_timer_def set_defs free_timer_def)
    moreover have "info ?h = info (heap st)" by (rule info_relink(2)) (rule nb)
    ultimately show ?thesis using freed [of ?h] d 2 by (simp add: tl_rep_def)
  next
    case (3 xs a)
    obtain na where na: "heap st a = Some na" using dseg_member [OF d(1), of a] 3 by auto
    let ?h = "(heap st)(a \<mapsto> na\<lparr>t_next := None\<rparr>)"
    have "dseg ?h None (xs @ [a]) None" using unlink_end [of st xs a t] d na 3 by simp
    then have "dseg (?h(t := None)) None (xs @ [a]) None" using d(2) 3 by (subst dseg_frame) auto
    moreover have "tl_del_timer (Some t) st = Some (st\<lparr>tl_tail := Some a, heap := ?h(t := None)\<rparr>)"
      using nt na ends(1) d(4) 3 by (simp add: tl_del_timer_def set_defs free_timer_def)
    moreover have "info ?h = info (heap st)" by (rule info_relink(1)) (rule na)
    ultimately show ?thesis using freed [of ?h] d 3 by (simp add: tl_rep_def)
  next
    case (4 xs a b cs)
    from unlink_middle [of st xs a t b cs] d(1,2) 4 obtain h
      where u: "Option.bind (set_next (Some a) (Some b) st) (set_prev (Some b) (Some a)) = Some (st\<lparr>heap := h\<rparr>)"
        "dseg h None (xs @ a # b # cs) None" "info h = info (heap st)" by auto
    have "tl_del_timer (Some t) st =
        Option.bind (Option.bind (set_next (Some a) (Some b) st) (set_prev (Some b) (Some a))) (\<lambda>st. Some (free_timer t st))"
      using nt ends 4 by (simp add: tl_del_timer_def)
    then have "tl_del_timer (Some t) st = Some (st\<lparr>heap := h(t := None)\<rparr>)" using u(1) by (simp add: free_timer_def)
    moreover have "dseg (h(t := None)) None (xs @ a # b # cs) None" using u(2) d(2) 4 by (subst dseg_frame) auto
    ultimately show ?thesis using freed [of h] u(3) d 4 by (simp add: tl_rep_def)
  qed
qed

text \<open>One turn of \<open>tick\<close> on an expired head: the head moves on and the old node is freed.\<close>

lemma tick_unlink:
  assumes rep: "tl_rep st (t # ts)"
  obtains st1 where "(case first ts None of None \<Rightarrow> Some (st\<lparr>tl_head := None\<rparr>)
        | Some u \<Rightarrow> set_prev (Some u) None (st\<lparr>tl_head := Some u\<rparr>)) = Some st1"
      "tl_rep (free_timer t st1) ts" "info (heap (free_timer t st1)) = (info (heap st))(t := None)"
proof (cases ts)
  case Nil
  with rep show ?thesis by (intro that [of "st\<lparr>tl_head := None\<rparr>"]) (auto simp: tl_rep_def free_timer_def info_def)
next
  case ts: (Cons b cs)
  have d: "dseg (heap st) None (t # ts) None" "distinct (t # ts)" using rep by (simp_all add: tl_rep_def)
  obtain nb where nb: "heap st b = Some nb" using dseg_member [OF d(1), of b] ts by auto
  let ?h = "(heap st)(b \<mapsto> nb\<lparr>t_prev := None\<rparr>)"
  have "dseg ?h None (b # cs) None" using unlink_head [of st t b cs] d nb ts by simp
  then have "dseg (?h(t := None)) None (b # cs) None" using d(2) ts by (subst dseg_frame) auto
  moreover have "info (?h(t := None)) = (info (heap st))(t := None)" using nb by (auto simp: info_def fun_eq_iff)
  ultimately show ?thesis using nb ts rep
    by (intro that [of "st\<lparr>tl_head := Some b, heap := ?h\<rparr>"]) (auto simp: set_defs tl_rep_def free_timer_def)
qed

lemma tick_loop_fires:
  assumes "tl_rep st ts"
  shows "\<exists>st'. tick_loop cur (first ts None) st =
      Some (map (\<lambda>t. snd (the (info (heap st) t))) (takeWhile (\<lambda>t. exp_of (heap st) t \<le> cur) ts), st')
    \<and> tl_rep st' (dropWhile (\<lambda>t. exp_of (heap st) t \<le> cur) ts)
    \<and> info (heap st') = (\<lambda>t. if t \<in> set (takeWhile (\<lambda>t. exp_of (heap st) t \<le> cur) ts) then None else info (heap st) t)"
  using assms
proof (induction ts arbitrary: st)
  case Nil
  then show ?case by (subst tick_loop.simps) (auto simp: tl_rep_def)
next
  case (Cons t ts)
  have d: "dseg (heap st) None (t # ts) None" "distinct (t # ts)" using Cons.prems by (simp_all add: tl_rep_def)
  obtain nt where nt: "heap st t = Some nt" "t_next nt = first ts None" using d(1) by (auto split: option.splits)
  have e: "exp_of (heap st) t = expire nt" using nt by (simp add: exp_of_def)
  show ?case
  proof (cases "cur < expire nt")
    case True
    with nt e Cons.prems show ?thesis by (subst tick_loop.simps) auto
  next
    case False
    from tick_unlink [OF Cons.prems] obtain st1 where st1:
        "(case first ts None of None \<Rightarrow> Some (st\<lparr>tl_head := None\<rparr>)
          | Some u \<Rightarrow> set_prev (Some u) None (st\<lparr>tl_head := Some u\<rparr>)) = Some st1"
        "tl_rep (free_timer t st1) ts" "info (heap (free_timer t st1)) = (info (heap st))(t := None)" .
    let ?st = "free_timer t st1"
    have same: "exp_of (heap ?st) u = exp_of (heap st) u" "info (heap ?st) u = info (heap st) u" if "u \<in> set ts" for u
      using st1(3) d(2) that by (auto simp: exp_of_info)
    have tw: "takeWhile (\<lambda>u. exp_of (heap ?st) u \<le> cur) ts = takeWhile (\<lambda>u. exp_of (heap st) u \<le> cur) ts"
      "dropWhile (\<lambda>u. exp_of (heap ?st) u \<le> cur) ts = dropWhile (\<lambda>u. exp_of (heap st) u \<le> cur) ts"
      using same(1) by (auto intro: takeWhile_cong dropWhile_cong)
    from Cons.IH [OF st1(2), unfolded tw] obtain st'
      where ih: "tick_loop cur (first ts None) ?st =
          Some (map (\<lambda>u. snd (the (info (heap ?st) u))) (takeWhile (\<lambda>u. exp_of (heap st) u \<le> cur) ts), st')"
        "tl_rep st' (dropWhile (\<lambda>u. exp_of (heap st) u \<le> cur) ts)"
        "info (heap st') = (\<lambda>u. if u \<in> set (takeWhile (\<lambda>u. exp_of (heap st) u \<le> cur) ts) then None else info (heap ?st) u)"
      by blast
    have names: "map (\<lambda>u. snd (the (info (heap ?st) u))) (takeWhile (\<lambda>u. exp_of (heap st) u \<le> cur) ts)
        = map (\<lambda>u. snd (the (info (heap st) u))) (takeWhile (\<lambda>u. exp_of (heap st) u \<le> cur) ts)"
      using same(2) by (auto dest: set_takeWhileD)
    have "tick_loop cur (Some t) st = Some (user_data nt # map (\<lambda>u. snd (the (info (heap st) u)))
        (takeWhile (\<lambda>u. exp_of (heap st) u \<le> cur) ts), st')"
      using nt False st1(1) ih(1) unfolding names by (subst tick_loop.simps) simp
    moreover have "snd (the (info (heap st) t)) = user_data nt" using nt by (simp add: info_def)
    ultimately show ?thesis using ih(2,3) st1(3) False e by (auto simp: fun_eq_iff)
  qed
qed

lemma tl_tick_fires:
  assumes "tl_rep st ts"
  shows "\<exists>st'. tl_tick cur st =
      Some (map (\<lambda>t. snd (the (info (heap st) t))) (takeWhile (\<lambda>t. exp_of (heap st) t \<le> cur) ts), st')
    \<and> tl_rep st' (dropWhile (\<lambda>t. exp_of (heap st) t \<le> cur) ts)
    \<and> info (heap st') = (\<lambda>t. if t \<in> set (takeWhile (\<lambda>t. exp_of (heap st) t \<le> cur) ts) then None else info (heap st) t)"
proof (cases ts)
  case Nil
  with assms show ?thesis by (auto simp: tl_tick_def tl_rep_def)
next
  case (Cons t us)
  with assms have "tl_head st = Some t" by (simp add: tl_rep_def)
  with tick_loop_fires [OF assms, of cur] Cons show ?thesis by (simp add: tl_tick_def)
qed

lemma destroy_loop_frees:
  assumes "dseg (heap st) p ts None" "distinct ts"
  shows "\<exists>st'. destroy_loop (first ts None) st = Some st' \<and> heap st' = (\<lambda>t. if t \<in> set ts then None else heap st t)"
  using assms
proof (induction ts arbitrary: p st)
  case Nil
  then show ?case by (subst destroy_loop.simps) simp
next
  case (Cons t ts)
  then obtain n where n: "heap st t = Some n" "t_next n = first ts None" by (auto split: option.splits)
  let ?st = "free_timer t (st\<lparr>tl_head := t_next n\<rparr>)"
  have "dseg (heap ?st) (Some t) ts None" using Cons.prems by (simp add: free_timer_def dseg_frame)
  from Cons.IH [OF this] Cons.prems(2) obtain st'
    where "destroy_loop (first ts None) ?st = Some st'" "heap st' = (\<lambda>u. if u \<in> set ts then None else heap ?st u)" by auto
  with n show ?case by (subst destroy_loop.simps) (auto simp: free_timer_def fun_eq_iff)
qed

section \<open>Specification: a list of timers ordered by expiry\<close>

datatype timer_op = OpAdd nat nat int | OpAdjust nat int | OpDel nat | OpTick int

type_synonym timer_entry = "nat \<times> int \<times> nat"

definition due :: "timer_entry \<Rightarrow> int" where
  "due x = fst (snd x)"

definition spec_insert :: "timer_entry \<Rightarrow> timer_entry list \<Rightarrow> timer_entry list" where
  "spec_insert x xs = takeWhile (\<lambda>y. due y \<le> due x) xs @ x # dropWhile (\<lambda>y. due y \<le> due x) xs"

definition spec_drop :: "nat \<Rightarrow> timer_entry list \<Rightarrow> timer_entry list" where
  "spec_drop t xs = filter (\<lambda>y. fst y \<noteq> t) xs"

text \<open>One operation of the specification: the client data of the timers that fire, and the remaining timers.\<close>

fun timer_spec :: "timer_op \<Rightarrow> timer_entry list \<Rightarrow> nat list \<times> timer_entry list" where
  "timer_spec (OpAdd t user ex) xs = ([], spec_insert (t, ex, user) xs)"
| "timer_spec (OpAdjust t ex) xs =
     ([], case map_of xs t of None \<Rightarrow> xs | Some (_, user) \<Rightarrow> spec_insert (t, ex, user) (spec_drop t xs))"
| "timer_spec (OpDel t) xs = ([], spec_drop t xs)"
| "timer_spec (OpTick cur) xs = (map (snd \<circ> snd) (filter (\<lambda>y. due y \<le> cur) xs), filter (\<lambda>y. cur < due y) xs)"

text \<open>The same operations as the event loop makes them.\<close>

fun timer_impl :: "timer_op \<Rightarrow> timer_lst \<Rightarrow> (nat list \<times> timer_lst) option" where
  "timer_impl (OpAdd t user ex) st = map_option (\<lambda>st. ([], st)) (tl_add_timer (Some t) (new_timer t user ex st))"
| "timer_impl (OpAdjust t ex) st =
     map_option (\<lambda>st. ([], st)) (Option.bind (set_expire t ex st) (tl_adjust_timer (Some t)))"
| "timer_impl (OpDel t) st = map_option (\<lambda>st. ([], st)) (tl_del_timer (Some t) st)"
| "timer_impl (OpTick cur) st = tl_tick cur st"

text \<open>What the event loop guarantees: a new timer has a fresh address, an adjusted or deleted one is in the list, and
  an expiry is only moved to a later time.\<close>

fun timer_pre :: "timer_op \<Rightarrow> timer_entry list \<Rightarrow> bool" where
  "timer_pre (OpAdd t user ex) xs = (map_of xs t = None)"
| "timer_pre (OpAdjust t ex) xs = (case map_of xs t of None \<Rightarrow> False | Some (old, _) \<Rightarrow> old \<le> ex)"
| "timer_pre (OpDel t) xs = (map_of xs t \<noteq> None)"
| "timer_pre (OpTick cur) xs = True"

text \<open>The list object represents the entries, in order, and its heap holds nothing else.\<close>

definition tl_abs :: "timer_lst \<Rightarrow> timer_entry list \<Rightarrow> bool" where
  "tl_abs st xs \<longleftrightarrow> tl_rep st (map fst xs) \<and> info (heap st) = map_of xs \<and> sorted (map due xs)"

lemma sorted_spec_insert: "sorted (map due xs) \<Longrightarrow> sorted (map due (spec_insert x xs))"
proof (induction xs)
  case (Cons a xs)
  have set: "set (spec_insert x xs) = insert x (set xs)" for xs
  proof -
    have "set (takeWhile P xs) \<union> set (dropWhile P xs) = set xs" for P by (metis set_append takeWhile_dropWhile_id)
    then show ?thesis by (auto simp: spec_insert_def)
  qed
  show ?case
  proof (cases "due a \<le> due x")
    case True
    then have "spec_insert x (a # xs) = a # spec_insert x xs" by (simp add: spec_insert_def)
    with Cons True set show ?thesis by auto
  next
    case False
    then have "spec_insert x (a # xs) = x # a # xs" by (simp add: spec_insert_def)
    with Cons False show ?thesis by auto
  qed
qed (simp add: spec_insert_def)

lemma map_of_insert_middle: "t \<notin> fst ` set ys \<Longrightarrow> map_of (ys @ (t, v) # zs) = (map_of (ys @ zs))(t \<mapsto> v)"
  by (induction ys) (auto simp: fun_eq_iff)

lemma map_of_spec_insert:
  assumes "t \<notin> fst ` set xs"
  shows "map_of (spec_insert (t, v) xs) = (map_of xs)(t \<mapsto> v)"
proof -
  let ?P = "\<lambda>y. due y \<le> due (t, v)"
  have "t \<notin> fst ` set (takeWhile ?P xs)" using assms by (auto dest: set_takeWhileD)
  from map_of_insert_middle [OF this, of v "dropWhile ?P xs"] show ?thesis by (simp add: spec_insert_def)
qed

lemma insert_timer_entries:
  assumes "\<And>y. y \<in> set xs \<Longrightarrow> e (fst y) = due y" "e t = ex"
  shows "insert_timer e t (map fst xs) = map fst (spec_insert (t, ex, u) xs)"
proof -
  have "takeWhile (\<lambda>v. e v \<le> e t) (map fst xs) = map fst (takeWhile (\<lambda>y. due y \<le> ex) xs)"
    "dropWhile (\<lambda>v. e v \<le> e t) (map fst xs) = map fst (dropWhile (\<lambda>y. due y \<le> ex) xs)"
    using assms by (auto simp: takeWhile_map dropWhile_map comp_def intro!: arg_cong [where f = "map fst"] takeWhile_cong dropWhile_cong)
  then show ?thesis by (simp add: insert_timer_def spec_insert_def due_def)
qed

lemma entry_expiry:
  assumes "info h = map_of xs" "distinct (map fst xs)" "y \<in> set xs"
  shows "exp_of h (fst y) = due y"
  using assms by (cases y) (simp add: exp_of_info due_def)

lemma spec_drop_split:
  assumes "distinct (map fst (ys @ (t, v) # zs))"
  shows "spec_drop t (ys @ (t, v) # zs) = ys @ zs"
proof -
  have "filter (\<lambda>y. fst y \<noteq> t) ys = ys" "filter (\<lambda>y. fst y \<noteq> t) zs = zs" using assms by (auto intro!: filter_True)
  then show ?thesis by (simp add: spec_drop_def)
qed

lemma spec_insert_after:
  assumes "\<And>y. y \<in> set ys \<Longrightarrow> due y \<le> due x"
  shows "spec_insert x (ys @ zs) = ys @ spec_insert x zs"
  using assms by (simp add: spec_insert_def)

lemma dseg_expire: "h t = Some n \<Longrightarrow> dseg (h(t \<mapsto> n\<lparr>expire := ex\<rparr>)) p ts q = dseg h p ts q"
  by (induction ts arbitrary: p) (auto split: option.splits)

lemma add_refines:
  assumes "tl_abs st xs" "map_of xs t = None"
  shows "\<exists>st'. tl_add_timer (Some t) (new_timer t user ex st) = Some st' \<and> tl_abs st' (spec_insert (t, ex, user) xs)"
proof -
  have a: "tl_rep st (map fst xs)" "info (heap st) = map_of xs" "sorted (map due xs)" using assms(1) by (simp_all add: tl_abs_def)
  have fresh: "t \<notin> set (map fst xs)" using assms(2) by (simp add: map_of_eq_None_iff)
  let ?st = "new_timer t user ex st"
  have rep: "tl_rep ?st (map fst xs)" using a(1) fresh by (auto simp: tl_rep_def new_timer_def dseg_frame)
  have i: "info (heap ?st) = (map_of xs)(t \<mapsto> (ex, user))" using a(2) by (auto simp: new_timer_def info_def fun_eq_iff)
  have "exp_of (heap ?st) (fst y) = due y" if "y \<in> set xs" for y
    using entry_expiry [OF a(2) _ that] a(1) i that fresh by (auto simp: tl_rep_def exp_of_info a(2))
  moreover have "exp_of (heap ?st) t = ex" by (simp add: exp_of_def new_timer_def)
  ultimately have ins: "insert_timer (exp_of (heap ?st)) t (map fst xs) = map fst (spec_insert (t, ex, user) xs)"
    by (rule insert_timer_entries)
  have "heap ?st t = Some \<lparr>expire = ex, user_data = user, t_prev = None, t_next = None\<rparr>" by (simp add: new_timer_def)
  from tl_add_timer_inserts [OF rep fresh this] ins obtain st'
    where "tl_add_timer (Some t) ?st = Some st'" "tl_rep st' (map fst (spec_insert (t, ex, user) xs))"
      "info (heap st') = info (heap ?st)" by auto
  moreover have "map_of (spec_insert (t, ex, user) xs) = (map_of xs)(t \<mapsto> (ex, user))"
    using map_of_spec_insert [of t xs] fresh by simp
  ultimately show ?thesis using i sorted_spec_insert [OF a(3)] by (auto simp: tl_abs_def)
qed

lemma adjust_refines:
  assumes "tl_abs st (ys @ (t, old, user) # zs)" "old \<le> ex"
  shows "\<exists>st'. Option.bind (set_expire t ex st) (tl_adjust_timer (Some t)) = Some st'
    \<and> tl_abs st' (spec_insert (t, ex, user) (ys @ zs))"
proof -
  let ?xs = "ys @ (t, old, user) # zs"
  have a: "tl_rep st (map fst ?xs)" "info (heap st) = map_of ?xs" "sorted (map due ?xs)" "distinct (map fst ?xs)"
    using assms(1) by (simp_all add: tl_abs_def tl_rep_def)
  obtain n where n: "heap st t = Some n" using rep_links(1) [of st "map fst ys" t "map fst zs"] a(1) by auto
  let ?h = "(heap st)(t \<mapsto> n\<lparr>expire := ex\<rparr>)"
  let ?st = "st\<lparr>heap := ?h\<rparr>"
  have not_ys: "t \<notin> fst ` set ys" using a(4) by auto
  have "info (heap st) t = Some (old, user)" unfolding a(2) map_of_insert_middle [OF not_ys] by simp
  then have "user_data n = user" using n by (simp add: info_def)
  then have i: "info ?h = (map_of (ys @ zs))(t \<mapsto> (ex, user))"
    using n a(2) [unfolded map_of_insert_middle [OF not_ys]] by (auto simp: info_def fun_eq_iff)
  have rep: "tl_rep ?st (map fst ys @ t # map fst zs)" using a(1) n by (simp add: tl_rep_def dseg_expire)
  have "exp_of ?h (fst y) = due y" if "y \<in> set zs" for y
    using i that a(4) map_of_is_SomeI [of "ys @ zs" "fst y" "snd y"] by (auto simp: exp_of_info due_def)
  moreover have "exp_of ?h t = ex" using n by (simp add: exp_of_def)
  ultimately have "insert_timer (exp_of ?h) t (map fst zs) = map fst (spec_insert (t, ex, user) zs)"
    by (rule insert_timer_entries)
  moreover have "spec_insert (t, ex, user) (ys @ zs) = ys @ spec_insert (t, ex, user) zs"
    using a(3) assms(2) by (intro spec_insert_after) (auto simp: sorted_append due_def intro: order_trans)
  ultimately obtain st' where "tl_adjust_timer (Some t) ?st = Some st'"
      "tl_rep st' (map fst (spec_insert (t, ex, user) (ys @ zs)))" "info (heap st') = info ?h"
    using tl_adjust_timer_moves [OF rep] by auto
  moreover have "set_expire t ex st = Some ?st" using n by (simp add: set_expire_def poke_def)
  moreover have "map_of (spec_insert (t, ex, user) (ys @ zs)) = (map_of (ys @ zs))(t \<mapsto> (ex, user))"
    using map_of_spec_insert [of t "ys @ zs"] a(4) by auto
  moreover have "sorted (map due (ys @ zs))" using a(3) by (auto simp: sorted_append)
  ultimately show ?thesis using i sorted_spec_insert by (auto simp: tl_abs_def)
qed

lemma del_refines:
  assumes "tl_abs st (ys @ (t, v) # zs)"
  shows "\<exists>st'. tl_del_timer (Some t) st = Some st' \<and> tl_abs st' (ys @ zs)"
proof -
  have a: "tl_rep st (map fst ys @ t # map fst zs)" "info (heap st) = map_of (ys @ (t, v) # zs)"
    "sorted (map due (ys @ (t, v) # zs))" "distinct (map fst (ys @ (t, v) # zs))"
    using assms by (simp_all add: tl_abs_def tl_rep_def)
  from a(4) have t: "t \<notin> fst ` set ys" "map_of (ys @ zs) t = None" by (auto simp: map_of_eq_None_iff)
  have "(map_of (ys @ (t, v) # zs))(t := None) = map_of (ys @ zs)"
    unfolding map_of_insert_middle [OF t(1)] fun_upd_upd using t(2) by (rule fun_upd_idem)
  with tl_del_timer_removes [OF a(1)] a(2,3) show ?thesis by (auto simp: tl_abs_def sorted_append)
qed

lemma sorted_takeWhile_filter:
  "sorted (map due xs) \<Longrightarrow> takeWhile (\<lambda>y. due y \<le> cur) xs = filter (\<lambda>y. due y \<le> cur) xs
     \<and> dropWhile (\<lambda>y. due y \<le> cur) xs = filter (\<lambda>y. cur < due y) xs"
proof (induction xs)
  case (Cons a xs)
  show ?case
  proof (cases "due a \<le> cur")
    case False
    with Cons have "filter (\<lambda>y. due y \<le> cur) xs = []" "filter (\<lambda>y. cur < due y) xs = xs"
      by (auto simp: filter_empty_conv intro!: filter_True)
    with False show ?thesis by simp
  qed (use Cons in auto)
qed simp

lemma tick_refines:
  assumes "tl_abs st xs"
  shows "\<exists>st'. tl_tick cur st = Some (map (snd \<circ> snd) (filter (\<lambda>y. due y \<le> cur) xs), st')
    \<and> tl_abs st' (filter (\<lambda>y. cur < due y) xs)"
proof -
  have a: "tl_rep st (map fst xs)" "info (heap st) = map_of xs" "sorted (map due xs)" "distinct (map fst xs)"
    using assms by (simp_all add: tl_abs_def tl_rep_def)
  let ?P = "\<lambda>t. exp_of (heap st) t \<le> cur" and ?Q = "\<lambda>y. due y \<le> cur"
  note split = sorted_takeWhile_filter [OF a(3), of cur]
  have tw: "takeWhile ?P (map fst xs) = map fst (filter ?Q xs)" "dropWhile ?P (map fst xs) = map fst (filter (\<lambda>y. cur < due y) xs)"
    using entry_expiry [OF a(2,4)] unfolding split [THEN conjunct1, symmetric] split [THEN conjunct2, symmetric]
    by (auto simp: takeWhile_map dropWhile_map comp_def intro!: arg_cong [where f = "map fst"] takeWhile_cong dropWhile_cong)
  have names: "map (\<lambda>t. snd (the (info (heap st) t))) (map fst (filter ?Q xs)) = map (snd \<circ> snd) (filter ?Q xs)"
    using a(2,4) by auto
  from tl_tick_fires [OF a(1), of cur, unfolded tw names] obtain st'
    where st': "tl_tick cur st = Some (map (snd \<circ> snd) (filter ?Q xs), st')"
      "tl_rep st' (map fst (filter (\<lambda>y. cur < due y) xs))"
      "info (heap st') = (\<lambda>t. if t \<in> set (map fst (filter ?Q xs)) then None else info (heap st) t)" by blast
  have "info (heap st') t = map_of (filter (\<lambda>y. cur < due y) xs) t" for t
  proof (cases "map_of xs t")
    case None
    then have "map_of (filter (\<lambda>y. cur < due y) xs) t = None" by (auto simp: map_of_eq_None_iff)
    with None st'(3) a(2) show ?thesis by simp
  next
    case (Some v)
    then have y: "(t, v) \<in> set xs" by (rule map_of_SomeD)
    have d: "distinct (map fst (filter (\<lambda>y. cur < due y) xs))" using a(4) by (simp add: distinct_map_filter)
    show ?thesis
    proof (cases "?Q (t, v)")
      case True
      then have "map_of (filter (\<lambda>y. cur < due y) xs) t = None"
        using y a(4) by (auto simp: map_of_eq_None_iff dest: eq_key_imp_eq_value)
      moreover have "t \<in> set (map fst (filter ?Q xs))" using y True by force
      ultimately show ?thesis using st'(3) by simp
    next
      case False
      then have "map_of (filter (\<lambda>y. cur < due y) xs) t = Some v" using y d by (intro map_of_is_SomeI) auto
      moreover have "t \<notin> set (map fst (filter ?Q xs))" using y False a(4) by (auto dest: eq_key_imp_eq_value)
      ultimately show ?thesis using st'(3) a(2) Some by simp
    qed
  qed
  moreover have "sorted (map due (filter (\<lambda>y. cur < due y) xs))" using a(3) by (rule sorted_filter)
  ultimately show ?thesis using st' by (auto simp: tl_abs_def)
qed

lemma timer_step_refines:
  assumes "tl_abs st xs" "timer_pre op xs"
  shows "\<exists>st'. timer_impl op st = Some (fst (timer_spec op xs), st') \<and> tl_abs st' (snd (timer_spec op xs))"
proof (cases op)
  case (OpAdd t user ex)
  with add_refines [OF assms(1)] assms(2) show ?thesis by fastforce
next
  case (OpAdjust t ex)
  with assms(2) obtain old user where m: "map_of xs t = Some (old, user)" "old \<le> ex" by (auto split: option.splits)
  from map_of_SomeD [OF m(1)] obtain ys zs where xs: "xs = ys @ (t, old, user) # zs" by (meson split_list)
  have "spec_drop t xs = ys @ zs" using spec_drop_split assms(1) unfolding xs tl_abs_def tl_rep_def by blast
  with adjust_refines [of st ys t old user zs ex] assms(1) m OpAdjust xs show ?thesis by fastforce
next
  case (OpDel t)
  with assms(2) obtain v where "map_of xs t = Some v" by auto
  from map_of_SomeD [OF this] obtain ys zs where xs: "xs = ys @ (t, v) # zs" by (meson split_list)
  have "spec_drop t xs = ys @ zs" using spec_drop_split assms(1) unfolding xs tl_abs_def tl_rep_def by blast
  with del_refines [of st ys t v zs] assms(1) OpDel xs show ?thesis by fastforce
next
  case (OpTick cur)
  with tick_refines [OF assms(1)] show ?thesis by fastforce
qed

section \<open>Properties\<close>

text \<open>Runs of both: the timers fired by each operation, and the final state.\<close>

fun timer_spec_run :: "timer_op list \<Rightarrow> timer_entry list \<Rightarrow> nat list list \<times> timer_entry list" where
  "timer_spec_run [] xs = ([], xs)"
| "timer_spec_run (op # ops) xs =
     (case timer_spec op xs of (fired, xs') \<Rightarrow> case timer_spec_run ops xs' of (rest, ys) \<Rightarrow> (fired # rest, ys))"

fun timer_impl_run :: "timer_op list \<Rightarrow> timer_lst \<Rightarrow> (nat list list \<times> timer_lst) option" where
  "timer_impl_run [] st = Some ([], st)"
| "timer_impl_run (op # ops) st =
     Option.bind (timer_impl op st) (\<lambda>(fired, st'). map_option (\<lambda>(rest, st''). (fired # rest, st'')) (timer_impl_run ops st'))"

fun run_pre :: "timer_op list \<Rightarrow> timer_entry list \<Rightarrow> bool" where
  "run_pre [] xs = True"
| "run_pre (op # ops) xs = (timer_pre op xs \<and> run_pre ops (snd (timer_spec op xs)))"

lemma timer_run_refines:
  "tl_abs st xs \<Longrightarrow> run_pre ops xs \<Longrightarrow>
     \<exists>st'. timer_impl_run ops st = Some (fst (timer_spec_run ops xs), st') \<and> tl_abs st' (snd (timer_spec_run ops xs))"
proof (induction ops arbitrary: st xs)
  case (Cons op ops)
  from timer_step_refines [OF Cons.prems(1), of op] Cons.prems(2) obtain st1
    where 1: "timer_impl op st = Some (fst (timer_spec op xs), st1)" "tl_abs st1 (snd (timer_spec op xs))" by auto
  from Cons.IH [OF 1(2)] Cons.prems(2) 1(1) show ?case by (fastforce split: prod.splits)
qed simp

lemma tl_abs_new: "tl_abs sort_timer_lst_new []"
  by (simp add: tl_abs_def tl_rep_def sort_timer_lst_new_def info_def fun_eq_iff)

text \<open>The destructor frees every node of the heap.\<close>

lemma tl_destroy_frees: "tl_abs st xs \<Longrightarrow> \<exists>st'. tl_destroy st = Some st' \<and> heap st' = Map.empty"
proof -
  assume a: "tl_abs st xs"
  then have rep: "dseg (heap st) None (map fst xs) None" "distinct (map fst xs)" "tl_head st = first (map fst xs) None"
    and i: "info (heap st) = map_of xs" by (simp_all add: tl_abs_def tl_rep_def)
  have "heap st t = None" if "t \<notin> set (map fst xs)" for t
  proof -
    have "info (heap st) t = None" unfolding i using that by (simp add: map_of_eq_None_iff)
    then show ?thesis by (simp add: info_def)
  qed
  with destroy_loop_frees [OF rep(1,2)] rep(3) show ?thesis by (fastforce simp: tl_destroy_def fun_eq_iff)
qed

text \<open>C24: the pointer list implements the ordered timer list. Any run of adding, postponing, deleting and
  ticking that starts with an empty list never follows a null or dangling pointer, fires exactly the timers
  that are due, in the order of their expiry, and ends with the links of the specification's list; the heap
  holds exactly its nodes, so nothing leaks.\<close>

theorem timer_list_refines:
  assumes "run_pre ops []"
  shows "\<exists>st. timer_impl_run ops sort_timer_lst_new = Some (fst (timer_spec_run ops []), st)
    \<and> tl_abs st (snd (timer_spec_run ops []))"
  using timer_run_refines [OF tl_abs_new assms] .

theorem timer_list_refines_witness:
  "\<exists>st. timer_impl_run [OpAdd 1 10 15, OpAdd 2 20 16, OpAdd 3 30 15, OpAdjust 1 18, OpTick 16] sort_timer_lst_new
     = Some ([[], [], [], [], [30, 20]], st) \<and> tl_abs st [(1, 18, 10)]"
  using timer_list_refines [of "[OpAdd 1 10 15, OpAdd 2 20 16, OpAdd 3 30 15, OpAdjust 1 18, OpTick 16]"]
  by (simp add: spec_insert_def spec_drop_def due_def)

end
