(* ===== verification/Short_Url_Cache.thy ===== *)
theory Short_Url_Cache
  imports Config Bloom_Filter Local_Cache Single_Flight
begin

text \<open>
  \<open>class ShortUrlCache\<close> and \<open>class OriginBudgetGuard\<close> of \<open>src/shorturl/short_url_cache.h\<close> and
  \<open>.cpp\<close>: the cache facade over the local cache, Redis, the Bloom filter and the single-flight table, with the
  budgets for MySQL work while Redis is down.  The build with \<open>HAVE_REDIS_PLUS_PLUS\<close> is modelled.

  The Redis client is the parameter record \<open>redis_lib\<close>: each command returns a reply or the text of the
  \<open>sw::redis::Error\<close> it throws, and changes the state \<open>'s\<close> of the server, about which nothing is
  assumed.  Whether a client object exists is the field \<open>c_redis\<close>.  The calls into \<open>MetricsRegistry\<close> are
  recorded in \<open>c_metrics\<close>, newest first.  Clock readings and random draws are arguments.
\<close>

section \<open>Redis\<close>

record redis_options =
  ro_host :: string
  ro_port :: int
  ro_connect_timeout :: int
  ro_socket_timeout :: int
  ro_pool_size :: int
  ro_wait_timeout :: int

record 's redis_lib =
  redis_make :: "redis_options \<Rightarrow> bool"
  redis_ping :: "'s \<Rightarrow> (string + unit) \<times> 's"
  redis_get :: "string \<Rightarrow> 's \<Rightarrow> (string + string option) \<times> 's"
  redis_setex :: "string \<Rightarrow> int \<Rightarrow> string \<Rightarrow> 's \<Rightarrow> (string + unit) \<times> 's"
  redis_del :: "string \<Rightarrow> 's \<Rightarrow> (string + unit) \<times> 's"

definition strip_uri_prefix :: "string \<Rightarrow> string" where
  "strip_uri_prefix uri =
     (if starts_with uri ''tcp://'' then drop 6 uri
      else if starts_with uri ''redis://'' then drop 8 uri
      else uri)"

definition fill_redis_options :: "string \<Rightarrow> redis_options \<Rightarrow> redis_options" where
  "fill_redis_options uri opts =
     (let endpoint = takeWhile (\<lambda>c. c \<noteq> CHR ''/'') (strip_uri_prefix uri)
      in if CHR '':'' \<notin> set endpoint
         then opts\<lparr>ro_host := (if endpoint = [] then ''127.0.0.1'' else endpoint)\<rparr>
         else let prt = rev (takeWhile (\<lambda>c. c \<noteq> CHR '':'') (rev endpoint));
                  colon = length endpoint - length prt - 1;
                  opts1 = opts\<lparr>ro_host := (if colon = 0 then ''127.0.0.1'' else take colon endpoint)\<rparr>
              in if prt \<noteq> [] then opts1\<lparr>ro_port := atoi prt\<rparr> else opts1)"

section \<open>State\<close>

datatype cache_status = CHit | CExpired | CMiss | CNotFound | CFiltered | CUnavailable | COverload
datatype origin_kind = Redirect | Create

record lookup_value =
  lv_long_url :: string
  lv_expire_at :: string

datatype cache_event = CacheResult string | OriginCap string bool

record 's url_cache =
  c_enabled :: bool
  c_redis_available :: bool
  c_bloom_ready :: bool
  c_bloom_hard_filter :: bool
  c_ttl_seconds :: int
  c_ttl_jitter_seconds :: int
  c_bloom_bits :: int
  c_bloom_hashes :: int
  c_probe_interval_ms :: int
  c_redirect_max :: int
  c_create_max :: int
  c_redirect_inflight :: int
  c_create_inflight :: int
  c_bloom :: bloom
  c_flight :: singleflight
  c_local :: local_cache
  c_probe_stop :: bool
  c_probe_running :: bool
  c_probe_joinable :: bool
  c_redis :: bool
  c_server :: 's
  c_metrics :: "cache_event list"

definition short_url_cache_new :: "'s \<Rightarrow> 's url_cache" where
  "short_url_cache_new server =
     \<lparr>c_enabled = False, c_redis_available = False, c_bloom_ready = False, c_bloom_hard_filter = False,
      c_ttl_seconds = 3600, c_ttl_jitter_seconds = 300, c_bloom_bits = 1048576, c_bloom_hashes = 7,
      c_probe_interval_ms = 1000, c_redirect_max = 64, c_create_max = 32, c_redirect_inflight = 0,
      c_create_inflight = 0, c_bloom = bloom_init, c_flight = singleflight_new, c_local = local_cache_new,
      c_probe_stop = False, c_probe_running = False, c_probe_joinable = False, c_redis = False,
      c_server = server, c_metrics = []\<rparr>"

definition observe :: "cache_event \<Rightarrow> 's url_cache \<Rightarrow> 's url_cache" where
  "observe e c = c\<lparr>c_metrics := e # c_metrics c\<rparr>"

section \<open>The value format\<close>

definition cache_key :: "string \<Rightarrow> string" where
  "cache_key code = ''shorturl:'' @ code"

definition encode_redis_value :: "string \<Rightarrow> string \<Rightarrow> string" where
  "encode_redis_value long_url expire_at = ''v1'' @ [CHR 0x0A] @ expire_at @ [CHR 0x0A] @ long_url"

definition decode_redis_value :: "string \<Rightarrow> (string \<times> string) option" where
  "decode_redis_value raw =
     (if \<not> starts_with raw (''v1'' @ [CHR 0x0A]) then None
      else let rest = drop 3 raw
           in if CHR 0x0A \<notin> set rest then None
              else let expire_at = takeWhile (\<lambda>c. c \<noteq> CHR 0x0A) rest
                   in Some (drop (Suc (length expire_at)) rest, expire_at))"

definition interpret_redis_payload :: "string \<Rightarrow> string \<Rightarrow> cache_status \<times> lookup_value option" where
  "interpret_redis_payload now_dt raw =
     (case decode_redis_value raw of
        None \<Rightarrow> (CMiss, None)
      | Some (long_url, expire_at) \<Rightarrow>
          (if is_business_expired now_dt expire_at then CExpired else CHit,
           Some \<lparr>lv_long_url = long_url, lv_expire_at = expire_at\<rparr>))"

section \<open>Availability and the probe thread\<close>

text \<open>The thread object is joinable while it has been started and not joined; the joins below return
  because \<open>probe_running\<close> false means that the loop has ended, and a stopped loop ends.\<close>

definition ensure_probe_started :: "'s url_cache \<Rightarrow> 's url_cache" where
  "ensure_probe_started c =
     (if \<not> c_enabled c then c
      else if c_probe_running c then c
      else c\<lparr>c_probe_running := True, c_probe_stop := False, c_probe_joinable := True\<rparr>)"

definition mark_redis_unavailable :: "'s url_cache \<Rightarrow> 's url_cache" where
  "mark_redis_unavailable c =
     (let c1 = c\<lparr>c_redis_available := False\<rparr>;
          c2 = (if c_redis_available c then observe (CacheResult ''redis_marked_down'') c1 else c1)
      in ensure_probe_started c2)"

definition restore_redis_available :: "'s url_cache \<Rightarrow> 's url_cache" where
  "restore_redis_available c = observe (CacheResult ''redis_recovered'') (c\<lparr>c_redis_available := True\<rparr>)"

text \<open>One pass of the probe loop after its wait, and the loop: \<open>waits\<close> are the changes other threads make during
  each wait; when they are used up the thread is still waiting (\<open>None\<close>).\<close>

definition probe_pass :: "'s redis_lib \<Rightarrow> 's url_cache \<Rightarrow> 's url_cache" where
  "probe_pass lib c =
     (if c_redis_available c then c
      else if \<not> c_redis c then c
      else case redis_ping lib (c_server c) of
             (Inr _, s) \<Rightarrow> restore_redis_available (c\<lparr>c_server := s\<rparr>)
           | (Inl _, s) \<Rightarrow> c\<lparr>c_server := s\<rparr>)"

fun probe_loop :: "'s redis_lib \<Rightarrow> ('s url_cache \<Rightarrow> 's url_cache) list \<Rightarrow> 's url_cache \<Rightarrow> 's url_cache option" where
  "probe_loop lib waits c =
     (if c_probe_stop c then Some (c\<lparr>c_probe_running := False\<rparr>)
      else case waits of
             [] \<Rightarrow> None
           | w # ws \<Rightarrow>
               (let c1 = w c
                in if c_probe_stop c1 then Some (c1\<lparr>c_probe_running := False\<rparr>)
                   else probe_loop lib ws (probe_pass lib c1)))"

declare probe_loop.simps [simp del]

definition cache_shutdown :: "'s url_cache \<Rightarrow> 's url_cache" where
  "cache_shutdown c = c\<lparr>c_probe_stop := True, c_probe_joinable := False, c_probe_running := False\<rparr>"

definition redis_snapshot :: "'s url_cache \<Rightarrow> bool" where
  "redis_snapshot c \<longleftrightarrow> c_redis_available c \<and> c_redis c"

section \<open>Initialisation\<close>

text \<open>The assignments of \<open>init\<close> up to the test of \<open>enabled_\<close>.\<close>

definition cache_configure :: "config \<Rightarrow> 's url_cache \<Rightarrow> 's url_cache" where
  "cache_configure cfg c =
     (let ttl = max 1 (cache_ttl_seconds cfg); jitter = max 0 (cache_ttl_jitter_seconds cfg)
      in c\<lparr>c_enabled := redis_enabled cfg,
           c_redis_available := False,
           c_bloom_ready := False,
           c_bloom_hard_filter := bloom_hard_filter cfg,
           c_ttl_seconds := ttl,
           c_ttl_jitter_seconds := jitter,
           c_bloom_bits := max 8 (bloom_bits cfg),
           c_bloom_hashes := max 1 (bloom_hashes cfg),
           c_probe_interval_ms := max 100 (redis_probe_interval_ms cfg),
           c_redirect_max := max 1 (origin_redirect_max_concurrent cfg),
           c_create_max := max 1 (origin_create_max_concurrent cfg),
           c_redirect_inflight := 0,
           c_create_inflight := 0,
           c_bloom := bloom_reset (word_of_int (max 8 (bloom_bits cfg))) (word_of_int (max 1 (bloom_hashes cfg))) (c_bloom c),
           c_probe_stop := False,
           c_local := lc_configure (nat (max 1 (local_cache_shards cfg))) (nat (max 1024 (local_positive_bytes cfg)))
                        (nat (max 1024 (local_negative_bytes cfg))) ttl jitter (max 1 (local_negative_ttl_seconds cfg)),
           c_flight := sf_configure (nat (max 1 (singleflight_max_inflight cfg)))
                         (nat (max 1 (singleflight_max_waiters_per_key cfg))) (c_flight c),
           c_redis := False\<rparr>)"

definition redis_options_of :: "config \<Rightarrow> redis_options \<Rightarrow> redis_options" where
  "redis_options_of cfg defaults =
     (fill_redis_options (redis_uri cfg) defaults)
       \<lparr>ro_connect_timeout := redis_connect_timeout_ms cfg,
        ro_socket_timeout := redis_socket_timeout_ms cfg,
        ro_pool_size := max 1 (redis_pool_size cfg),
        ro_wait_timeout := max 1 (redis_socket_timeout_ms cfg)\<rparr>"

definition cache_init :: "'s redis_lib \<Rightarrow> redis_options \<Rightarrow> config \<Rightarrow> 's url_cache \<Rightarrow> 's url_cache" where
  "cache_init lib defaults cfg c0 =
     (let c = cache_configure cfg (cache_shutdown c0)
      in if \<not> c_enabled c then c
         else if \<not> redis_make lib (redis_options_of cfg defaults) then c
         else let c1 = c\<lparr>c_redis := True\<rparr>
              in case redis_ping lib (c_server c1) of
                   (Inr _, s) \<Rightarrow> c1\<lparr>c_server := s, c_redis_available := True\<rparr>
                 | (Inl _, s) \<Rightarrow> ensure_probe_started (c1\<lparr>c_server := s, c_redis_available := False\<rparr>))"

section \<open>Lookups and updates\<close>

definition get_local :: "int \<Rightarrow> string \<Rightarrow> string \<Rightarrow> 's url_cache \<Rightarrow> (cache_status \<times> lookup_value option) \<times> 's url_cache" where
  "get_local now now_dt code c =
     (case lc_get now now_dt code (c_local c) of
        ((st, view), lc) \<Rightarrow>
          (let c1 = c\<lparr>c_local := lc\<rparr>;
               out = map_option (\<lambda>v. \<lparr>lv_long_url = v_long_url v, lv_expire_at = v_expire_at v\<rparr>) view
           in case st of
                LcHit \<Rightarrow> ((CHit, out), observe (CacheResult ''local_hit'') c1)
              | LcExpired \<Rightarrow> ((CExpired, out), observe (CacheResult ''local_expired'') c1)
              | LcNegHit \<Rightarrow> ((CNotFound, None), observe (CacheResult ''local_neg'') c1)
              | LcMiss \<Rightarrow> ((CMiss, None), observe (CacheResult ''local_miss'') c1)))"

definition get_redis ::
  "'s redis_lib \<Rightarrow> string \<Rightarrow> string \<Rightarrow> 's url_cache \<Rightarrow> (cache_status \<times> lookup_value option) \<times> 's url_cache" where
  "get_redis lib now_dt code c =
     (if \<not> c_enabled c then ((CUnavailable, None), observe (CacheResult ''redis_unavailable'') c)
      else if \<not> redis_snapshot c
      then ((CUnavailable, None), ensure_probe_started (observe (CacheResult ''redis_unavailable'') c))
      else case redis_get lib (cache_key code) (c_server c) of
             (Inl _, s) \<Rightarrow>
               ((CUnavailable, None),
                observe (CacheResult ''redis_unavailable'') (mark_redis_unavailable (c\<lparr>c_server := s\<rparr>)))
           | (Inr None, s) \<Rightarrow> ((CMiss, None), observe (CacheResult ''redis_miss'') (c\<lparr>c_server := s\<rparr>))
           | (Inr (Some raw), s) \<Rightarrow>
               (case interpret_redis_payload now_dt raw of
                  (CMiss, _) \<Rightarrow> ((CMiss, None), observe (CacheResult ''redis_undecodable'') (c\<lparr>c_server := s\<rparr>))
                | (CExpired, v) \<Rightarrow>
                    ((CExpired, v),
                     observe (CacheResult ''redis_expired'') (c\<lparr>c_server := snd (redis_del lib (cache_key code) s)\<rparr>))
                | (_, v) \<Rightarrow> ((CHit, v), observe (CacheResult ''redis_hit'') (c\<lparr>c_server := s\<rparr>))))"

definition put_local_positive :: "int \<Rightarrow> int \<Rightarrow> string \<Rightarrow> string \<Rightarrow> string \<Rightarrow> 's url_cache \<Rightarrow> 's url_cache" where
  "put_local_positive now draw code long_url expire_at c =
     c\<lparr>c_local := lc_put_positive now draw code long_url expire_at (c_local c)\<rparr>"

definition put_local_negative :: "int \<Rightarrow> string \<Rightarrow> 's url_cache \<Rightarrow> 's url_cache" where
  "put_local_negative now code c = c\<lparr>c_local := lc_put_negative now code (c_local c)\<rparr>"

definition erase_local :: "string \<Rightarrow> 's url_cache \<Rightarrow> 's url_cache" where
  "erase_local code c = c\<lparr>c_local := lc_erase code (c_local c)\<rparr>"

definition add_legal_code :: "string \<Rightarrow> 's url_cache \<Rightarrow> 's url_cache" where
  "add_legal_code code c = c\<lparr>c_bloom := bloom_add code (c_bloom c)\<rparr>"

definition cache_might_contain :: "'s url_cache \<Rightarrow> string \<Rightarrow> bool" where
  "cache_might_contain c code = bloom_might_contain (c_bloom c) code"

definition ttl_with_jitter :: "int \<Rightarrow> 's url_cache \<Rightarrow> int" where
  "ttl_with_jitter draw c = (if c_ttl_jitter_seconds c \<le> 0 then c_ttl_seconds c else c_ttl_seconds c + draw)"

definition cache_set ::
  "'s redis_lib \<Rightarrow> int \<Rightarrow> int \<Rightarrow> int \<Rightarrow> string \<Rightarrow> string \<Rightarrow> string \<Rightarrow> 's url_cache \<Rightarrow> bool \<times> 's url_cache" where
  "cache_set lib now draw ttl_draw code long_url expire_at c0 =
     (let c = put_local_positive now draw code long_url expire_at (add_legal_code code c0)
      in if \<not> c_enabled c then (False, c)
         else if \<not> redis_snapshot c then (False, ensure_probe_started c)
         else case redis_setex lib (cache_key code) (ttl_with_jitter ttl_draw c)
                     (encode_redis_value long_url expire_at) (c_server c) of
                (Inr _, s) \<Rightarrow> (True, c\<lparr>c_server := s\<rparr>)
              | (Inl _, s) \<Rightarrow> (False, mark_redis_unavailable (c\<lparr>c_server := s\<rparr>)))"

definition cache_erase :: "'s redis_lib \<Rightarrow> string \<Rightarrow> 's url_cache \<Rightarrow> bool \<times> 's url_cache" where
  "cache_erase lib code c0 =
     (let c = erase_local code c0
      in if \<not> c_enabled c then (False, c)
         else if \<not> redis_snapshot c then (False, ensure_probe_started c)
         else case redis_del lib (cache_key code) (c_server c) of
                (Inr _, s) \<Rightarrow> (True, c\<lparr>c_server := s\<rparr>)
              | (Inl _, s) \<Rightarrow> (False, mark_redis_unavailable (c\<lparr>c_server := s\<rparr>)))"

text \<open>\<open>warmup\<close>, given what \<open>list_active_codes\<close> returned (\<open>None\<close>: no connection or a failed query).\<close>

definition warmup_codes :: "string list option \<Rightarrow> 's url_cache \<Rightarrow> bool \<times> 's url_cache" where
  "warmup_codes codes c =
     (case codes of
        None \<Rightarrow> (False, c)
      | Some cs \<Rightarrow> (True, c\<lparr>c_bloom := fold bloom_add cs (c_bloom c), c_bloom_ready := True\<rparr>))"

section \<open>Origin budgets\<close>

record guard =
  g_cache :: bool
  g_kind :: origin_kind
  g_held :: bool

definition inflight_of :: "origin_kind \<Rightarrow> 's url_cache \<Rightarrow> int" where
  "inflight_of kind c = (if kind = Create then c_create_inflight c else c_redirect_inflight c)"

definition add_inflight :: "origin_kind \<Rightarrow> int \<Rightarrow> 's url_cache \<Rightarrow> 's url_cache" where
  "add_inflight kind d c =
     (if kind = Create then c\<lparr>c_create_inflight := c_create_inflight c + d\<rparr>
      else c\<lparr>c_redirect_inflight := c_redirect_inflight c + d\<rparr>)"

definition max_slots :: "origin_kind \<Rightarrow> 's url_cache \<Rightarrow> int" where
  "max_slots kind c = (if kind = Create then c_create_max c else c_redirect_max c)"

definition kind_label :: "origin_kind \<Rightarrow> string" where
  "kind_label kind = (if kind = Create then ''create'' else ''redirect'')"

text \<open>The compare-and-exchange loop ends with an exchange that succeeds on the current value, or with a value at the
  cap; either is one atomic step on the counter.\<close>

definition try_acquire_origin :: "origin_kind \<Rightarrow> 's url_cache \<Rightarrow> guard \<times> 's url_cache" where
  "try_acquire_origin kind c =
     (if c_redis_available c
      then (\<lparr>g_cache = False, g_kind = kind, g_held = False\<rparr>, observe (OriginCap (kind_label kind) True) c)
      else if inflight_of kind c < max_slots kind c
      then (\<lparr>g_cache = True, g_kind = kind, g_held = True\<rparr>,
            observe (OriginCap (kind_label kind) True) (add_inflight kind 1 c))
      else (\<lparr>g_cache = False, g_kind = kind, g_held = False\<rparr>, observe (OriginCap (kind_label kind) False) c))"

definition release_origin :: "origin_kind \<Rightarrow> 's url_cache \<Rightarrow> 's url_cache" where
  "release_origin kind c = add_inflight kind (-1) c"

text \<open>The destructor, the move constructor and the move assignment of the guard.\<close>

definition guard_destroy :: "guard \<Rightarrow> 's url_cache \<Rightarrow> 's url_cache" where
  "guard_destroy g c = (if g_held g \<and> g_cache g then release_origin (g_kind g) c else c)"

definition guard_moved :: "guard \<Rightarrow> guard" where
  "guard_moved g = g\<lparr>g_held := False, g_cache := False\<rparr>"

definition guard_assign :: "nat \<Rightarrow> nat \<Rightarrow> guard list \<Rightarrow> 's url_cache \<Rightarrow> guard list \<times> 's url_cache" where
  "guard_assign i j gs c =
     (if i = j then (gs, c)
      else (gs[i := gs ! j, j := guard_moved (gs ! j)], guard_destroy (gs ! i) c))"

text \<open>The hooks for the tests.\<close>

definition mark_redis_unavailable_for_test :: "'s url_cache \<Rightarrow> 's url_cache" where
  "mark_redis_unavailable_for_test c = c\<lparr>c_redis_available := False\<rparr>"

definition probe_restore_for_test :: "'s url_cache \<Rightarrow> bool \<times> 's url_cache" where
  "probe_restore_for_test c = (if \<not> c_redis c then (False, c) else (True, restore_redis_available c))"

definition configure_origin_caps_for_test :: "int \<Rightarrow> int \<Rightarrow> 's url_cache \<Rightarrow> 's url_cache" where
  "configure_origin_caps_for_test redirect_max create_max c =
     c\<lparr>c_redirect_max := max 1 redirect_max, c_create_max := max 1 create_max, c_redirect_inflight := 0,
       c_create_inflight := 0\<rparr>"

section \<open>What an operation leaves alone\<close>

definition budgets :: "'s url_cache \<Rightarrow> int \<times> int" where
  "budgets c = (c_redirect_inflight c, c_create_inflight c)"

lemma budgets_observe [frame_simps]: "budgets (observe e c) = budgets c" "budgets (ensure_probe_started c) = budgets c"
  "budgets (mark_redis_unavailable c) = budgets c" "budgets (c\<lparr>c_server := s\<rparr>) = budgets c"
  "budgets (c\<lparr>c_local := lc\<rparr>) = budgets c" "budgets (c\<lparr>c_flight := sf\<rparr>) = budgets c"
  by (auto simp: budgets_def observe_def ensure_probe_started_def mark_redis_unavailable_def Let_def)

lemma budgets_local [frame_simps]: "budgets (put_local_positive now draw code u e c) = budgets c"
  "budgets (put_local_negative now code c) = budgets c" "budgets (erase_local code c) = budgets c"
  "budgets (add_legal_code code c) = budgets c"
  by (simp_all add: budgets_def put_local_positive_def put_local_negative_def erase_local_def add_legal_code_def)

lemma budgets_set [frame_simps]: "budgets (snd (cache_set lib now draw td code u e c)) = budgets c"
  by (simp add: cache_set_def Let_def frame_simps split: prod.splits sum.splits)

lemma budgets_erase [frame_simps]: "budgets (snd (cache_erase lib code c)) = budgets c"
  by (simp add: cache_erase_def Let_def frame_simps split: prod.splits sum.splits)

lemma budgets_get [frame_simps]: "budgets (snd (get_local now dt code c)) = budgets c"
  "budgets (snd (get_redis lib dt code c)) = budgets c"
  by (simp_all add: get_local_def get_redis_def Let_def frame_simps
      split: prod.splits sum.splits option.splits lc_status.splits cache_status.splits)

lemma guard_returns_slot:
  assumes "try_acquire_origin kind c = (g, c1)" "budgets c2 = budgets c1"
  shows "budgets (guard_destroy g c2) = budgets c"
  using assms by (cases kind)
    (auto simp: try_acquire_origin_def guard_destroy_def release_origin_def add_inflight_def budgets_def observe_def split: if_splits)

lemma local_frame [frame_simps]:
  "c_local (observe e c) = c_local c" "c_local (ensure_probe_started c) = c_local c"
  "c_local (mark_redis_unavailable c) = c_local c" "c_local (guard_destroy g c) = c_local c"
  "c_local (snd (try_acquire_origin kind c)) = c_local c"
  "c_bloom (observe e c) = c_bloom c" "c_bloom (ensure_probe_started c) = c_bloom c"
  "c_bloom (mark_redis_unavailable c) = c_bloom c" "c_bloom (guard_destroy g c) = c_bloom c"
  "c_bloom (snd (try_acquire_origin kind c)) = c_bloom c"
  by (simp_all add: observe_def ensure_probe_started_def mark_redis_unavailable_def Let_def guard_destroy_def
      release_origin_def add_inflight_def try_acquire_origin_def)

lemma cache_set_local:
  "c_local (snd (cache_set lib now draw td code u e c)) = lc_put_positive now draw code u e (c_local c)"
  "c_bloom (snd (cache_set lib now draw td code u e c)) = bloom_add code (c_bloom c)"
  by (simp_all add: cache_set_def put_local_positive_def add_legal_code_def Let_def frame_simps split: prod.splits sum.splits)

section \<open>The budget is exact\<close>

datatype guard_op = GAcquire origin_kind | GDestroy nat | GMove nat | GAssign nat nat | GRedis bool

text \<open>The guards alive and the cache; a destroyed guard leaves the list, a moved-from one stays.\<close>

fun guard_step :: "guard_op \<Rightarrow> guard list \<times> 's url_cache \<Rightarrow> guard list \<times> 's url_cache" where
  "guard_step (GAcquire kind) (gs, c) = (case try_acquire_origin kind c of (g, c') \<Rightarrow> (gs @ [g], c'))"
| "guard_step (GDestroy i) (gs, c) =
     (if i < length gs then (take i gs @ drop (Suc i) gs, guard_destroy (gs ! i) c) else (gs, c))"
| "guard_step (GMove i) (gs, c) =
     (if i < length gs then (gs[i := guard_moved (gs ! i)] @ [gs ! i], c) else (gs, c))"
| "guard_step (GAssign i j) (gs, c) = (if i < length gs \<and> j < length gs then guard_assign i j gs c else (gs, c))"
| "guard_step (GRedis up) (gs, c) = (gs, c\<lparr>c_redis_available := up\<rparr>)"

definition slot_of :: "origin_kind \<Rightarrow> guard \<Rightarrow> int" where
  "slot_of kind g = (if g_held g \<and> g_cache g \<and> g_kind g = kind then 1 else 0)"

definition budget_ok :: "guard list \<times> 's url_cache \<Rightarrow> bool" where
  "budget_ok s \<longleftrightarrow> (\<forall>kind. inflight_of kind (snd s) = sum_list (map (slot_of kind) (fst s))
     \<and> inflight_of kind (snd s) \<le> max_slots kind (snd s)) \<and> list_all (\<lambda>g. g_held g = g_cache g) (fst s)"

lemma inflight_simps [simp]:
  "inflight_of kind (observe e c) = inflight_of kind c" "max_slots kind (observe e c) = max_slots kind c"
  "inflight_of kind (add_inflight kind' d c) = inflight_of kind c + (if kind = kind' then d else 0)"
  "max_slots kind (add_inflight kind' d c) = max_slots kind c"
  "inflight_of kind (c\<lparr>c_redis_available := up\<rparr>) = inflight_of kind c"
  "max_slots kind (c\<lparr>c_redis_available := up\<rparr>) = max_slots kind c"
  by (cases kind; cases kind'; simp add: inflight_of_def observe_def add_inflight_def max_slots_def)+

lemma guard_destroy_simps [simp]:
  "inflight_of kind (guard_destroy g c) = inflight_of kind c - slot_of kind g"
  "max_slots kind (guard_destroy g c) = max_slots kind c"
  by (simp_all add: guard_destroy_def release_origin_def slot_of_def)

lemma slot_of_moved [simp]: "slot_of kind (guard_moved g) = 0" "g_held (guard_moved g) = g_cache (guard_moved g)"
  by (simp_all add: slot_of_def guard_moved_def)

lemma slot_of_range: "0 \<le> slot_of kind g" "slot_of kind g \<le> 1"
  by (simp_all add: slot_of_def)

lemma sum_list_remove: "i < length gs \<Longrightarrow> sum_list (map f gs) = f (gs ! i) + sum_list (map f (take i gs @ drop (Suc i) gs))"
  for f :: "'a \<Rightarrow> int"
  by (subst id_take_nth_drop [of i gs]) simp_all

lemma budget_okI:
  "(\<And>kind. inflight_of kind c = sum_list (map (slot_of kind) gs)) \<Longrightarrow> (\<And>kind. inflight_of kind c \<le> max_slots kind c) \<Longrightarrow>
     list_all (\<lambda>g. g_held g = g_cache g) gs \<Longrightarrow> budget_ok (gs, c)"
  unfolding budget_ok_def fst_conv snd_conv by blast

lemma budget_okD:
  assumes "budget_ok (gs, c)"
  shows "inflight_of kind c = sum_list (map (slot_of kind) gs)" "inflight_of kind c \<le> max_slots kind c"
    "list_all (\<lambda>g. g_held g = g_cache g) gs"
  using assms unfolding budget_ok_def fst_conv snd_conv by blast+

lemma budget_ok_release:
  assumes "budget_ok (gs, c)" "list_all (\<lambda>g. g_held g = g_cache g) gs'"
    and "\<And>kind. sum_list (map (slot_of kind) gs') = sum_list (map (slot_of kind) gs) - slot_of kind g"
  shows "budget_ok (gs', guard_destroy g c)"
proof -
  have "inflight_of kind c - slot_of kind g \<le> max_slots kind c" for kind
    using assms(1) slot_of_range(1) [of kind g] unfolding budget_ok_def by (metis diff_left_mono diff_zero order_trans snd_conv)
  with assms show ?thesis by (simp add: budget_ok_def)
qed

lemma guard_step_ok: "budget_ok s \<Longrightarrow> budget_ok (guard_step op s)"
proof (cases s; cases op)
  fix gs c i assume s: "s = (gs, c)" "budget_ok s" "op = GDestroy i"
  show "budget_ok (guard_step op s)"
  proof (cases "i < length gs")
    case True
    have "list_all (\<lambda>g. g_held g = g_cache g) (take i gs @ drop (Suc i) gs)"
      using s by (auto simp: budget_ok_def list_all_iff dest: in_set_takeD in_set_dropD)
    moreover have "sum_list (map (slot_of kind) (take i gs @ drop (Suc i) gs)) = sum_list (map (slot_of kind) gs) - slot_of kind (gs ! i)" for kind
      using sum_list_remove [OF True, of "slot_of kind"] by simp
    ultimately show ?thesis using budget_ok_release [of gs c] s True by simp
  qed (use s in simp)
next
  fix gs c i assume s: "s = (gs, c)" "budget_ok s" "op = GMove i"
  show "budget_ok (guard_step op s)"
  proof (cases "i < length gs")
    case True
    have "sum_list (map (slot_of kind) (gs[i := guard_moved (gs ! i)])) + slot_of kind (gs ! i) = sum_list (map (slot_of kind) gs)" for kind
      using sum_list_map_update [OF True, of "slot_of kind" "guard_moved (gs ! i)"] by simp
    moreover have "list_all (\<lambda>g. g_held g = g_cache g) (gs[i := guard_moved (gs ! i)])" "g_held (gs ! i) = g_cache (gs ! i)"
      using s True by (auto simp: budget_ok_def list_all_length nth_list_update)
    ultimately have "budget_ok (gs[i := guard_moved (gs ! i)] @ [gs ! i], c)"
      using budget_okD [of gs c] s by (intro budget_okI) auto
    then show ?thesis using s True by simp
  qed (use s in simp)
next
  fix gs c i j assume s: "s = (gs, c)" "budget_ok s" "op = GAssign i j"
  show "budget_ok (guard_step op s)"
  proof (cases "i < length gs \<and> j < length gs \<and> i \<noteq> j")
    case True
    then have ij: "i < length gs" "j < length (gs[i := gs ! j])" "i \<noteq> j" by simp_all
    have "sum_list (map (slot_of kind) (gs[i := gs ! j, j := guard_moved (gs ! j)])) = sum_list (map (slot_of kind) gs) - slot_of kind (gs ! i)" for kind
      using sum_list_map_update [OF ij(1), of "slot_of kind" "gs ! j"]
        sum_list_map_update [OF ij(2), of "slot_of kind" "guard_moved (gs ! j)"] ij by simp
    moreover have "list_all (\<lambda>g. g_held g = g_cache g) (gs[i := gs ! j, j := guard_moved (gs ! j)])"
      using s True by (auto simp: budget_ok_def list_all_length nth_list_update)
    ultimately show ?thesis using budget_ok_release [of gs c] s True by (simp add: guard_assign_def)
  qed (use s in \<open>auto simp: guard_assign_def\<close>)
next
  fix gs c kind assume s: "s = (gs, c)" "budget_ok s" "op = GAcquire kind"
  note ok = budget_okD [OF s(2) [unfolded s(1)]]
  have "budget_ok (gs @ [fst (try_acquire_origin kind c)], snd (try_acquire_origin kind c))"
    using ok by (intro budget_okI) (auto simp: try_acquire_origin_def slot_of_def simp flip: ok(1))
  then show "budget_ok (guard_step op s)" using s by (simp add: case_prod_beta)
next
  fix gs c up assume s: "s = (gs, c)" "budget_ok s" "op = GRedis up"
  note ok = budget_okD [OF s(2) [unfolded s(1)]]
  have "budget_ok (gs, c\<lparr>c_redis_available := up\<rparr>)" using ok by (intro budget_okI) simp_all
  then show "budget_ok (guard_step op s)" using s by simp
qed

lemma guard_run_ok: "budget_ok s \<Longrightarrow> budget_ok (fold guard_step ops s)"
  by (induction ops arbitrary: s) (simp_all add: guard_step_ok)

lemma decode_redis_value_Some:
  "decode_redis_value raw = Some (u, e) \<longleftrightarrow> raw = encode_redis_value u e \<and> CHR 0x0A \<notin> set e"
proof
  assume d: "decode_redis_value raw = Some (u, e)"
  let ?rest = "drop 3 raw"
  have start: "starts_with raw (''v1'' @ [CHR 0x0A])" and nl: "CHR 0x0A \<in> set ?rest"
    and e: "e = takeWhile (\<lambda>c. c \<noteq> CHR 0x0A) ?rest" and u: "u = drop (Suc (length e)) ?rest"
    using d by (auto simp: decode_redis_value_def Let_def split: if_splits)
  have "take 3 raw = ''v1'' @ [CHR 0x0A]" using start by (simp add: starts_with_def numeral_3_eq_3)
  then have raw: "raw = (''v1'' @ [CHR 0x0A]) @ ?rest" by (metis append_take_drop_id)
  have "dropWhile (\<lambda>c. c \<noteq> CHR 0x0A) ?rest \<noteq> []" using nl by (simp add: dropWhile_eq_Nil_conv)
  with hd_dropWhile [of "\<lambda>c. c \<noteq> CHR 0x0A" ?rest] obtain t
    where t: "dropWhile (\<lambda>c. c \<noteq> CHR 0x0A) ?rest = CHR 0x0A # t"
    by (cases "dropWhile (\<lambda>c. c \<noteq> CHR 0x0A) ?rest") auto
  have rest: "?rest = e @ CHR 0x0A # t" unfolding e t [symmetric] by simp
  then have "u = t" unfolding u rest by simp
  with raw rest have "raw = encode_redis_value u e" by (simp add: encode_redis_value_def)
  moreover have "CHR 0x0A \<notin> set e" unfolding e by (auto dest: set_takeWhileD)
  ultimately show "raw = encode_redis_value u e \<and> CHR 0x0A \<notin> set e" ..
next
  assume "raw = encode_redis_value u e \<and> CHR 0x0A \<notin> set e"
  then have raw: "raw = ''v1'' @ [CHR 0x0A] @ e @ CHR 0x0A # u" and e: "CHR 0x0A \<notin> set e" by (simp_all add: encode_redis_value_def)
  have "takeWhile (\<lambda>c. c \<noteq> CHR 0x0A) (e @ CHR 0x0A # u) = e"
    using e by (intro takeWhile_dropWhile_append [THEN conjunct1]) auto
  then show "decode_redis_value raw = Some (u, e)"
    unfolding raw by (simp add: decode_redis_value_def starts_with_def)
qed

section \<open>Properties\<close>

text \<open>C37: the Redis value format. A payload decodes to a URL and an expiry exactly when it is the encoding of
  that pair and the expiry has no line end: decoding inverts encoding (the URL may hold any bytes), encoding
  is injective on such values, and nothing else is accepted.\<close>

theorem redis_value_exact:
  "decode_redis_value raw = Some (long_url, expire_at) \<longleftrightarrow>
     raw = encode_redis_value long_url expire_at \<and> CHR 0x0A \<notin> set expire_at"
  by (rule decode_redis_value_Some)

text \<open>C38: the origin budgets are exact. Whatever acquisitions, releases and moves of guards are made, and
  however Redis comes and goes, the counter of each kind is the number of guards holding a slot of that kind
  (so it is never negative) and never exceeds that kind's cap; and while Redis is down an acquisition succeeds
  exactly when its own kind has a slot left, whatever the other kind uses.\<close>

theorem origin_budget_exact:
  assumes "fold guard_step ops ([], cache_init lib opts cfg c0) = (gs, c)"
  shows "inflight_of kind c = sum_list (map (slot_of kind) gs) \<and> 0 \<le> inflight_of kind c
    \<and> inflight_of kind c \<le> max_slots kind c
    \<and> g_held (fst (try_acquire_origin kind (c\<lparr>c_redis_available := False\<rparr>))) = (sum_list (map (slot_of kind) gs) < max_slots kind c)"
proof -
  have "budget_ok ([], cache_init lib opts cfg c0)"
    by (auto simp: budget_ok_def cache_init_def cache_configure_def Let_def inflight_of_def max_slots_def
        ensure_probe_started_def split: prod.splits sum.splits)
  from guard_run_ok [OF this, of ops] assms have ok: "budget_ok (gs, c)" by simp
  have "0 \<le> sum_list (map (slot_of kind) gs)" by (rule sum_list_nonneg) (auto simp: slot_of_range)
  moreover have "g_held (fst (try_acquire_origin kind (c\<lparr>c_redis_available := False\<rparr>))) = (inflight_of kind c < max_slots kind c)"
    by (simp add: try_acquire_origin_def)
  moreover have "inflight_of kind c = sum_list (map (slot_of kind) gs)" "inflight_of kind c \<le> max_slots kind c"
    by (rule budget_okD [OF ok])+
  ultimately show ?thesis by simp
qed

definition demo_redis :: "unit redis_lib" where
  "demo_redis = \<lparr>redis_make = (\<lambda>_. True), redis_ping = (\<lambda>s. (Inl ''down'', s)), redis_get = (\<lambda>_ s. (Inr None, s)),
     redis_setex = (\<lambda>_ _ _ s. (Inr (), s)), redis_del = (\<lambda>_ s. (Inr (), s))\<rparr>"

definition demo_options :: redis_options where
  "demo_options = \<lparr>ro_host = [], ro_port = 6379, ro_connect_timeout = 0, ro_socket_timeout = 0, ro_pool_size = 1, ro_wait_timeout = 0\<rparr>"

text \<open>Two redirects with a cap of one: the second guard holds nothing.\<close>

theorem origin_budget_exact_witness:
  "case fold guard_step [GAcquire Redirect, GAcquire Redirect]
      ([], cache_init demo_redis demo_options (config_default\<lparr>origin_redirect_max_concurrent := 1\<rparr>) (short_url_cache_new ())) of
     (gs, c) \<Rightarrow> map g_held gs = [True, False] \<and> inflight_of Redirect c = sum_list (map (slot_of Redirect) gs)
       \<and> inflight_of Redirect c \<le> max_slots Redirect c"
proof -
  let ?c0 = "cache_init demo_redis demo_options (config_default\<lparr>origin_redirect_max_concurrent := 1\<rparr>) (short_url_cache_new ())"
  obtain gs c where r: "fold guard_step [GAcquire Redirect, GAcquire Redirect] ([], ?c0) = (gs, c)" by fastforce
  have "\<not> c_redis_available ?c0" "inflight_of Redirect ?c0 = 0" "max_slots Redirect ?c0 = 1"
    by (simp_all add: cache_init_def cache_configure_def demo_redis_def ensure_probe_started_def inflight_of_def max_slots_def
        config_default_def Let_def)
  with r have "map g_held gs = [True, False]"
    by (auto simp: try_acquire_origin_def observe_def add_inflight_def inflight_of_def max_slots_def)
  with origin_budget_exact [OF r, of Redirect] r show ?thesis by simp
qed

text \<open>C39: an outage of Redis is noticed, survived and ended. When a lookup (a \<open>GET\<close>) meets a failing server, the cache
  is marked unavailable with the probe thread running, and the local cache is as before; the first probe
  after the server answers \<open>PING\<close> again makes Redis available.\<close>

theorem redis_outage_recovers:
  assumes "redis_get lib (cache_key code) (c_server c) = (Inl err, s)" "c_enabled c" "redis_snapshot c" "\<not> c_probe_stop c"
    and "redis_ping lib s' = (Inr (), s'')"
  shows "let r = get_redis lib dt code c; c' = snd r; c'' = probe_pass lib (c'\<lparr>c_server := s'\<rparr>)
    in fst r = (CUnavailable, None) \<and> \<not> c_redis_available c' \<and> c_probe_running c' \<and> \<not> c_probe_stop c'
       \<and> c_local c' = c_local c \<and> c_redis_available c'' \<and> c_local c'' = c_local c"
  using assms
  by (simp add: get_redis_def mark_redis_unavailable_def ensure_probe_started_def observe_def redis_snapshot_def
      probe_pass_def restore_redis_available_def Let_def)

theorem redis_outage_recovers_witness:
  "let lib = demo_redis\<lparr>redis_get := (\<lambda>_ s. (Inl ''timeout'', s)), redis_ping := (\<lambda>s. (Inr (), s))\<rparr>;
       c = (short_url_cache_new ())\<lparr>c_enabled := True, c_redis_available := True, c_redis := True\<rparr>
   in \<not> c_redis_available (snd (get_redis lib [] ''k'' c)) \<and> c_redis_available (probe_pass lib (snd (get_redis lib [] ''k'' c)))"
proof -
  let ?lib = "demo_redis\<lparr>redis_get := (\<lambda>_ s. (Inl ''timeout'', s)), redis_ping := (\<lambda>s. (Inr (), s))\<rparr>"
  let ?c = "(short_url_cache_new ())\<lparr>c_enabled := True, c_redis_available := True, c_redis := True\<rparr>"
  have "redis_get ?lib (cache_key ''k'') (c_server ?c) = (Inl ''timeout'', ())" "c_enabled ?c" "redis_snapshot ?c" "\<not> c_probe_stop ?c"
    "redis_ping ?lib () = (Inr (), ())" by (simp_all add: redis_snapshot_def short_url_cache_new_def)
  moreover have "c\<lparr>c_server := ()\<rparr> = c" for c :: "unit url_cache" by (cases c) simp
  ultimately show ?thesis using redis_outage_recovers [of ?lib "''k''" ?c "''timeout''" "()" "()" "()" "[]"]
    unfolding Let_def by presburger
qed

end
