(* ===== verification/Repository.thy ===== *)
theory Repository
  imports Shard_Router
begin

text \<open>
  \<open>src/shorturl/short_url_repository.h\<close> and \<open>short_url_repository.cpp\<close>: the SQL statements and how their
  outcomes are read.  The MySQL client is the parameter record \<open>mysql_lib\<close> over the state \<open>'m\<close> of the
  database: \<open>my_query\<close> runs a statement and returns the error number and text or the stored result (\<open>None\<close>
  when \<open>mysql_store_result\<close> fails, with the error text), a row being a list of columns that may be NULL;
  \<open>my_escape\<close> is \<open>mysql_real_escape_string\<close>.
\<close>

record short_url_record =
  rec_id :: u64
  rec_short_code :: string
  rec_long_url :: string
  rec_expire_at :: string

datatype create_status = CreateOk | CreateDuplicate | CreateDbError
datatype find_status = FindOk | FindNotFound | FindExpired | FindDbError

datatype query_outcome = QueryError int string | StoreError string | QueryRows "string option list list"

record 'm mysql_lib =
  my_query :: "string \<Rightarrow> 'm \<Rightarrow> query_outcome \<times> 'm"
  my_escape :: "string \<Rightarrow> string"

text \<open>\<open>ER_DUP_ENTRY\<close> of \<open>mysqld_error.h\<close>.\<close>

definition ER_DUP_ENTRY :: int where
  "ER_DUP_ENTRY = 1062"

definition short_url_table_for_code :: "shard_router \<Rightarrow> string \<Rightarrow> string" where
  "short_url_table_for_code router code =
     (if \<not> enabled router then ''short_url'' else qualified_table (route_for_code router code))"

definition quote :: "'m mysql_lib \<Rightarrow> string \<Rightarrow> string" where
  "quote lib v = [CHR 0x27] @ my_escape lib v @ [CHR 0x27]"

definition insert_sql :: "'m mysql_lib \<Rightarrow> shard_router \<Rightarrow> short_url_record \<Rightarrow> string" where
  "insert_sql lib router r =
     ''INSERT INTO '' @ short_url_table_for_code router (rec_short_code r) @ '' ''
     @ ''(id, short_code, long_url, created_at, expire_at) VALUES (''
     @ to_string (uint (rec_id r)) @ '', '' @ quote lib (rec_short_code r) @ '', '' @ quote lib (rec_long_url r)
     @ '', NOW(), '' @ (if rec_expire_at r = [] then ''NULL'' else quote lib (rec_expire_at r)) @ '')''"

definition find_sql :: "'m mysql_lib \<Rightarrow> shard_router \<Rightarrow> string \<Rightarrow> string" where
  "find_sql lib router code =
     ''SELECT long_url, IF(expire_at IS NULL, '' @ [CHR 0x27, CHR 0x27] @ '', DATE_FORMAT(expire_at, ''
     @ [CHR 0x27] @ ''%Y-%m-%d %H:%i:%s'' @ [CHR 0x27] @ '')), IF(expire_at IS NOT NULL AND expire_at <= NOW(), 1, 0) AS expired FROM ''
     @ short_url_table_for_code router code @ '' WHERE short_code = '' @ quote lib code @ '' LIMIT 1''"

definition list_sql :: "string \<Rightarrow> string" where
  "list_sql table = ''SELECT short_code FROM '' @ table @ '' WHERE expire_at IS NULL OR expire_at > NOW()''"

text \<open>\<open>create\<close>: \<open>mysql\<close> is whether the connection pointer is not null.  The error text is the last component of
  the result; \<open>None\<close> leaves it as it was.\<close>

definition repo_create ::
  "'m mysql_lib \<Rightarrow> shard_router \<Rightarrow> bool \<Rightarrow> short_url_record \<Rightarrow> 'm \<Rightarrow> (create_status \<times> string option) \<times> 'm" where
  "repo_create lib router mysql r db =
     (if \<not> mysql then ((CreateDbError, Some ''mysql connection unavailable''), db)
      else case my_query lib (insert_sql lib router r) db of
             (QueryError no msg, db') \<Rightarrow>
               ((if no = ER_DUP_ENTRY then (CreateDuplicate, None) else (CreateDbError, Some msg)), db')
           | (_, db') \<Rightarrow> ((CreateOk, None), db'))"

definition column :: "string option list \<Rightarrow> nat \<Rightarrow> string" where
  "column row i = (case row ! i of None \<Rightarrow> [] | Some s \<Rightarrow> s)"

record find_result =
  f_long_url :: string
  f_expire_at :: string
  f_error :: string

definition find_long_url ::
  "'m mysql_lib \<Rightarrow> shard_router \<Rightarrow> bool \<Rightarrow> string \<Rightarrow> 'm \<Rightarrow> (find_status \<times> find_result) \<times> 'm" where
  "find_long_url lib router mysql code db =
     (let fail = (\<lambda>msg. (FindDbError, \<lparr>f_long_url = [], f_expire_at = [], f_error = msg\<rparr>))
      in if \<not> mysql then (fail ''mysql connection unavailable'', db)
         else case my_query lib (find_sql lib router code) db of
                (QueryError no msg, db') \<Rightarrow> (fail msg, db')
              | (StoreError msg, db') \<Rightarrow> (fail msg, db')
              | (QueryRows [], db') \<Rightarrow> ((FindNotFound, \<lparr>f_long_url = [], f_expire_at = [], f_error = []\<rparr>), db')
              | (QueryRows (row # _), db') \<Rightarrow>
                  ((if row ! 2 = Some ''1'' then FindExpired else FindOk,
                    \<lparr>f_long_url = column row 0, f_expire_at = column row 1, f_error = []\<rparr>), db'))"

text \<open>The loop over the tables: the codes read so far, and the error that ends it.\<close>

fun list_tables :: "'m mysql_lib \<Rightarrow> string list \<Rightarrow> string list \<Rightarrow> 'm \<Rightarrow> (string + string list) \<times> 'm" where
  "list_tables lib [] codes db = (Inr codes, db)"
| "list_tables lib (table # tables) codes db =
     (case my_query lib (list_sql table) db of
        (QueryError no msg, db') \<Rightarrow> (Inl msg, db')
      | (StoreError msg, db') \<Rightarrow> (Inl msg, db')
      | (QueryRows rows, db') \<Rightarrow>
          list_tables lib tables (codes @ concat (map (\<lambda>row. case row ! 0 of None \<Rightarrow> [] | Some s \<Rightarrow> [s]) rows)) db')"

definition list_active_codes ::
  "'m mysql_lib \<Rightarrow> shard_router \<Rightarrow> bool \<Rightarrow> 'm \<Rightarrow> (string + string list) \<times> 'm" where
  "list_active_codes lib router mysql db =
     (if \<not> mysql then (Inl ''mysql connection unavailable'', db)
      else list_tables lib (if enabled router then map qualified_table (all_routes router) else [''short_url'']) [] db)"

section \<open>Statements go to the table of their code\<close>

text \<open>The start-up scan reads the table a code is stored in.\<close>

definition scanned_tables :: "shard_router \<Rightarrow> string list" where
  "scanned_tables router = (if enabled router then map qualified_table (all_routes router) else [''short_url''])"

lemma table_scanned:
  "wf_router router \<Longrightarrow> short_url_table_for_code router code \<in> set (scanned_tables router)"
  by (simp add: short_url_table_for_code_def scanned_tables_def route_for_code_in)

lemma list_tables_collects:
  assumes "list_tables lib tables codes db = (Inr out, db')"
  shows "set codes \<subseteq> set out"
  using assms
proof (induction tables arbitrary: codes db)
  case (Cons t ts)
  obtain q db1 where q: "my_query lib (list_sql t) db = (q, db1)" by fastforce
  with Cons.prems obtain rows where rows: "q = QueryRows rows" by (cases q) auto
  from Cons.IH [of "codes @ concat (map (\<lambda>row. case row ! 0 of None \<Rightarrow> [] | Some s \<Rightarrow> [s]) rows)" db1] Cons.prems q rows
  show ?case by auto
qed simp

text \<open>When the scan succeeds it has every code that the query of some scanned table returned, if the queries leave
  the database as it is.\<close>

lemma list_tables_complete:
  assumes "list_tables lib tables codes db = (Inr out, db')" "\<And>u. snd (my_query lib (list_sql u) db) = db"
    and "t \<in> set tables" "fst (my_query lib (list_sql t) db) = QueryRows rows" "row \<in> set rows" "row ! 0 = Some code"
  shows "code \<in> set out"
  using assms(1,3)
proof (induction tables arbitrary: codes)
  case (Cons u us)
  obtain q where q: "my_query lib (list_sql u) db = (q, db)" using assms(2) [of u] by (metis prod.collapse)
  with Cons.prems obtain rows' where rows': "q = QueryRows rows'" by (cases q) auto
  let ?cs = "codes @ concat (map (\<lambda>row. case row ! 0 of None \<Rightarrow> [] | Some s \<Rightarrow> [s]) rows')"
  have step: "list_tables lib us ?cs db = (Inr out, db')" using Cons.prems(1) q rows' by simp
  show ?case
  proof (cases "t = u")
    case True
    with q rows' assms(4) have "rows' = rows" by simp
    then have "code \<in> set ?cs" using assms(5,6) by (force split: option.splits)
    with list_tables_collects [OF step] show ?thesis by blast
  next
    case False
    with Cons.IH [OF step] Cons.prems(2) show ?thesis by simp
  qed
qed simp

end
