(* ===== verification/Click_Producer.thy ===== *)
theory Click_Producer
  imports Config Http_Message Base62 Snowflake Bounded_Fifo
begin

text \<open>
  \<open>src/analytics/click_event_producer.h\<close> and \<open>click_event_producer.cpp\<close>: the bounded queue of click events
  between the request threads and the thread that sends them to Kafka.  The build with \<open>HAVE_RDKAFKA\<close> is
  modelled; librdkafka is the parameter record \<open>kafka_lib\<close> over its state \<open>'k\<close>.  Polling reports
  deliveries: each report is the call of \<open>delivery_report_cb\<close> with or without an error.  The calls into
  \<open>MetricsRegistry\<close> are recorded in \<open>k_metrics\<close>, newest first.
\<close>

section \<open>State\<close>

record click_event =
  ev_code :: string
  ev_user_agent :: string
  ev_referer :: string
  ev_x_forwarded_for :: string
  ev_event_id :: string
  ev_clicked_at_ms :: int

datatype kafka_event = KEnqueue bool | KProduceAccepted bool | KDelivery bool

record 'k kafka_lib =
  kafka_conf_set :: "string \<Rightarrow> string \<Rightarrow> bool"
  kafka_new :: "'k \<Rightarrow> bool \<times> 'k"
  kafka_producev :: "string \<Rightarrow> string \<Rightarrow> string \<Rightarrow> 'k \<Rightarrow> bool \<times> 'k"
  kafka_poll :: "int \<Rightarrow> 'k \<Rightarrow> bool list \<times> 'k"
  kafka_flush :: "int \<Rightarrow> 'k \<Rightarrow> bool list \<times> 'k"
  kafka_destroy :: "'k \<Rightarrow> 'k"

record 'k click_producer =
  k_enabled :: bool
  k_available :: bool
  k_null_sink :: bool
  k_topic :: string
  k_max_queue :: nat
  k_shutdown_timeout_ms :: int
  k_queue :: "click_event list"
  k_accepting :: bool
  k_stop :: bool
  k_worker :: bool
  k_producer :: bool
  k_state :: 'k
  k_metrics :: "kafka_event list"

definition click_producer_new :: "'k \<Rightarrow> 'k click_producer" where
  "click_producer_new s =
     \<lparr>k_enabled = False, k_available = False, k_null_sink = False, k_topic = [], k_max_queue = 8192,
      k_shutdown_timeout_ms = 2000, k_queue = [], k_accepting = False, k_stop = True, k_worker = False,
      k_producer = False, k_state = s, k_metrics = []\<rparr>"

definition k_observe :: "kafka_event list \<Rightarrow> 'k click_producer \<Rightarrow> 'k click_producer" where
  "k_observe es p = p\<lparr>k_metrics := rev es @ k_metrics p\<rparr>"

section \<open>The request path\<close>

definition enqueue_event :: "click_event \<Rightarrow> 'k click_producer \<Rightarrow> bool \<times> 'k click_producer" where
  "enqueue_event ev p =
     (if \<not> k_accepting p \<or> length (k_queue p) \<ge> k_max_queue p then (False, p)
      else (True, p\<lparr>k_queue := k_queue p @ [ev]\<rparr>))"

definition click_of :: "int \<Rightarrow> http_request \<Rightarrow> string \<Rightarrow> click_event" where
  "click_of now_ms req code =
     \<lparr>ev_code = code, ev_user_agent = header_or_empty req ''User-Agent'', ev_referer = header_or_empty req ''Referer'',
      ev_x_forwarded_for = header_or_empty req ''X-Forwarded-For'', ev_event_id = [], ev_clicked_at_ms = now_ms\<rparr>"

text \<open>The two parts of \<open>publish_click\<close>: up to the end of \<open>enqueue\<close> (no answer when the producer is disabled), and the
  call into the metrics, which runs after the lock is released.  \<open>publish_click\<close> is both in one thread.\<close>

definition publish_enqueue ::
  "int \<Rightarrow> http_request \<Rightarrow> string \<Rightarrow> 'k click_producer \<Rightarrow> bool option \<times> 'k click_producer" where
  "publish_enqueue now_ms req code p =
     (if \<not> k_enabled p then (None, p)
      else if \<not> k_accepting p then (Some False, p)
      else case enqueue_event (click_of now_ms req code) p of (ok, p') \<Rightarrow> (Some ok, p'))"

definition publish_report :: "bool \<Rightarrow> 'k click_producer \<Rightarrow> 'k click_producer" where
  "publish_report ok p = k_observe [KEnqueue ok] p"

definition publish_click :: "int \<Rightarrow> http_request \<Rightarrow> string \<Rightarrow> 'k click_producer \<Rightarrow> bool \<times> 'k click_producer" where
  "publish_click now_ms req code p =
     (case publish_enqueue now_ms req code p of
        (None, p') \<Rightarrow> (False, p')
      | (Some ok, p') \<Rightarrow> (ok, publish_report ok p'))"

section \<open>The worker\<close>

text \<open>\<open>next_event_id\<close> with its own generator.\<close>

definition next_event_id ::
  "clock \<Rightarrow> u64 \<Rightarrow> snowflake \<Rightarrow> nat \<Rightarrow> ((exn + string) \<times> snowflake \<times> nat) option" where
  "next_event_id clk worker g k =
     map_option (\<lambda>(r, g', k'). (case r of Inl e \<Rightarrow> Inl e | Inr i \<Rightarrow> Inr (base62_encode i), g', k'))
       (next_id clk worker g k)"

definition build_event_json :: "json_lib \<Rightarrow> click_event \<Rightarrow> exn + string" where
  "build_event_json lib ev =
     json_dump lib (JObj [(''event_id'', JStr (ev_event_id ev)), (''short_code'', JStr (ev_code ev)),
       (''clicked_at_ms'', JInt (ev_clicked_at_ms ev)), (''user_agent'', JStr (ev_user_agent ev)),
       (''referer'', JStr (ev_referer ev)), (''x_forwarded_for'', JStr (ev_x_forwarded_for ev))])"

definition delivery_reports :: "bool list \<times> 'k \<Rightarrow> 'k click_producer \<Rightarrow> 'k click_producer" where
  "delivery_reports r p = k_observe (map KDelivery (fst r)) (p\<lparr>k_state := snd r\<rparr>)"

definition poll_if_producer :: "'k kafka_lib \<Rightarrow> int \<Rightarrow> 'k click_producer \<Rightarrow> 'k click_producer" where
  "poll_if_producer kl timeout p = (if k_producer p then delivery_reports (kafka_poll kl timeout (k_state p)) p else p)"

text \<open>\<open>worker_loop\<close> in the sections between which other threads run.  An event that was taken is in neither the
  queue nor the counters until it is handed over and reported.  An exception of \<open>next_event_id\<close> or of the JSON library leaves the
  thread function, which ends the process.\<close>

datatype produce_outcome = ToSink | NoProducer | Produced bool

datatype click_pc =
    WtLoop
  | WtIdlePoll
  | WtTaken click_event
  | WtMinted click_event
  | WtReport produce_outcome
  | WtPoll
  | WtFinalPoll
  | WtLeft
  | WtThrew exn click_event

definition take_event :: "'k click_producer \<Rightarrow> (click_event \<times> 'k click_producer) option" where
  "take_event p = (case k_queue p of [] \<Rightarrow> None | ev # q \<Rightarrow> Some (ev, p\<lparr>k_queue := q\<rparr>))"

definition worker_take :: "'k click_producer \<Rightarrow> click_pc \<times> 'k click_producer" where
  "worker_take p =
     (case take_event p of
        None \<Rightarrow> (if k_stop p then WtFinalPoll else WtIdlePoll, p)
      | Some (ev, p') \<Rightarrow> (WtTaken ev, p'))"

text \<open>\<open>minted\<close> is what \<open>next_event_id\<close> returns.\<close>

definition worker_mint :: "exn + string \<Rightarrow> click_event \<Rightarrow> click_pc" where
  "worker_mint minted ev =
     (case (if ev_event_id ev = [] then minted else Inr (ev_event_id ev)) of
        Inl e \<Rightarrow> WtThrew e ev
      | Inr i \<Rightarrow> WtMinted (ev\<lparr>ev_event_id := i\<rparr>))"

definition worker_produce ::
  "'k kafka_lib \<Rightarrow> json_lib \<Rightarrow> click_event \<Rightarrow> 'k click_producer \<Rightarrow> click_pc \<times> 'k click_producer" where
  "worker_produce kl jl ev p =
     (if k_null_sink p then (WtReport ToSink, p)
      else if \<not> k_producer p then (WtReport NoProducer, p)
      else case build_event_json jl ev of
             Inl e \<Rightarrow> (WtThrew e ev, p)
           | Inr payload \<Rightarrow>
               (case kafka_producev kl (k_topic p) (ev_code ev) payload (k_state p) of
                  (ok, s) \<Rightarrow> (WtReport (Produced ok), p\<lparr>k_state := s\<rparr>)))"

definition worker_report :: "produce_outcome \<Rightarrow> 'k click_producer \<Rightarrow> click_pc \<times> 'k click_producer" where
  "worker_report out p =
     (case out of
        ToSink \<Rightarrow> (WtLoop, k_observe [KProduceAccepted True, KDelivery True] p)
      | NoProducer \<Rightarrow> (WtLoop, k_observe [KProduceAccepted False] p)
      | Produced ok \<Rightarrow> (WtPoll, k_observe [KProduceAccepted ok] p))"

fun click_section ::
  "'k kafka_lib \<Rightarrow> json_lib \<Rightarrow> exn + string \<Rightarrow> click_pc \<times> 'k click_producer \<Rightarrow> click_pc \<times> 'k click_producer" where
  "click_section kl jl minted (WtLoop, p) = worker_take p"
| "click_section kl jl minted (WtIdlePoll, p) = (WtLoop, poll_if_producer kl 50 p)"
| "click_section kl jl minted (WtTaken ev, p) = (worker_mint minted ev, p)"
| "click_section kl jl minted (WtMinted ev, p) = worker_produce kl jl ev p"
| "click_section kl jl minted (WtReport out, p) = worker_report out p"
| "click_section kl jl minted (WtPoll, p) = (WtLoop, delivery_reports (kafka_poll kl 10 (k_state p)) p)"
| "click_section kl jl minted (WtFinalPoll, p) = (WtLeft, poll_if_producer kl 0 p)"
| "click_section kl jl minted (WtLeft, p) = (WtLeft, p)"
| "click_section kl jl minted (WtThrew e ev, p) = (WtThrew e ev, p)"

datatype worker_result = WorkerLeft | WorkerContinues | WorkerThrew exn

text \<open>One whole turn of the loop: at most five sections, after which the worker is at the head of the loop again, has
  left or has thrown (\<open>turn_complete\<close>).\<close>

definition turn_end :: "'k kafka_lib \<Rightarrow> json_lib \<Rightarrow> exn + string \<Rightarrow> 'k click_producer \<Rightarrow> click_pc \<times> 'k click_producer" where
  "turn_end kl jl minted p =
     (case click_section kl jl minted (WtLoop, p) of
        (WtTaken ev, p1) \<Rightarrow>
          (case click_section kl jl minted (WtTaken ev, p1) of
             (WtMinted ev', p2) \<Rightarrow>
               (case click_section kl jl minted (WtMinted ev', p2) of
                  (WtReport out, p3) \<Rightarrow>
                    (case click_section kl jl minted (WtReport out, p3) of
                       (WtPoll, p4) \<Rightarrow> click_section kl jl minted (WtPoll, p4)
                     | r \<Rightarrow> r)
                | r \<Rightarrow> r)
           | r \<Rightarrow> r)
      | r \<Rightarrow> click_section kl jl minted r)"

definition click_worker_turn ::
  "'k kafka_lib \<Rightarrow> json_lib \<Rightarrow> exn + string \<Rightarrow> 'k click_producer \<Rightarrow> worker_result \<times> 'k click_producer" where
  "click_worker_turn kl jl minted p =
     (case turn_end kl jl minted p of
        (WtLeft, p') \<Rightarrow> (WorkerLeft, p')
      | (WtThrew e ev, p') \<Rightarrow> (WorkerThrew e, p')
      | (_, p') \<Rightarrow> (WorkerContinues, p'))"

text \<open>The worker until it leaves, as \<open>join\<close> waits for it; \<open>ids\<close> are the minted identifiers, and \<open>None\<close> is a thread
  that has not left after them.\<close>

fun click_worker_run ::
  "'k kafka_lib \<Rightarrow> json_lib \<Rightarrow> (exn + string) list \<Rightarrow> 'k click_producer \<Rightarrow> ((exn + unit) \<times> 'k click_producer) option" where
  "click_worker_run kl jl [] p = None"
| "click_worker_run kl jl (i # ids) p =
     (case click_worker_turn kl jl i p of
        (WorkerLeft, p') \<Rightarrow> Some (Inr (), p')
      | (WorkerThrew e, p') \<Rightarrow> Some (Inl e, p')
      | (WorkerContinues, p') \<Rightarrow> click_worker_run kl jl ids p')"

section \<open>Start and stop\<close>

definition kafka_settings :: "config \<Rightarrow> (string \<times> string) list" where
  "kafka_settings cfg =
     [(''bootstrap.servers'', kafka_brokers cfg), (''acks'', ''all''), (''enable.idempotence'', ''true''),
      (''retries'', to_string (kafka_retries cfg)), (''message.timeout.ms'', to_string (kafka_message_timeout_ms cfg)),
      (''linger.ms'', to_string (kafka_linger_ms cfg))]"

text \<open>\<open>shutdown\<close> after the worker has been joined (\<open>joined\<close> is the state it left, when there was one).\<close>

definition stop_accepting :: "'k click_producer \<Rightarrow> 'k click_producer" where
  "stop_accepting p = p\<lparr>k_accepting := False, k_stop := True\<rparr>"

definition after_join :: "'k kafka_lib \<Rightarrow> int \<Rightarrow> 'k click_producer \<Rightarrow> 'k click_producer" where
  "after_join kl timeout_ms p0 =
     (let p = p0\<lparr>k_worker := False\<rparr>;
          p1 = (if k_producer p
                then (let q = delivery_reports (kafka_flush kl (max 0 timeout_ms) (k_state p)) p
                      in q\<lparr>k_state := kafka_destroy kl (k_state q), k_producer := False\<rparr>)
                else p);
          p2 = k_observe (map (\<lambda>_. KEnqueue False) (k_queue p1)) (p1\<lparr>k_queue := []\<rparr>)
      in p2\<lparr>k_available := False\<rparr>)"

definition producer_shutdown ::
  "'k kafka_lib \<Rightarrow> json_lib \<Rightarrow> (exn + string) list \<Rightarrow> int \<Rightarrow> 'k click_producer \<Rightarrow> ((exn + unit) \<times> 'k click_producer) option" where
  "producer_shutdown kl jl ids timeout_ms p0 =
     (let p = stop_accepting p0
      in if \<not> k_worker p then Some (Inr (), after_join kl timeout_ms p)
         else case click_worker_run kl jl ids p of
                None \<Rightarrow> None
              | Some (Inl e, p') \<Rightarrow> Some (Inl e, p')
              | Some (Inr _, p') \<Rightarrow> Some (Inr (), after_join kl timeout_ms p'))"

text \<open>\<open>init\<close> after the \<open>shutdown\<close> it begins with.\<close>

definition producer_init :: "'k kafka_lib \<Rightarrow> config \<Rightarrow> 'k click_producer \<Rightarrow> 'k click_producer" where
  "producer_init kl cfg p0 =
     (let p = p0\<lparr>k_enabled := kafka_enabled cfg, k_available := False, k_null_sink := False,
                 k_topic := kafka_click_topic cfg, k_max_queue := nat (max 1 (kafka_queue_size cfg)),
                 k_shutdown_timeout_ms := max 0 (kafka_shutdown_timeout_ms cfg), k_stop := False, k_accepting := False\<rparr>
      in if \<not> k_enabled p then p
         else if \<not> list_all (\<lambda>(key, v). kafka_conf_set kl key v) (kafka_settings cfg) then p
         else case kafka_new kl (k_state p) of
                (False, s) \<Rightarrow> p\<lparr>k_state := s\<rparr>
              | (True, s) \<Rightarrow> p\<lparr>k_state := s, k_producer := True, k_available := True, k_accepting := True,
                               k_stop := False, k_worker := True\<rparr>)"

text \<open>\<open>init_for_test\<close> after its \<open>shutdown\<close>.\<close>

definition producer_init_for_test :: "'k kafka_lib \<Rightarrow> nat \<Rightarrow> bool \<Rightarrow> bool \<Rightarrow> 'k click_producer \<Rightarrow> 'k click_producer" where
  "producer_init_for_test kl queue_size null_sink start_worker p =
     p\<lparr>k_enabled := True, k_available := True, k_null_sink := null_sink, k_topic := ''test.clicks'',
       k_max_queue := max 1 queue_size, k_shutdown_timeout_ms := 500,
       k_state := (if k_producer p then kafka_destroy kl (k_state p) else k_state p), k_producer := False,
       k_queue := [], k_stop := \<not> start_worker, k_accepting := True, k_worker := start_worker\<rparr>"

section \<open>The queue contract\<close>

interpretation kq: bounded_fifo enqueue_event take_event k_queue k_max_queue k_accepting "\<lambda>_. True"
  by unfold_locales (auto simp: enqueue_event_def take_event_def)

section \<open>Accounting\<close>

text \<open>The producer among its threads: the section the worker is in, how many request threads have left \<open>enqueue\<close> and
  have not yet reported its answer, and the history of the clicks the queue accepted, of the number it refused and
  of the events handed over, with what came of it.\<close>

record 'k click_sys =
  cs_prod :: "'k click_producer"
  cs_pc :: click_pc
  cs_reporting :: "bool \<Rightarrow> nat"
  cs_accepted :: "click_event list"
  cs_refused :: nat
  cs_handed :: "(click_event \<times> bool) list"

datatype click_op = Publish int http_request string | Report bool | WorkerSection "exn + string" | StopAccepting

fun accepted_by :: "produce_outcome \<Rightarrow> bool" where
  "accepted_by ToSink = True"
| "accepted_by NoProducer = False"
| "accepted_by (Produced ok) = ok"

fun handed_over :: "click_pc \<Rightarrow> click_pc \<Rightarrow> (click_event \<times> bool) list" where
  "handed_over (WtMinted ev) (WtReport out) = [(ev, accepted_by out)]"
| "handed_over _ _ = []"

definition after_publish :: "click_event \<Rightarrow> bool option \<times> 'k click_producer \<Rightarrow> 'k click_sys \<Rightarrow> 'k click_sys" where
  "after_publish ev r cs =
     (case fst r of
        None \<Rightarrow> cs\<lparr>cs_prod := snd r\<rparr>
      | Some ok \<Rightarrow> cs\<lparr>cs_prod := snd r, cs_reporting := (cs_reporting cs)(ok := cs_reporting cs ok + 1),
                      cs_accepted := cs_accepted cs @ (if ok then [ev] else []),
                      cs_refused := cs_refused cs + (if ok then 0 else 1)\<rparr>)"

definition after_section :: "click_pc \<times> 'k click_producer \<Rightarrow> 'k click_sys \<Rightarrow> 'k click_sys" where
  "after_section r cs =
     cs\<lparr>cs_prod := snd r, cs_pc := fst r, cs_handed := cs_handed cs @ handed_over (cs_pc cs) (fst r)\<rparr>"

fun process_ended :: "click_pc \<Rightarrow> bool" where
  "process_ended (WtThrew e ev) = True"
| "process_ended _ = False"

text \<open>One step of the system.  After an exception of the worker the process has ended and nothing steps.\<close>

definition click_step :: "'k kafka_lib \<Rightarrow> json_lib \<Rightarrow> click_op \<Rightarrow> 'k click_sys \<Rightarrow> 'k click_sys" where
  "click_step kl jl op cs =
     (if process_ended (cs_pc cs) then cs
      else case op of
        Publish now req code \<Rightarrow> after_publish (click_of now req code) (publish_enqueue now req code (cs_prod cs)) cs
      | Report ok \<Rightarrow>
          if cs_reporting cs ok = 0 then cs
          else cs\<lparr>cs_prod := publish_report ok (cs_prod cs), cs_reporting := (cs_reporting cs)(ok := cs_reporting cs ok - 1)\<rparr>
      | WorkerSection minted \<Rightarrow>
          if k_worker (cs_prod cs) then after_section (click_section kl jl minted (cs_pc cs, cs_prod cs)) cs else cs
      | StopAccepting \<Rightarrow> cs\<lparr>cs_prod := stop_accepting (cs_prod cs)\<rparr>)"

definition click_start :: "'k click_producer \<Rightarrow> 'k click_sys" where
  "click_start p = \<lparr>cs_prod = p, cs_pc = WtLoop, cs_reporting = (\<lambda>_. 0), cs_accepted = [], cs_refused = 0, cs_handed = []\<rparr>"

definition counted :: "kafka_event \<Rightarrow> 'k click_producer \<Rightarrow> nat" where
  "counted e p = count_list (k_metrics p) e"

text \<open>An event as it was accepted, before its identifier was minted; the event the worker has taken; and whether it has
  still to report an outcome.\<close>

definition unminted :: "click_event \<Rightarrow> click_event" where
  "unminted ev = ev\<lparr>ev_event_id := []\<rparr>"

fun in_hand :: "click_pc \<Rightarrow> click_event list" where
  "in_hand (WtTaken ev) = [ev]"
| "in_hand (WtMinted ev) = [ev]"
| "in_hand (WtThrew e ev) = [ev]"
| "in_hand _ = []"

fun to_report :: "click_pc \<Rightarrow> bool \<Rightarrow> nat" where
  "to_report (WtReport out) b = (if accepted_by out = b then 1 else 0)"
| "to_report _ b = 0"

definition handed_count :: "bool \<Rightarrow> 'k click_sys \<Rightarrow> nat" where
  "handed_count b cs = length (filter (\<lambda>h. snd h = b) (cs_handed cs))"

lemma counted_observe [simp]: "counted e (k_observe es p) = count_list es e + counted e p"
  by (simp add: counted_def k_observe_def count_list_append count_list_rev)

lemma counted_frame [simp]:
  "counted e (p\<lparr>k_state := s\<rparr>) = counted e p" "counted e (p\<lparr>k_queue := q\<rparr>) = counted e p"
  "counted e (p\<lparr>k_accepting := a\<rparr>) = counted e p" "counted e (p\<lparr>k_stop := a\<rparr>) = counted e p"
  by (simp_all add: counted_def)

lemma k_observe_frame [simp]:
  "k_queue (k_observe es p) = k_queue p" "k_max_queue (k_observe es p) = k_max_queue p"
  by (simp_all add: k_observe_def)

lemma counted_reports [simp]:
  "counted (KEnqueue b) (delivery_reports r p) = counted (KEnqueue b) p"
  "counted (KProduceAccepted b) (delivery_reports r p) = counted (KProduceAccepted b) p"
  "k_queue (delivery_reports r p) = k_queue p" "k_max_queue (delivery_reports r p) = k_max_queue p"
  by (auto simp: delivery_reports_def count_list_0_iff)

lemma poll_frame [simp]:
  "counted (KEnqueue b) (poll_if_producer kl t p) = counted (KEnqueue b) p"
  "counted (KProduceAccepted b) (poll_if_producer kl t p) = counted (KProduceAccepted b) p"
  "k_queue (poll_if_producer kl t p) = k_queue p" "k_max_queue (poll_if_producer kl t p) = k_max_queue p"
  by (simp_all add: poll_if_producer_def)

text \<open>The invariant: the order of the clicks, the bound, and the four counters.\<close>

definition clicks_in_order :: "'k click_sys \<Rightarrow> bool" where
  "clicks_in_order cs \<longleftrightarrow>
     cs_accepted cs = map (unminted \<circ> fst) (cs_handed cs) @ map unminted (in_hand (cs_pc cs)) @ k_queue (cs_prod cs)"

definition clicks_counted :: "'k click_sys \<Rightarrow> bool" where
  "clicks_counted cs \<longleftrightarrow>
     counted (KEnqueue True) (cs_prod cs) + cs_reporting cs True = length (cs_accepted cs)
     \<and> counted (KEnqueue False) (cs_prod cs) + cs_reporting cs False = cs_refused cs
     \<and> counted (KProduceAccepted True) (cs_prod cs) + to_report (cs_pc cs) True = handed_count True cs
     \<and> counted (KProduceAccepted False) (cs_prod cs) + to_report (cs_pc cs) False = handed_count False cs"

definition click_ok :: "'k click_sys \<Rightarrow> bool" where
  "click_ok cs \<longleftrightarrow> clicks_in_order cs \<and> clicks_counted cs \<and> length (k_queue (cs_prod cs)) \<le> k_max_queue (cs_prod cs)
     \<and> (\<forall>ev \<in> set (k_queue (cs_prod cs)). ev_event_id ev = [])"

lemmas click_ok_defs = click_ok_def clicks_in_order_def clicks_counted_def handed_count_def

lemma after_publish_ok:
  assumes "click_ok cs"
  shows "click_ok (after_publish (click_of now req code) (publish_enqueue now req code (cs_prod cs)) cs)"
  using assms
  by (auto simp: after_publish_def publish_enqueue_def enqueue_event_def click_ok_defs click_of_def)

lemma report_ok:
  assumes "click_ok cs" "cs_reporting cs ok \<noteq> 0"
  shows "click_ok (cs\<lparr>cs_prod := publish_report ok (cs_prod cs), cs_reporting := (cs_reporting cs)(ok := cs_reporting cs ok - 1)\<rparr>)"
  using assms by (cases ok) (auto simp: publish_report_def click_ok_defs)

lemma unminted_id [simp]: "ev_event_id ev = [] \<Longrightarrow> unminted ev = ev" "unminted (ev\<lparr>ev_event_id := i\<rparr>) = unminted ev"
  by (simp_all add: unminted_def)

lemma click_section_ok:
  assumes "click_ok cs"
  shows "click_ok (after_section (click_section kl jl minted (cs_pc cs, cs_prod cs)) cs)"
proof (cases "cs_pc cs")
  case WtLoop
  with assms show ?thesis
    by (cases "k_queue (cs_prod cs)") (auto simp: after_section_def worker_take_def take_event_def click_ok_defs)
next
  case (WtTaken ev)
  with assms show ?thesis
    by (cases "if ev_event_id ev = [] then minted else Inr (ev_event_id ev)")
      (auto simp: after_section_def worker_mint_def click_ok_defs)
next
  case (WtMinted ev)
  with assms show ?thesis
    by (auto simp: after_section_def worker_produce_def click_ok_defs split: sum.splits prod.splits)
next
  case (WtReport out)
  with assms show ?thesis by (cases out) (auto simp: after_section_def worker_report_def click_ok_defs)
qed (use assms in \<open>auto simp: after_section_def click_ok_defs\<close>)

lemma click_step_ok:
  assumes "click_ok cs"
  shows "click_ok (click_step kl jl op cs)"
proof (cases op)
  case StopAccepting
  with assms show ?thesis by (auto simp: click_step_def stop_accepting_def click_ok_defs)
qed (use assms after_publish_ok report_ok click_section_ok in \<open>auto simp: click_step_def simp del: click_section.simps\<close>)

lemma click_run_ok: "click_ok cs \<Longrightarrow> click_ok (fold (click_step kl jl) ops cs)"
  by (induction ops arbitrary: cs) (simp_all add: click_step_ok)

lemma producer_init_frame [simp]:
  "k_queue (producer_init kl cfg p) = k_queue p" "k_metrics (producer_init kl cfg p) = k_metrics p"
  by (auto simp: producer_init_def Let_def split: prod.splits bool.splits)

text \<open>A turn of the worker is a run of its sections.\<close>

lemma turn_complete:
  "\<exists>n. ((click_section kl jl minted) ^^ n) (WtLoop, p) = turn_end kl jl minted p
     \<and> (fst (turn_end kl jl minted p) \<in> {WtLoop, WtLeft} \<or> process_ended (fst (turn_end kl jl minted p)))"
proof -
  let ?f = "click_section kl jl minted"
  show ?thesis
  proof (cases "k_queue p")
    case Nil
    then have "(?f ^^ 2) (WtLoop, p) = turn_end kl jl minted p" "fst (turn_end kl jl minted p) \<in> {WtLoop, WtLeft}"
      by (simp_all add: turn_end_def worker_take_def take_event_def numeral_2_eq_2)
    then show ?thesis by blast
  next
    case (Cons ev q)
    let ?p = "p\<lparr>k_queue := q\<rparr>"
    have 1: "?f (WtLoop, p) = (WtTaken ev, ?p)" using Cons by (simp add: worker_take_def take_event_def)
    show ?thesis
    proof (cases "worker_mint minted ev")
      case (WtThrew e ev')
      with 1 have "(?f ^^ 2) (WtLoop, p) = turn_end kl jl minted p" "process_ended (fst (turn_end kl jl minted p))"
        by (simp_all add: turn_end_def numeral_2_eq_2 del: click_section.simps(1))
      then show ?thesis by blast
    next
      case (WtMinted ev')
      obtain pc p3 where 3: "worker_produce kl jl ev' ?p = (pc, p3)" by fastforce
      then consider (threw) e where "pc = WtThrew e ev'" | (out) out where "pc = WtReport out"
        by (auto simp: worker_produce_def split: if_splits sum.splits prod.splits)
      then show ?thesis
      proof cases
        case threw
        with 1 WtMinted 3 have "(?f ^^ 3) (WtLoop, p) = turn_end kl jl minted p" "process_ended (fst (turn_end kl jl minted p))"
          by (simp_all add: turn_end_def numeral_3_eq_3 del: click_section.simps(1))
        then show ?thesis by blast
      next
        case out
        have "(?f ^^ (if \<exists>ok. out = Produced ok then 5 else 4)) (WtLoop, p) = turn_end kl jl minted p
            \<and> fst (turn_end kl jl minted p) = WtLoop"
          using 1 WtMinted 3 out
          by (cases out) (simp_all add: turn_end_def worker_report_def eval_nat_numeral del: click_section.simps(1))
        then show ?thesis by blast
      qed
    qed (auto simp: worker_mint_def split: sum.splits if_splits)
  qed
qed

section \<open>Properties\<close>

text \<open>C40: no click is lost or reordered silently.  The request threads, the worker and a stop interleave in any order
  between their sections, and Kafka and the JSON library may answer anything.  At every moment the clicks the queue has
  accepted are, in this order, exactly those handed over to Kafka (up to the identifier minted for them), the one
  the worker has in hand, if any, and those still queued; the queue is within its bound; the accepted
  and the refused clicks are all counted once their request threads have reported, and so are the events handed over, by their outcome,
  once the worker has.  (After an exception in the worker the process has ended with that click in hand.)\<close>

theorem clicks_accounted:
  "let cs = fold (click_step kl jl) ops (click_start (producer_init kl cfg (click_producer_new s))); p = cs_prod cs
   in cs_accepted cs = map (unminted \<circ> fst) (cs_handed cs) @ map unminted (in_hand (cs_pc cs)) @ k_queue p
    \<and> length (in_hand (cs_pc cs)) \<le> 1 \<and> length (k_queue p) \<le> k_max_queue p
    \<and> counted (KEnqueue True) p + cs_reporting cs True = length (cs_accepted cs)
    \<and> counted (KEnqueue False) p + cs_reporting cs False = cs_refused cs
    \<and> counted (KProduceAccepted True) p + to_report (cs_pc cs) True = length (filter snd (cs_handed cs))
    \<and> counted (KProduceAccepted False) p + to_report (cs_pc cs) False = length (filter (\<lambda>h. \<not> snd h) (cs_handed cs))"
proof -
  have hand: "length (in_hand pc) \<le> 1" for pc by (cases pc) simp_all
  have "click_ok (click_start (producer_init kl cfg (click_producer_new s)))"
    by (simp add: click_ok_defs counted_def click_producer_new_def click_start_def)
  from click_run_ok [OF this, of kl jl ops] hand show ?thesis by (simp add: click_ok_defs Let_def)
qed

text \<open>A click whose JSON cannot be written (nlohmann's \<open>dump\<close> throws \<open>type_error\<close> on text that is not UTF-8, and the
  header fields are raw bytes from the client) ends the worker with an exception that nothing catches.\<close>

lemma undumpable_click_ends_worker:
  assumes "k_queue p = ev # q" "\<not> k_null_sink p" "k_producer p" "ev_event_id ev = []"
    "build_event_json jl (ev\<lparr>ev_event_id := i\<rparr>) = Inl e"
  shows "fst (click_worker_turn kl jl (Inr i) p) = WorkerThrew e"
  using assms by (simp add: click_worker_turn_def turn_end_def worker_take_def take_event_def worker_mint_def worker_produce_def)

text \<open>Libraries that always succeed, for the witnesses of later theories.\<close>

definition demo_kafka :: "unit kafka_lib" where
  "demo_kafka = \<lparr>kafka_conf_set = (\<lambda>_ _. True), kafka_new = (\<lambda>s. (True, s)), kafka_producev = (\<lambda>_ _ _ s. (True, s)),
     kafka_poll = (\<lambda>_ s. ([], s)), kafka_flush = (\<lambda>_ s. ([], s)), kafka_destroy = (\<lambda>s. s)\<rparr>"

definition demo_json :: json_lib where
  "demo_json = \<lparr>json_parse = (\<lambda>_. Inr JNull), json_dump = (\<lambda>_. Inr ''{}'')\<rparr>"

text \<open>A run in which the worker takes the first of two clicks before its request thread has reported it.\<close>

lemma clicks_demo:
  "let cs = fold (click_step demo_kafka demo_json)
        [Publish 5 http_request_new ''a'', WorkerSection (Inr ''x''), Publish 6 http_request_new ''b'', WorkerSection (Inr ''x''),
         WorkerSection (Inr ''x''), WorkerSection (Inr ''x''), Report True]
        (click_start (producer_init demo_kafka config_default (click_producer_new ())))
   in map ev_code (cs_accepted cs) = [''a'', ''b''] \<and> map (\<lambda>h. (ev_code (fst h), ev_event_id (fst h), snd h)) (cs_handed cs) = [(''a'', ''x'', True)]
      \<and> map ev_code (k_queue (cs_prod cs)) = [''b''] \<and> cs_reporting cs True = 1
      \<and> counted (KEnqueue True) (cs_prod cs) = 1 \<and> counted (KProduceAccepted True) (cs_prod cs) = 1"
proof -
  let ?p0 = "producer_init demo_kafka config_default (click_producer_new ())"
  have "k_queue ?p0 = []" "k_enabled ?p0" "k_accepting ?p0" "k_max_queue ?p0 = 8192" "k_metrics ?p0 = []"
    "\<not> k_null_sink ?p0" "k_producer ?p0" "k_worker ?p0"
    by (simp_all add: producer_init_def click_producer_new_def config_default_def kafka_settings_def demo_kafka_def Let_def)
  then show ?thesis
    by (simp add: click_start_def click_step_def after_publish_def after_section_def publish_enqueue_def publish_report_def
        enqueue_event_def worker_take_def take_event_def worker_mint_def worker_produce_def worker_report_def
        build_event_json_def k_observe_def counted_def demo_kafka_def demo_json_def click_of_def Let_def)
qed

end
