(* ===== verification/Short_Url_Handler.thy ===== *)
theory Short_Url_Handler
  imports Short_Url_Cache Repository Click_Producer Conn_Pool Protocol_Utils Router
begin

text \<open>
  \<open>src/handler/short_url_handler.cpp\<close>: the two request handlers, composed of the components below them.

  \<open>app\<close> is the program state the handlers share (the singletons and the static generator), \<open>libs\<close> the
  libraries and the settings that do not change, \<open>readings\<close> the clock readings and random draws one request
  uses.  A handler's \<open>None\<close> is a thread that does not come back (it waits for a connection without a timeout, or
  for a clock that stands still); an exception that leaves the handler is \<open>Inl\<close>.  Guards are destroyed on every
  path, in the reverse order of their construction.

  A request that joins a lookup in flight gets the result its leader publishes; that result is the argument
  \<open>shared\<close> (\<open>Single_Flight\<close> shows that it comes from a run of the loader for the same code).
\<close>

section \<open>State\<close>

record ('r, 'm, 'k) app =
  a_cache :: "'r url_cache"
  a_pool :: conn_pool
  a_db :: 'm
  a_gen :: snowflake
  a_clk :: nat
  a_clicks :: "'k click_producer"
  a_base_url :: string

record ('r, 'm) libs =
  l_redis :: "'r redis_lib"
  l_mysql :: "'m mysql_lib"
  l_json :: json_lib
  l_router :: shard_router
  l_clock :: clock
  l_worker :: u64

record readings =
  rd_now :: int
  rd_dt :: string
  rd_redis_dt :: string
  rd_put_now :: int
  rd_draw :: int
  rd_ttl_draw :: int
  rd_ms :: int

definition init_short_url_handler :: "config \<Rightarrow> ('r, 'm, 'k) app \<Rightarrow> ('r, 'm, 'k) app" where
  "init_short_url_handler cfg a = (if public_base_url cfg \<noteq> [] then a\<lparr>a_base_url := public_base_url cfg\<rparr> else a)"

section \<open>Helpers\<close>

definition valid_expire_char :: "nat \<Rightarrow> char \<Rightarrow> bool" where
  "valid_expire_char i c =
     (if i = 4 \<or> i = 7 then c = CHR ''-''
      else if i = 10 then c = CHR '' ''
      else if i = 13 \<or> i = 16 then c = CHR '':''
      else is_digit c)"

definition valid_expire_at :: "string \<Rightarrow> bool" where
  "valid_expire_at s \<longleftrightarrow> length s = 19 \<and> list_all (\<lambda>i. valid_expire_char i (s ! i)) [0..<19]"

definition build_short_url :: "string \<Rightarrow> string \<Rightarrow> string" where
  "build_short_url base code = join_public_base_url base code"

definition error_body :: "string \<Rightarrow> json" where
  "error_body msg = JObj [(''error'', JStr msg)]"

definition unavailable_body :: "string \<Rightarrow> json" where
  "unavailable_body detail = JObj [(''error'', JStr ''short url storage unavailable''), (''detail'', JStr detail)]"

definition respond :: "json_lib \<Rightarrow> int \<Rightarrow> json \<Rightarrow> http_response \<Rightarrow> exn + http_response" where
  "respond jl status body resp = set_json jl body (set_status status resp)"

definition set_safe_location :: "json_lib \<Rightarrow> string \<Rightarrow> http_response \<Rightarrow> exn + http_response" where
  "set_safe_location jl long_url resp =
     (if \<not> is_http_url_safe_for_location long_url
      then respond jl 500 (error_body ''stored long_url is unsafe for Location'') resp
      else Inr (set_body [] (set_header ''Location'' long_url (set_status 302 resp))))"

definition respond_expired :: "json_lib \<Rightarrow> http_response \<Rightarrow> exn + http_response" where
  "respond_expired jl resp = respond jl 410 (error_body ''short url expired'') resp"

definition respond_not_found :: "json_lib \<Rightarrow> http_response \<Rightarrow> exn + http_response" where
  "respond_not_found jl resp = respond jl 404 (error_body ''short url not found'') resp"

section \<open>\<open>POST /api/shorten\<close>\<close>

definition json_member :: "string \<Rightarrow> json \<Rightarrow> json option" where
  "json_member key j = (case j of JObj kvs \<Rightarrow> map_of kvs key | _ \<Rightarrow> None)"

definition check_expire_at :: "json \<Rightarrow> string + string" where
  "check_expire_at payload =
     (case json_member ''expire_at'' payload of
        None \<Rightarrow> Inr []
      | Some JNull \<Rightarrow> Inr []
      | Some (JStr s) \<Rightarrow> if valid_expire_at s then Inr s else Inl ''expire_at format must be YYYY-MM-DD HH:MM:SS''
      | Some _ \<Rightarrow> Inl ''expire_at must be a datetime string'')"

text \<open>The checks of the body: the message of the 400 response, or the URL and the expiry.\<close>

definition check_body :: "json_lib \<Rightarrow> string \<Rightarrow> exn + (string + string \<times> string)" where
  "check_body jl body =
     (case json_parse jl body of
        Inl JsonParseError \<Rightarrow> Inr (Inl ''invalid json'')
      | Inl e \<Rightarrow> Inl e
      | Inr payload \<Rightarrow>
          (case json_member ''long_url'' payload of
             Some (JStr long_url) \<Rightarrow>
               if \<not> is_http_url_safe_for_location long_url
               then Inr (Inl ''long_url must be http(s) without control characters'')
               else (case check_expire_at payload of
                       Inl msg \<Rightarrow> Inr (Inl msg)
                     | Inr expire_at \<Rightarrow> Inr (Inr (long_url, expire_at)))
           | _ \<Rightarrow> Inr (Inl ''long_url is required'')))"

text \<open>The loop of up to three attempts to store a fresh code: the code, or the text of the last database error.\<close>

fun create_loop ::
  "('r, 'm) libs \<Rightarrow> readings \<Rightarrow> nat \<Rightarrow> string \<Rightarrow> string \<Rightarrow> string \<Rightarrow> ('r, 'm, 'k) app \<Rightarrow>
     ((exn + (string + string)) \<times> ('r, 'm, 'k) app) option" where
  "create_loop l rd 0 long_url expire_at db_error a = Some (Inr (Inl db_error), a)"
| "create_loop l rd (Suc n) long_url expire_at db_error a =
     (case next_id (l_clock l) (l_worker l) (a_gen a) (a_clk a) of
        None \<Rightarrow> None
      | Some (Inl e, g, k) \<Rightarrow> Some (Inl e, a\<lparr>a_gen := g, a_clk := k\<rparr>)
      | Some (Inr i, g, k) \<Rightarrow>
          (let code = base62_encode i;
               r = \<lparr>rec_id = i, rec_short_code = code, rec_long_url = long_url, rec_expire_at = expire_at\<rparr>
           in case repo_create (l_mysql l) (l_router l) True r (a_db a) of
                ((status, err), db) \<Rightarrow>
                  (let a1 = a\<lparr>a_gen := g, a_clk := k, a_db := db\<rparr>;
                       db_error1 = (case err of None \<Rightarrow> db_error | Some m \<Rightarrow> m)
                   in case status of
                        CreateOk \<Rightarrow>
                          Some (Inr (Inr code),
                                a1\<lparr>a_cache := snd (cache_set (l_redis l) (rd_put_now rd) (rd_draw rd) (rd_ttl_draw rd)
                                                     code long_url expire_at (a_cache a1))\<rparr>)
                      | CreateDuplicate \<Rightarrow> create_loop l rd n long_url expire_at db_error1 a1
                      | CreateDbError \<Rightarrow> Some (Inr (Inl db_error1), a1))))"

definition created_body :: "string \<Rightarrow> string \<Rightarrow> string \<Rightarrow> string \<Rightarrow> json" where
  "created_body base code long_url expire_at =
     JObj [(''short_code'', JStr code), (''short_url'', JStr (build_short_url base code)), (''long_url'', JStr long_url),
           (''expire_at'', if expire_at = [] then JNull else JStr expire_at)]"

text \<open>Destruction of \<open>mysqlcon\<close> and of a budget guard.\<close>

definition release_con :: "nat \<Rightarrow> ('r, 'm, 'k) app \<Rightarrow> ('r, 'm, 'k) app" where
  "release_con con a = a\<lparr>a_pool := snd (ReleaseConnection (Some con) (a_pool a))\<rparr>"

definition drop_guard :: "guard \<Rightarrow> ('r, 'm, 'k) app \<Rightarrow> ('r, 'm, 'k) app" where
  "drop_guard g a = a\<lparr>a_cache := guard_destroy g (a_cache a)\<rparr>"

text \<open>The flag \<open>redis_available\<close> is read by \<open>try_acquire_origin\<close> and again after it; here both readings give the value
  it has at the time of the call (as in \<open>origin_lookup\<close>), so a change by another thread between the two is not
  among the behaviours.\<close>

definition shorten ::
  "('r, 'm) libs \<Rightarrow> readings \<Rightarrow> http_request \<Rightarrow> http_response \<Rightarrow> ('r, 'm, 'k) app \<Rightarrow>
     ((exn + http_response) \<times> ('r, 'm, 'k) app) option" where
  "shorten l rd req resp a =
     (let jl = l_json l
      in case check_body jl (req_body req) of
           Inl e \<Rightarrow> Some (Inl e, a)
         | Inr (Inl msg) \<Rightarrow> Some (respond jl 400 (error_body msg) resp, a)
         | Inr (Inr (long_url, expire_at)) \<Rightarrow>
             (case try_acquire_origin Create (a_cache a) of
                (g, c1) \<Rightarrow>
                  (let a1 = a\<lparr>a_cache := c1\<rparr>
                   in if \<not> c_redis_available c1 \<and> \<not> g_held g
                      then Some (respond jl 503 (unavailable_body ''create origin budget exhausted'') resp, drop_guard g a1)
                      else case GetConnection (a_pool a1) of
                             None \<Rightarrow> None
                           | Some (None, p) \<Rightarrow>
                               Some (respond jl 503 (unavailable_body ''mysql connection unavailable'') resp,
                                     drop_guard g (a1\<lparr>a_pool := p\<rparr>))
                           | Some (Some con, p) \<Rightarrow>
                               (case create_loop l rd 3 long_url expire_at [] (a1\<lparr>a_pool := p\<rparr>) of
                                  None \<Rightarrow> None
                                | Some (Inl e, a2) \<Rightarrow> Some (Inl e, drop_guard g (release_con con a2))
                                | Some (Inr (Inr code), a2) \<Rightarrow>
                                    Some (respond jl 201 (created_body (a_base_url a2) code long_url expire_at) resp,
                                          drop_guard g (release_con con a2))
                                | Some (Inr (Inl db_error), a2) \<Rightarrow>
                                    Some (respond jl 503 (unavailable_body db_error) resp, drop_guard g (release_con con a2))))))"

section \<open>\<open>GET /{code}\<close>\<close>

definition mk_flight :: "sf_kind \<Rightarrow> string \<Rightarrow> string \<Rightarrow> string \<Rightarrow> sf_result" where
  "mk_flight kind long_url expire_at err =
     \<lparr>sf_kind = kind, sf_long_url = long_url, sf_expire_at = expire_at, sf_error = err\<rparr>"

text \<open>The part of \<open>origin_lookup\<close> that asks MySQL, with the connection it got.\<close>

definition origin_mysql ::
  "('r, 'm) libs \<Rightarrow> readings \<Rightarrow> string \<Rightarrow> ('r, 'm, 'k) app \<Rightarrow> sf_result \<times> ('r, 'm, 'k) app" where
  "origin_mysql l rd code a =
     (case find_long_url (l_mysql l) (l_router l) True code (a_db a) of
        ((status, f), db) \<Rightarrow>
          (let a1 = a\<lparr>a_db := db\<rparr>
           in case status of
                FindOk \<Rightarrow>
                  (mk_flight FlightHit (f_long_url f) (f_expire_at f) [],
                   a1\<lparr>a_cache := snd (cache_set (l_redis l) (rd_put_now rd) (rd_draw rd) (rd_ttl_draw rd) code
                                        (f_long_url f) (f_expire_at f) (a_cache a1))\<rparr>)
              | FindExpired \<Rightarrow>
                  (mk_flight FlightExpired (f_long_url f) (f_expire_at f) [],
                   a1\<lparr>a_cache := snd (cache_erase (l_redis l) code (a_cache a1))\<rparr>)
              | FindNotFound \<Rightarrow>
                  (mk_flight FlightNotFound [] [] [],
                   a1\<lparr>a_cache := put_local_negative (rd_put_now rd) code (a_cache a1)\<rparr>)
              | FindDbError \<Rightarrow> (mk_flight FlightError [] [] (f_error f), a1)))"

definition origin_lookup ::
  "('r, 'm) libs \<Rightarrow> readings \<Rightarrow> string \<Rightarrow> ('r, 'm, 'k) app \<Rightarrow> (sf_result \<times> ('r, 'm, 'k) app) option" where
  "origin_lookup l rd code a =
     (case try_acquire_origin Redirect (a_cache a) of
        (g, c1) \<Rightarrow>
          (if \<not> c_redis_available c1 \<and> \<not> g_held g
           then Some (mk_flight FlightOverload [] [] ''redirect origin budget exhausted'',
                      drop_guard g (a\<lparr>a_cache := c1\<rparr>))
           else case get_redis (l_redis l) (rd_redis_dt rd) code c1 of
                  ((CHit, Some v), c2) \<Rightarrow>
                    Some (mk_flight FlightHit (lv_long_url v) (lv_expire_at v) [],
                          drop_guard g (a\<lparr>a_cache := put_local_positive (rd_put_now rd) (rd_draw rd) code (lv_long_url v)
                                                       (lv_expire_at v) c2\<rparr>))
                | ((CExpired, Some v), c2) \<Rightarrow>
                    Some (mk_flight FlightExpired (lv_long_url v) (lv_expire_at v) [],
                          drop_guard g (a\<lparr>a_cache := erase_local code c2\<rparr>))
                | (_, c2) \<Rightarrow>
                    (case GetConnection (a_pool a) of
                       None \<Rightarrow> None
                     | Some (None, p) \<Rightarrow>
                         Some (mk_flight FlightError [] [] ''mysql connection unavailable'',
                               drop_guard g (a\<lparr>a_cache := c2, a_pool := p\<rparr>))
                     | Some (Some con, p) \<Rightarrow>
                         (case origin_mysql l rd code (a\<lparr>a_cache := c2, a_pool := p\<rparr>) of
                            (out, a2) \<Rightarrow> Some (out, drop_guard g (release_con con a2))))))"

text \<open>\<open>do_flight\<close> with \<open>origin_lookup\<close> as its loader.\<close>

definition with_flight :: "singleflight \<Rightarrow> ('r, 'm, 'k) app \<Rightarrow> ('r, 'm, 'k) app" where
  "with_flight sf a = a\<lparr>a_cache := (a_cache a)\<lparr>c_flight := sf\<rparr>\<rparr>"

definition flight_lookup ::
  "('r, 'm) libs \<Rightarrow> readings \<Rightarrow> sf_result \<Rightarrow> string \<Rightarrow> ('r, 'm, 'k) app \<Rightarrow> (sf_result \<times> ('r, 'm, 'k) app) option" where
  "flight_lookup l rd shared code a =
     (case sf_enter code (c_flight (a_cache a)) of
        (Rejected r, sf) \<Rightarrow> Some (r, with_flight sf a)
      | (Joined n, sf) \<Rightarrow> Some (shared, with_flight (sf_leave n sf) a)
      | (Leading n, sf) \<Rightarrow>
          (case origin_lookup l rd code (with_flight sf a) of
             None \<Rightarrow> None
           | Some (r, a1) \<Rightarrow>
               Some (r, with_flight (sf_finish code n (sf_notify n (sf_publish n r (c_flight (a_cache a1))))) a1)))"

definition publish :: "readings \<Rightarrow> http_request \<Rightarrow> string \<Rightarrow> ('r, 'm, 'k) app \<Rightarrow> ('r, 'm, 'k) app" where
  "publish rd req code a = a\<lparr>a_clicks := snd (publish_click (rd_ms rd) req code (a_clicks a))\<rparr>"

definition answer_flight ::
  "('r, 'm) libs \<Rightarrow> readings \<Rightarrow> http_request \<Rightarrow> http_response \<Rightarrow> string \<Rightarrow> sf_result \<Rightarrow> ('r, 'm, 'k) app \<Rightarrow>
     (exn + http_response) \<times> ('r, 'm, 'k) app" where
  "answer_flight l rd req resp code flight a =
     (let jl = l_json l
      in case sf_kind flight of
           FlightHit \<Rightarrow> (set_safe_location jl (sf_long_url flight) resp, publish rd req code a)
         | FlightExpired \<Rightarrow> (respond_expired jl resp, a)
         | FlightNotFound \<Rightarrow> (respond_not_found jl resp, a)
         | FlightOverload \<Rightarrow>
             (respond jl 503 (unavailable_body (if sf_error flight = [] then ''singleflight overload'' else sf_error flight)) resp, a)
         | FlightError \<Rightarrow> (respond jl 503 (unavailable_body (sf_error flight)) resp, a))"

definition redirect ::
  "('r, 'm) libs \<Rightarrow> readings \<Rightarrow> sf_result \<Rightarrow> http_request \<Rightarrow> http_response \<Rightarrow> ('r, 'm, 'k) app \<Rightarrow>
     ((exn + http_response) \<times> ('r, 'm, 'k) app) option" where
  "redirect l rd shared req resp a =
     (let jl = l_json l
      in case req_params req ''code'' of
           None \<Rightarrow> Some (respond_not_found jl resp, a)
         | Some code \<Rightarrow>
             if code = [] then Some (respond_not_found jl resp, a)
             else if c_bloom_hard_filter (a_cache a) \<and> c_bloom_ready (a_cache a) \<and> \<not> cache_might_contain (a_cache a) code
             then Some (respond_not_found jl resp, a)
             else (case get_local (rd_now rd) (rd_dt rd) code (a_cache a) of
                     ((CHit, v), c1) \<Rightarrow>
                       Some (set_safe_location jl (case v of None \<Rightarrow> [] | Some x \<Rightarrow> lv_long_url x) resp,
                             publish rd req code (a\<lparr>a_cache := c1\<rparr>))
                   | ((CExpired, v), c1) \<Rightarrow>
                       Some (respond_expired jl resp, a\<lparr>a_cache := snd (cache_erase (l_redis l) code c1)\<rparr>)
                   | ((CNotFound, v), c1) \<Rightarrow> Some (respond_not_found jl resp, a\<lparr>a_cache := c1\<rparr>)
                   | (_, c1) \<Rightarrow>
                       (case flight_lookup l rd shared code (a\<lparr>a_cache := c1\<rparr>) of
                          None \<Rightarrow> None
                        | Some (flight, a1) \<Rightarrow> Some (answer_flight l rd req resp code flight a1))))"

section \<open>Responses\<close>

lemma respond_Inr:
  "respond jl st b resp = Inr r \<Longrightarrow> status_code r = st \<and> resp_headers r = (resp_headers resp)(''Content-Type'' \<mapsto> ''application/json'')"
  by (auto simp: respond_def set_json_def set_status_def set_header_def Let_def split: sum.splits)

text \<open>What a client of \<open>redirect\<close> can see.\<close>

definition redirect_reply_ok :: "http_response \<Rightarrow> bool" where
  "redirect_reply_ok r \<longleftrightarrow> status_code r \<in> {404, 410, 500, 503}
     \<or> (status_code r = 302 \<and> resp_body r = []
        \<and> (case resp_headers r ''Location'' of None \<Rightarrow> False | Some url \<Rightarrow> is_http_url_safe_for_location url))"

lemma respond_reply_ok: "respond jl st b resp = Inr r \<Longrightarrow> st \<in> {404, 410, 500, 503} \<Longrightarrow> redirect_reply_ok r"
  by (drule respond_Inr) (simp add: redirect_reply_ok_def)

lemma set_safe_location_reply_ok: "set_safe_location jl url resp = Inr r \<Longrightarrow> redirect_reply_ok r"
  by (auto simp: set_safe_location_def redirect_reply_ok_def set_body_def set_header_def set_status_def
      dest: respond_reply_ok split: if_splits)

lemma answer_flight_reply_ok: "fst (answer_flight l rd req resp code fl a) = Inr r \<Longrightarrow> redirect_reply_ok r"
  by (auto simp: answer_flight_def Let_def respond_expired_def respond_not_found_def
      dest: respond_reply_ok set_safe_location_reply_ok split: sf_kind.splits)

lemma redirect_reply:
  assumes "redirect l rd shared req resp a = Some (Inr r, a')"
  shows "redirect_reply_ok r"
  using assms
  by (auto simp: redirect_def Let_def respond_expired_def respond_not_found_def
      dest: respond_reply_ok set_safe_location_reply_ok answer_flight_reply_ok [OF trans [OF arg_cong [where f = fst]]]
      split: option.splits if_splits prod.splits cache_status.splits)

section \<open>Resources\<close>

text \<open>Two states of the pool with the same connections free.\<close>

definition pool_same :: "conn_pool \<Rightarrow> conn_pool \<Rightarrow> bool" where
  "pool_same p q \<longleftrightarrow> mset (connList q) = mset (connList p) \<and> reserve q = reserve p \<and> m_FreeConn q = m_FreeConn p
     \<and> m_CurConn q = m_CurConn p \<and> m_MaxConn q = m_MaxConn p"

lemma pool_same_refl [simp]: "pool_same p p"
  by (simp add: pool_same_def)

lemma get_none_same: "GetConnection p = Some (None, q) \<Longrightarrow> pool_same p q"
  by (auto simp: GetConnection_def GetConnection_within_def take_connection_def sem_wait_def sem_post_def pool_same_def
      split: if_splits option.splits list.splits)

lemma get_release_same:
  "GetConnection p = Some (Some con, q) \<Longrightarrow> pool_same p (snd (ReleaseConnection (Some con) q))"
  by (auto simp: GetConnection_def GetConnection_within_def take_connection_def sem_wait_def sem_post_def pool_same_def
      ReleaseConnection_def give_connection_def Let_def split: if_splits option.splits list.splits)

definition released :: "('r, 'm, 'k) app \<Rightarrow> ('r, 'm, 'k) app \<Rightarrow> bool" where
  "released a a' \<longleftrightarrow> pool_same (a_pool a) (a_pool a') \<and> budgets (a_cache a') = budgets (a_cache a)"

lemma released_refl [simp]: "released a a"
  by (simp add: released_def)

lemma create_loop_frame:
  "create_loop l rd n u e err a = Some (r, a') \<Longrightarrow> a_pool a' = a_pool a \<and> budgets (a_cache a') = budgets (a_cache a)"
proof (induction n arbitrary: err a)
  case (Suc n)
  obtain x where x: "next_id (l_clock l) (l_worker l) (a_gen a) (a_clk a) = Some x" using Suc.prems by (auto split: option.splits)
  obtain q g k where q: "x = (q, g, k)" by (cases x)
  show ?case
  proof (cases q)
    case (Inl ex)
    with Suc.prems x q show ?thesis by auto
  next
    case (Inr i)
    obtain st er db where c: "repo_create (l_mysql l) (l_router l) True \<lparr>rec_id = i, rec_short_code = base62_encode i,
        rec_long_url = u, rec_expire_at = e\<rparr> (a_db a) = ((st, er), db)" by (metis prod_cases3 prod.collapse)
    let ?a = "a\<lparr>a_gen := g, a_clk := k, a_db := db\<rparr>"
    have same: "a_pool ?a = a_pool a" "a_cache ?a = a_cache a" by simp_all
    show ?thesis
    proof (cases st)
      case CreateOk
      with Suc.prems x q Inr c show ?thesis by (auto simp: Let_def frame_simps)
    next
      case CreateDuplicate
      with Suc.prems x q Inr c have "create_loop l rd n u e (case er of None \<Rightarrow> err | Some m \<Rightarrow> m) ?a = Some (r, a')"
        by (simp add: Let_def)
      from Suc.IH [OF this] same show ?thesis by simp
    next
      case CreateDbError
      with Suc.prems x q Inr c show ?thesis by (auto simp: Let_def)
    qed
  qed
qed simp

lemma drop_guard_released:
  assumes "try_acquire_origin kind (a_cache a) = (g, c1)" "budgets (a_cache a') = budgets c1" "pool_same (a_pool a) (a_pool a')"
  shows "released a (drop_guard g a')"
  using guard_returns_slot [OF assms(1,2)] assms(3) by (simp add: released_def drop_guard_def)

lemma release_con_released:
  assumes "try_acquire_origin kind (a_cache a) = (g, c1)" "GetConnection (a_pool a) = Some (Some con, p)"
    "a_pool a' = p" "budgets (a_cache a') = budgets c1"
  shows "released a (drop_guard g (release_con con a'))"
  by (rule drop_guard_released [OF assms(1)]) (use assms get_release_same [OF assms(2)] in \<open>simp_all add: release_con_def\<close>)

lemma shorten_released:
  assumes "shorten l rd req resp a = Some (r, a')"
  shows "released a a'"
proof -
  obtain g c1 where g: "try_acquire_origin Create (a_cache a) = (g, c1)" by fastforce
  have none: "released a (drop_guard g (a\<lparr>a_cache := c1, a_pool := p\<rparr>))" if "GetConnection (a_pool a) = Some (None, p)" for p
    using get_none_same [OF that] by (intro drop_guard_released [OF g]) simp_all
  have early: "released a (drop_guard g (a\<lparr>a_cache := c1\<rparr>))" by (intro drop_guard_released [OF g]) simp_all
  have some: "released a (drop_guard g (release_con con a2))"
    if "GetConnection (a_pool a) = Some (Some con, p)" "create_loop l rd 3 u e [] (a\<lparr>a_cache := c1, a_pool := p\<rparr>) = Some (x, a2)"
    for con p u e x a2
    using create_loop_frame [OF that(2)] by (intro release_con_released [OF g that(1)]) simp_all
  show ?thesis using assms g none early some
    by (auto simp: shorten_def Let_def split: sum.splits option.splits prod.splits if_splits)
qed

lemma origin_mysql_frame:
  "origin_mysql l rd code a = (r, a') \<Longrightarrow> a_pool a' = a_pool a \<and> budgets (a_cache a') = budgets (a_cache a)"
  by (auto simp: origin_mysql_def Let_def frame_simps split: prod.splits find_status.splits)

lemma origin_lookup_released:
  assumes "origin_lookup l rd code a = Some (r, a')"
  shows "released a a'"
proof -
  obtain g c1 where g: "try_acquire_origin Redirect (a_cache a) = (g, c1)" by fastforce
  obtain st v c2 where c2: "get_redis (l_redis l) (rd_redis_dt rd) code c1 = ((st, v), c2)" by (metis prod_cases3 prod.collapse)
  have b: "budgets c2 = budgets c1" using budgets_get(2) [of "l_redis l" "rd_redis_dt rd" code c1] c2 by simp
  have cache: "released a (drop_guard g (a\<lparr>a_cache := c\<rparr>))" if "budgets c = budgets c1" for c
    using that by (intro drop_guard_released [OF g]) simp_all
  have none: "released a (drop_guard g (a\<lparr>a_cache := c2, a_pool := p\<rparr>))" if "GetConnection (a_pool a) = Some (None, p)" for p
    using get_none_same [OF that] b by (intro drop_guard_released [OF g]) simp_all
  have some: "released a (drop_guard g (release_con con a2))"
    if "GetConnection (a_pool a) = Some (Some con, p)" "origin_mysql l rd code (a\<lparr>a_cache := c2, a_pool := p\<rparr>) = (x, a2)"
    for con p x a2
    using origin_mysql_frame [OF that(2)] b by (intro release_con_released [OF g that(1)]) simp_all
  show ?thesis using assms g c2 cache none some b
    by (auto simp: origin_lookup_def frame_simps split: prod.splits option.splits if_splits cache_status.splits)
qed

lemma flight_lookup_released:
  assumes "flight_lookup l rd shared code a = Some (r, a')"
  shows "released a a'"
proof -
  have w: "released a (with_flight sf a)" for sf by (simp add: released_def with_flight_def frame_simps)
  have t: "released a (with_flight sf' a1)" if "origin_lookup l rd code (with_flight sf a) = Some (x, a1)" for sf sf' x a1
    using origin_lookup_released [OF that] by (simp add: released_def with_flight_def frame_simps)
  show ?thesis using assms w t by (auto simp: flight_lookup_def split: prod.splits sf_entry.splits option.splits)
qed

lemma redirect_released:
  assumes "redirect l rd shared req resp a = Some (r, a')"
  shows "released a a'"
proof -
  have local: "budgets c1 = budgets (a_cache a)" if "get_local now dt code (a_cache a) = (x, c1)" for now dt code x c1
    using budgets_get(1) [of now dt code "a_cache a"] that by simp
  have ans: "released a a2" if "get_local now dt code (a_cache a) = (x, c1)"
      "flight_lookup l rd shared code (a\<lparr>a_cache := c1\<rparr>) = Some (fl, a1)" "answer_flight l rd req resp code fl a1 = (y, a2)"
    for now dt code x c1 fl a1 y a2
    using flight_lookup_released [OF that(2)] local [OF that(1)] that(3)
    by (auto simp: released_def answer_flight_def publish_def Let_def split: sf_kind.splits)
  show ?thesis using assms local ans
    by (auto simp: redirect_def Let_def released_def publish_def frame_simps split: option.splits if_splits prod.splits cache_status.splits)
qed

section \<open>A fresh short URL redirects\<close>

lemma get_local_hit:
  assumes "fst (lc_get now dt code (c_local c)) = (LcHit, Some v)"
  shows "\<exists>c'. get_local now dt code c = ((CHit, Some \<lparr>lv_long_url = v_long_url v, lv_expire_at = v_expire_at v\<rparr>), c')"
  using assms by (cases "lc_get now dt code (c_local c)") (simp add: get_local_def Let_def)

lemma redirect_local_hit:
  assumes "req_params req ''code'' = Some code" "code \<noteq> []" "cache_might_contain (a_cache a) code"
    and "fst (lc_get (rd_now rd) (rd_dt rd) code (c_local (a_cache a))) = (LcHit, Some v)"
    and "is_http_url_safe_for_location (v_long_url v)"
  shows "\<exists>a'. redirect l rd shared req resp a =
    Some (Inr (set_body [] (set_header ''Location'' (v_long_url v) (set_status 302 resp))), a')"
proof -
  obtain c' where "get_local (rd_now rd) (rd_dt rd) code (a_cache a) =
      ((CHit, Some \<lparr>lv_long_url = v_long_url v, lv_expire_at = v_expire_at v\<rparr>), c')"
    using get_local_hit [OF assms(4)] by blast
  with assms show ?thesis by (simp add: redirect_def Let_def set_safe_location_def)
qed

lemma check_body_safe: "check_body jl body = Inr (Inr (url, exp)) \<Longrightarrow> is_http_url_safe_for_location url"
  by (auto simp: check_body_def split: sum.splits exn.splits option.splits json.splits if_splits)

lemma shorten_stores:
  assumes body: "check_body (l_json l) (req_body req) = Inr (Inr (url, exp))"
    and slot: "c_redis_available (a_cache a) \<or> c_create_inflight (a_cache a) < c_create_max (a_cache a)"
    and con: "GetConnection (a_pool a) = Some (Some con, p)"
    and fresh: "next_id (l_clock l) (l_worker l) (a_gen a) (a_clk a) = Some (Inr i, g, k)"
    and stored: "repo_create (l_mysql l) (l_router l) True \<lparr>rec_id = i, rec_short_code = base62_encode i,
        rec_long_url = url, rec_expire_at = exp\<rparr> (a_db a) = ((CreateOk, err), db)"
  shows "\<exists>a'. shorten l rd req resp a =
      Some (respond (l_json l) 201 (created_body (a_base_url a) (base62_encode i) url exp) resp, a')
    \<and> c_local (a_cache a') = lc_put_positive (rd_put_now rd) (rd_draw rd) (base62_encode i) url exp (c_local (a_cache a))
    \<and> c_bloom (a_cache a') = bloom_add (base62_encode i) (c_bloom (a_cache a))"
proof -
  obtain gd c1 where g: "try_acquire_origin Create (a_cache a) = (gd, c1)" by fastforce
  have go: "c_redis_available c1 \<or> g_held gd" and c1: "c_local c1 = c_local (a_cache a)" "c_bloom c1 = c_bloom (a_cache a)"
    using g slot local_frame(5,10) [of Create "a_cache a"]
    by (auto simp: try_acquire_origin_def inflight_of_def max_slots_def observe_def split: if_splits)
  let ?a = "a\<lparr>a_cache := c1, a_pool := p\<rparr>"
  let ?a1 = "?a\<lparr>a_gen := g, a_clk := k, a_db := db\<rparr>"
  let ?a2 = "?a1\<lparr>a_cache := snd (cache_set (l_redis l) (rd_put_now rd) (rd_draw rd) (rd_ttl_draw rd) (base62_encode i) url exp c1)\<rparr>"
  have loop: "create_loop l rd 3 url exp [] ?a = Some (Inr (Inr (base62_encode i)), ?a2)"
    using fresh stored by (simp add: numeral_3_eq_3 Let_def)
  have "shorten l rd req resp a = Some (respond (l_json l) 201 (created_body (a_base_url a) (base62_encode i) url exp) resp,
      drop_guard gd (release_con con ?a2))"
    using body g go con loop by (auto simp: shorten_def Let_def)
  then show ?thesis using c1 by (auto simp: drop_guard_def release_con_def frame_simps cache_set_local)
qed

section \<open>Properties\<close>

text \<open>C35: whatever the caches, Redis and MySQL hold, a redirect response is a 302 whose \<open>Location\<close> passes the
  URL check (an http or https URL without control bytes) and whose body is empty, or one of 404, 410, 500 and 503.\<close>

theorem redirect_location_safe:
  assumes "redirect l rd shared req resp a = Some (Inr r, a')"
  shows "status_code r \<in> {404, 410, 500, 503} \<or>
    (status_code r = 302 \<and> resp_body r = []
     \<and> (case resp_headers r ''Location'' of None \<Rightarrow> False | Some url \<Rightarrow> is_http_url_safe_for_location url))"
  using redirect_reply [OF assms] by (simp add: redirect_reply_ok_def)

definition demo_mysql :: "unit mysql_lib" where
  "demo_mysql = \<lparr>my_query = (\<lambda>_ db. (QueryRows [], db)), my_escape = (\<lambda>s. s)\<rparr>"

definition demo_body_json :: json_lib where
  "demo_body_json = \<lparr>json_parse = (\<lambda>_. Inr (JObj [(''long_url'', JStr ''http://a'')])), json_dump = (\<lambda>_. Inr ''{}'')\<rparr>"

definition demo_libs :: "(unit, unit) libs" where
  "demo_libs = \<lparr>l_redis = demo_redis, l_mysql = demo_mysql, l_json = demo_body_json, l_router = shard_router_new,
     l_clock = (\<lambda>_. 1767225601), l_worker = 0\<rparr>"

definition demo_readings :: "int \<Rightarrow> readings" where
  "demo_readings t = \<lparr>rd_now = t, rd_dt = ''2026-01-01 00:00:00'', rd_redis_dt = ''2026-01-01 00:00:00'', rd_put_now = t,
     rd_draw = 0, rd_ttl_draw = 0, rd_ms = 0\<rparr>"

definition demo_app :: "(unit, unit, unit) app" where
  "demo_app = \<lparr>a_cache = cache_configure config_default (short_url_cache_new ()),
     a_pool = demo_pool, a_db = (), a_gen = snowflake_init, a_clk = 0, a_clicks = click_producer_new (),
     a_base_url = ''http://localhost:9006''\<rparr>"

text \<open>C36: the handlers give back what they take. On every path that returns, errors and exceptions included, the
  connection pool has the same free connections and counters as before and both origin budgets are restored.\<close>

theorem handlers_release:
  "(case shorten l rd req resp a of None \<Rightarrow> True | Some (r, a') \<Rightarrow> released a a')
   \<and> (case redirect l rd shared req resp a of None \<Rightarrow> True | Some (r, a') \<Rightarrow> released a a')"
  using shorten_released redirect_released by (fastforce split: option.splits)

text \<open>A short URL that has just been created redirects to its long URL. When \<open>shorten\<close> gets a slot, a
  connection and a fresh id and the insert succeeds, it answers 201, and a redirect for that code then finds
  it in the local cache, passes the Bloom filter even in hard mode and answers 302 with the URL, without Redis
  or MySQL, as long as neither the time to live nor the business expiry has passed.\<close>

lemma shorten_then_redirect:
  assumes body: "check_body (l_json l) (req_body req) = Inr (Inr (url, exp))"
    and slot: "c_redis_available (a_cache a) \<or> c_create_inflight (a_cache a) < c_create_max (a_cache a)"
    and con: "GetConnection (a_pool a) = Some (Some con, p)"
    and fresh: "next_id (l_clock l) (l_worker l) (a_gen a) (a_clk a) = Some (Inr i, g, k)"
    and stored: "repo_create (l_mysql l) (l_router l) True \<lparr>rec_id = i, rec_short_code = base62_encode i,
        rec_long_url = url, rec_expire_at = exp\<rparr> (a_db a) = ((CreateOk, err), db)"
    and dump: "json_dump (l_json l) (created_body (a_base_url a) (base62_encode i) url exp) = Inr text"
    and cache: "lc_ok (c_local (a_cache a))" "wf_bloom (c_bloom (a_cache a))"
    and new: "base62_encode i \<notin> set (positive_fifo (shard_of (c_local (a_cache a)) (base62_encode i)))"
    and fits: "estimate_positive_bytes (base62_encode i) url exp \<le> positive_byte_budget (c_local (a_cache a))"
    and later: "req_params req' ''code'' = Some (base62_encode i)"
      "rd_now rd' < rd_put_now rd + ticks (ttl_with_jitter_locked (c_local (a_cache a)) (rd_draw rd))"
      "\<not> is_business_expired (rd_dt rd') exp"
  shows "\<exists>r a1 r' a2. shorten l rd req http_response_new a = Some (Inr r, a1) \<and> status_code r = 201 \<and> resp_body r = text
    \<and> redirect l' rd' shared req' http_response_new a1 = Some (Inr r', a2)
    \<and> status_code r' = 302 \<and> resp_headers r' ''Location'' = Some url"
proof -
  let ?code = "base62_encode i"
  from shorten_stores [OF body slot con fresh stored, of rd http_response_new] obtain a1
    where a1: "shorten l rd req http_response_new a =
        Some (respond (l_json l) 201 (created_body (a_base_url a) ?code url exp) http_response_new, a1)"
      "c_local (a_cache a1) = lc_put_positive (rd_put_now rd) (rd_draw rd) ?code url exp (c_local (a_cache a))"
      "c_bloom (a_cache a1) = bloom_add ?code (c_bloom (a_cache a))" by blast
  have hit: "fst (lc_get (rd_now rd') (rd_dt rd') ?code (c_local (a_cache a1))) = (LcHit, Some \<lparr>v_long_url = url, v_expire_at = exp\<rparr>)"
    unfolding a1(2) using cache new fits later by (intro put_then_get)
  have "cache_might_contain (a_cache a1) ?code"
    unfolding cache_might_contain_def a1(3) by (rule bloom.mem_add [OF cache(2)])
  from redirect_local_hit [OF later(1) _ this hit, where l = l' and shared = shared and resp = http_response_new]
    check_body_safe [OF body] obtain a2
    where "redirect l' rd' shared req' http_response_new a1 =
      Some (Inr (set_body [] (set_header ''Location'' url (set_status 302 http_response_new))), a2)" by auto
  moreover have "\<exists>r. respond (l_json l) 201 (created_body (a_base_url a) ?code url exp) http_response_new = Inr r
      \<and> status_code r = 201 \<and> resp_body r = text"
    using dump by (simp add: respond_def set_json_def set_status_def set_header_def Let_def)
  ultimately show ?thesis using a1(1) by (auto simp: set_body_def set_header_def set_status_def)
qed

text \<open>The demonstration state fulfils the conditions of the last lemma, with the first id of its first second.\<close>

lemma demo_fresh: "next_id (l_clock demo_libs) (l_worker demo_libs) (a_gen demo_app) (a_clk demo_app)
    = Some (Inr (compose_id 1 0 0), \<lparr>last_second = 1, sequence = 0\<rparr>, 1)"
  by (simp add: demo_libs_def demo_app_def next_id_def snowflake_init_def current_seconds_def next_id_tail_def
      snowflake_constants Let_def)

lemma demo_body: "check_body (l_json demo_libs) text = Inr (Inr (''http://a'', []))"
  by (simp add: check_body_def demo_libs_def demo_body_json_def json_member_def check_expire_at_def
      is_http_url_safe_for_location_def contains_ctl_or_separator_def starts_with_def strncaseeq_def tolower_def)

lemma demo_local: "c_local (a_cache demo_app) = lc_configure 16 (64 * 1024 * 1024) (4 * 1024 * 1024) 3600 300 30"
  by (simp add: demo_app_def cache_configure_def config_default_def Let_def)

lemma demo_cache_ok: "lc_ok (c_local (a_cache demo_app))" "wf_bloom (c_bloom (a_cache demo_app))"
  unfolding demo_local
  by (rule lc_configure_ok) (simp add: demo_app_def cache_configure_def Let_def config_default_def bloom_reset_wf)

lemma demo_slot: "c_redis_available (a_cache demo_app) \<or> c_create_inflight (a_cache demo_app) < c_create_max (a_cache demo_app)"
  by (simp add: demo_app_def cache_configure_def config_default_def Let_def)

lemma demo_con: "\<exists>con p. GetConnection (a_pool demo_app) = Some (Some con, p)"
  by (simp add: demo_app_def demo_pool_def pool_init_def GetConnection_def GetConnection_within_def sem_wait_def
      take_connection_def numeral_2_eq_2)

lemma demo_stored: "repo_create (l_mysql demo_libs) (l_router demo_libs) True \<lparr>rec_id = i, rec_short_code = base62_encode i,
    rec_long_url = ''http://a'', rec_expire_at = []\<rparr> (a_db demo_app) = ((CreateOk, None), ())"
  by (simp add: repo_create_def demo_libs_def demo_mysql_def)

lemma demo_dump: "json_dump (l_json demo_libs) j = Inr ''{}''"
  by (simp add: demo_libs_def demo_body_json_def)

lemma demo_new: "code \<notin> set (positive_fifo (shard_of (c_local (a_cache demo_app)) code))"
  using shard_index_bound [OF demo_cache_ok(1), of code] unfolding demo_local
  by (simp add: shard_of_def) (simp add: lc_configure_def Let_def new_shard_def)

lemma demo_fits:
  "estimate_positive_bytes (base62_encode i) ''http://a'' [] \<le> positive_byte_budget (c_local (a_cache demo_app))"
proof -
  have "length (base62_encode i) \<le> 11"
    using unsigned_less [where ?'a = nat, of i] by (intro base62_encode_length) simp_all
  then show ?thesis unfolding demo_local by (simp add: estimate_positive_bytes_def lc_configure_def Let_def)
qed

lemma demo_later:
  "rd_now (demo_readings 5) < rd_put_now (demo_readings 0) + ticks (ttl_with_jitter_locked (c_local (a_cache demo_app)) (rd_draw (demo_readings 0)))"
  "\<not> is_business_expired (rd_dt (demo_readings 5)) []"
  unfolding demo_local
  by (simp_all add: demo_readings_def ticks_def ttl_with_jitter_locked_def lc_configure_def Let_def is_business_expired_def)

text \<open>The redirect of a code that was just created: a 302, and its \<open>Location\<close> passes the check.\<close>

theorem redirect_location_safe_witness:
  "\<exists>(a :: (unit, unit, unit) app) r a'. redirect demo_libs (demo_readings 5) sf_result_new
      (http_request_new\<lparr>req_params := [''code'' \<mapsto> base62_encode (compose_id 1 0 0)]\<rparr>) http_response_new a = Some (Inr r, a')
    \<and> status_code r = 302 \<and> resp_body r = [] \<and> resp_headers r ''Location'' = Some ''http://a''
    \<and> is_http_url_safe_for_location ''http://a''"
proof -
  let ?req = "http_request_new\<lparr>req_params := [''code'' \<mapsto> base62_encode (compose_id 1 0 0)]\<rparr>"
  obtain con p where con: "GetConnection (a_pool demo_app) = Some (Some con, p)" using demo_con by blast
  have code: "req_params ?req ''code'' = Some (base62_encode (compose_id 1 0 0))" by simp
  from shorten_then_redirect [OF demo_body demo_slot con demo_fresh demo_stored demo_dump demo_cache_ok demo_new demo_fits
      code demo_later, of _ demo_libs sf_result_new]
  obtain a :: "(unit, unit, unit) app" and r a'
    where r: "redirect demo_libs (demo_readings 5) sf_result_new ?req http_response_new a = Some (Inr r, a')"
    "status_code r = 302" "resp_headers r ''Location'' = Some ''http://a''" by blast
  from redirect_location_safe [OF r(1)] r show ?thesis by auto
qed

end
