(* ===== verification/Metrics.thy ===== *)
theory Metrics
  imports Prelude "HOL-Library.List_Lexorder" "HOL-Library.Char_ord"
begin

text \<open>
  \<open>src/observability/metrics_registry.h\<close> and \<open>metrics_registry.cpp\<close>: the counters, kept in sixteen shards
  so that request threads rarely meet on a mutex, and the text that \<open>/metrics\<close> serves.

  A \<open>std::map<std::string, uint64_t>\<close> is the association list in its iteration order; \<open>std::string\<close> compares
  by unsigned bytes, which is the order of \<open>List_Lexorder\<close> over \<open>Char_ord\<close>.  Every operation on a shard
  runs under the mutex of the shard and is one step; the thread an operation runs on is given by the hash of
  its id.  A scrape locks one shard after the other; what is shown of it is for a scrape that no observation
  overlaps.  The arithmetic of \<open>double\<close> is the parameter record \<open>double_ops\<close>: the literals (in thousandths),
  comparison, addition and the fixed printing with six digits.
\<close>

section \<open>State\<close>

record 'd double_ops =
  dbl_lit :: "nat \<Rightarrow> 'd"
  dbl_le :: "'d \<Rightarrow> 'd \<Rightarrow> bool"
  dbl_add :: "'d \<Rightarrow> 'd \<Rightarrow> 'd"
  dbl_fixed6 :: "'d \<Rightarrow> string"

type_synonym counts = "(string \<times> u64) list"

record 'd mshard =
  http_requests :: counts
  http_latency_buckets :: "u64 list"
  http_latency_count :: u64
  http_latency_sum :: 'd
  cache_results :: counts
  kafka_publish_success :: u64
  kafka_publish_failure :: u64
  kafka_enqueue_accepted :: u64
  kafka_enqueue_dropped :: u64
  kafka_produce_accepted :: u64
  kafka_produce_failed :: u64
  kafka_delivered :: u64
  kafka_delivery_failed :: u64
  log_enqueue_accepted :: u64
  log_enqueue_dropped :: u64
  origin_cap_acquired :: counts
  origin_cap_rejected :: counts

definition kShardCount :: nat where "kShardCount = 16"

definition shard_new :: "'d double_ops \<Rightarrow> 'd mshard" where
  "shard_new d =
     \<lparr>http_requests = [], http_latency_buckets = replicate 13 0, http_latency_count = 0,
      http_latency_sum = dbl_lit d 0, cache_results = [], kafka_publish_success = 0, kafka_publish_failure = 0,
      kafka_enqueue_accepted = 0, kafka_enqueue_dropped = 0, kafka_produce_accepted = 0, kafka_produce_failed = 0,
      kafka_delivered = 0, kafka_delivery_failed = 0, log_enqueue_accepted = 0, log_enqueue_dropped = 0,
      origin_cap_acquired = [], origin_cap_rejected = []\<rparr>"

definition metrics_new :: "'d double_ops \<Rightarrow> 'd mshard list" where
  "metrics_new d = replicate kShardCount (shard_new d)"

text \<open>The bucket bounds \<open>kLatencyBuckets\<close>, in thousandths of a second.\<close>

definition kLatencyBuckets :: "nat list" where
  "kLatencyBuckets = [1, 5, 10, 25, 50, 100, 250, 500, 1000, 2500, 5000, 10000]"

section \<open>Counting\<close>

text \<open>\<open>m[key] += n\<close>, which creates a missing entry with value zero.\<close>

fun bump :: "string \<Rightarrow> u64 \<Rightarrow> counts \<Rightarrow> counts" where
  "bump k n [] = [(k, n)]"
| "bump k n ((k', v) # m) =
     (if k = k' then (k', v + n) # m else if k < k' then (k, n) # (k', v) # m else (k', v) # bump k n m)"

fun add_map :: "counts \<Rightarrow> counts \<Rightarrow> counts" where
  "add_map dst [] = dst"
| "add_map dst ((k, v) # src) = add_map (bump k v dst) src"

definition status_class :: "int \<Rightarrow> string" where
  "status_class status = (if 100 \<le> status \<and> status < 600 then to_string (status div 100) @ ''xx'' else ''unknown'')"

definition http_key :: "string \<Rightarrow> string \<Rightarrow> int \<Rightarrow> string" where
  "http_key meth route status = meth @ ''|'' @ route @ ''|'' @ status_class status"

definition incr_at :: "nat \<Rightarrow> u64 list \<Rightarrow> u64 list" where
  "incr_at i bs = bs[i := bs ! i + 1]"

definition observe_latency :: "'d double_ops \<Rightarrow> 'd \<Rightarrow> u64 list \<Rightarrow> u64 list" where
  "observe_latency d secs bs =
     incr_at (length bs - 1)
       (fold (\<lambda>i bs. if dbl_le d secs (dbl_lit d (kLatencyBuckets ! i)) then incr_at i bs else bs)
          [0..<length kLatencyBuckets] bs)"

definition observe_http_request :: "'d double_ops \<Rightarrow> string \<Rightarrow> string \<Rightarrow> int \<Rightarrow> 'd \<Rightarrow> 'd mshard \<Rightarrow> 'd mshard" where
  "observe_http_request d meth route status secs s =
     s\<lparr>http_requests := bump (http_key meth route status) 1 (http_requests s),
       http_latency_buckets := observe_latency d secs (http_latency_buckets s),
       http_latency_count := http_latency_count s + 1,
       http_latency_sum := dbl_add d (http_latency_sum s) secs\<rparr>"

definition observe_cache_result :: "string \<Rightarrow> 'd mshard \<Rightarrow> 'd mshard" where
  "observe_cache_result res s = s\<lparr>cache_results := bump res 1 (cache_results s)\<rparr>"

definition observe_kafka_publish :: "bool \<Rightarrow> 'd mshard \<Rightarrow> 'd mshard" where
  "observe_kafka_publish success s =
     (if success then s\<lparr>kafka_publish_success := kafka_publish_success s + 1\<rparr>
      else s\<lparr>kafka_publish_failure := kafka_publish_failure s + 1\<rparr>)"

definition observe_kafka_enqueue :: "bool \<Rightarrow> 'd mshard \<Rightarrow> 'd mshard" where
  "observe_kafka_enqueue accepted s =
     (if accepted
      then s\<lparr>kafka_enqueue_accepted := kafka_enqueue_accepted s + 1, kafka_publish_success := kafka_publish_success s + 1\<rparr>
      else s\<lparr>kafka_enqueue_dropped := kafka_enqueue_dropped s + 1, kafka_publish_failure := kafka_publish_failure s + 1\<rparr>)"

definition observe_kafka_produce_accepted :: "bool \<Rightarrow> 'd mshard \<Rightarrow> 'd mshard" where
  "observe_kafka_produce_accepted good s =
     (if good then s\<lparr>kafka_produce_accepted := kafka_produce_accepted s + 1\<rparr>
      else s\<lparr>kafka_produce_failed := kafka_produce_failed s + 1\<rparr>)"

definition observe_kafka_delivery :: "bool \<Rightarrow> 'd mshard \<Rightarrow> 'd mshard" where
  "observe_kafka_delivery success s =
     (if success then s\<lparr>kafka_delivered := kafka_delivered s + 1\<rparr>
      else s\<lparr>kafka_delivery_failed := kafka_delivery_failed s + 1\<rparr>)"

definition observe_log_enqueue :: "bool \<Rightarrow> 'd mshard \<Rightarrow> 'd mshard" where
  "observe_log_enqueue accepted s =
     (if accepted then s\<lparr>log_enqueue_accepted := log_enqueue_accepted s + 1\<rparr>
      else s\<lparr>log_enqueue_dropped := log_enqueue_dropped s + 1\<rparr>)"

definition observe_origin_cap :: "string \<Rightarrow> bool \<Rightarrow> 'd mshard \<Rightarrow> 'd mshard" where
  "observe_origin_cap kind acquired s =
     (if acquired then s\<lparr>origin_cap_acquired := bump kind 1 (origin_cap_acquired s)\<rparr>
      else s\<lparr>origin_cap_rejected := bump kind 1 (origin_cap_rejected s)\<rparr>)"

text \<open>The calls of the observe interface, and a call made on the thread with id hash \<open>h\<close>.\<close>

datatype 'd metric_event =
    HttpRequest string string int 'd
  | CacheResult string
  | KafkaPublish bool
  | KafkaEnqueue bool
  | KafkaProduce bool
  | KafkaDelivery bool
  | LogEnqueue bool
  | OriginCap string bool

fun observe_in :: "'d double_ops \<Rightarrow> 'd metric_event \<Rightarrow> 'd mshard \<Rightarrow> 'd mshard" where
  "observe_in d (HttpRequest meth route status secs) s = observe_http_request d meth route status secs s"
| "observe_in d (CacheResult res) s = observe_cache_result res s"
| "observe_in d (KafkaPublish b) s = observe_kafka_publish b s"
| "observe_in d (KafkaEnqueue b) s = observe_kafka_enqueue b s"
| "observe_in d (KafkaProduce b) s = observe_kafka_produce_accepted b s"
| "observe_in d (KafkaDelivery b) s = observe_kafka_delivery b s"
| "observe_in d (LogEnqueue b) s = observe_log_enqueue b s"
| "observe_in d (OriginCap kind b) s = observe_origin_cap kind b s"

definition shard_for_thread :: "nat \<Rightarrow> nat" where
  "shard_for_thread h = h mod kShardCount"

definition metrics_observe :: "'d double_ops \<Rightarrow> nat \<times> 'd metric_event \<Rightarrow> 'd mshard list \<Rightarrow> 'd mshard list" where
  "metrics_observe d he shards =
     (let i = shard_for_thread (fst he) in shards[i := observe_in d (snd he) (shards ! i)])"

section \<open>Reading\<close>

fun sum_shards :: "('d mshard \<Rightarrow> u64) \<Rightarrow> 'd mshard list \<Rightarrow> u64 \<Rightarrow> u64" where
  "sum_shards f [] tot = tot"
| "sum_shards f (s # shards) tot = sum_shards f shards (tot + f s)"

definition get_kafka_enqueue_dropped :: "'d mshard list \<Rightarrow> u64" where
  "get_kafka_enqueue_dropped shards = sum_shards kafka_enqueue_dropped shards 0"

definition get_kafka_produce_accepted :: "'d mshard list \<Rightarrow> u64" where
  "get_kafka_produce_accepted shards = sum_shards kafka_produce_accepted shards 0"

definition get_kafka_delivered :: "'d mshard list \<Rightarrow> u64" where
  "get_kafka_delivered shards = sum_shards kafka_delivered shards 0"

definition get_log_enqueue_dropped :: "'d mshard list \<Rightarrow> u64" where
  "get_log_enqueue_dropped shards = sum_shards log_enqueue_dropped shards 0"

definition get_origin_cap_rejected :: "string \<Rightarrow> 'd mshard list \<Rightarrow> u64" where
  "get_origin_cap_rejected kind shards =
     sum_shards (\<lambda>s. case map_of (origin_cap_rejected s) kind of None \<Rightarrow> 0 | Some v \<Rightarrow> v) shards 0"

definition reset_shard :: "'d double_ops \<Rightarrow> 'd mshard \<Rightarrow> 'd mshard" where
  "reset_shard d s =
     s\<lparr>http_requests := [], http_latency_buckets := map (\<lambda>_. 0) (http_latency_buckets s), http_latency_count := 0,
       http_latency_sum := dbl_lit d 0, cache_results := [], kafka_publish_success := 0, kafka_publish_failure := 0,
       kafka_enqueue_accepted := 0, kafka_enqueue_dropped := 0, kafka_produce_accepted := 0, kafka_produce_failed := 0,
       kafka_delivered := 0, kafka_delivery_failed := 0, log_enqueue_accepted := 0, log_enqueue_dropped := 0,
       origin_cap_acquired := [], origin_cap_rejected := []\<rparr>"

definition reset_for_test :: "'d double_ops \<Rightarrow> 'd mshard list \<Rightarrow> 'd mshard list" where
  "reset_for_test d shards = map (reset_shard d) shards"

text \<open>The first half of \<open>render_prometheus\<close>: one shard added to the local totals, and all of them.\<close>

definition merge_shard :: "'d double_ops \<Rightarrow> 'd mshard \<Rightarrow> 'd mshard \<Rightarrow> 'd mshard" where
  "merge_shard d acc s =
     \<lparr>http_requests = add_map (http_requests acc) (http_requests s),
      http_latency_buckets = map2 (+) (http_latency_buckets acc) (http_latency_buckets s),
      http_latency_count = http_latency_count acc + http_latency_count s,
      http_latency_sum = dbl_add d (http_latency_sum acc) (http_latency_sum s),
      cache_results = add_map (cache_results acc) (cache_results s),
      kafka_publish_success = kafka_publish_success acc + kafka_publish_success s,
      kafka_publish_failure = kafka_publish_failure acc + kafka_publish_failure s,
      kafka_enqueue_accepted = kafka_enqueue_accepted acc + kafka_enqueue_accepted s,
      kafka_enqueue_dropped = kafka_enqueue_dropped acc + kafka_enqueue_dropped s,
      kafka_produce_accepted = kafka_produce_accepted acc + kafka_produce_accepted s,
      kafka_produce_failed = kafka_produce_failed acc + kafka_produce_failed s,
      kafka_delivered = kafka_delivered acc + kafka_delivered s,
      kafka_delivery_failed = kafka_delivery_failed acc + kafka_delivery_failed s,
      log_enqueue_accepted = log_enqueue_accepted acc + log_enqueue_accepted s,
      log_enqueue_dropped = log_enqueue_dropped acc + log_enqueue_dropped s,
      origin_cap_acquired = add_map (origin_cap_acquired acc) (origin_cap_acquired s),
      origin_cap_rejected = add_map (origin_cap_rejected acc) (origin_cap_rejected s)\<rparr>"

definition metrics_totals :: "'d double_ops \<Rightarrow> 'd mshard list \<Rightarrow> 'd mshard" where
  "metrics_totals d shards = foldl (merge_shard d) (shard_new d) shards"

section \<open>The text\<close>

text \<open>The text uses a line feed and a double quote, which have names here.\<close>

abbreviation lf :: string where "lf \<equiv> [CHR 0x0A]"
abbreviation dq :: string where "dq \<equiv> [CHR 0x22]"

fun escape_label_value :: "string \<Rightarrow> string" where
  "escape_label_value [] = []"
| "escape_label_value (c # s) =
     (if c = CHR 0x5C \<or> c = CHR 0x22 then [CHR 0x5C, c] else [c]) @ escape_label_value s"

text \<open>\<open>labels\<close>, given the entries of the map in key order.\<close>

fun label_items :: "bool \<Rightarrow> (string \<times> string) list \<Rightarrow> string" where
  "label_items is_first [] = []"
| "label_items is_first ((k, v) # ls) =
     (if is_first then [] else '','') @ k @ ''='' @ dq @ escape_label_value v @ dq @ label_items False ls"

definition labels :: "(string \<times> string) list \<Rightarrow> string" where
  "labels ls = (if ls = [] then [] else ''{'' @ label_items True ls @ ''}'')"

definition show_u64 :: "u64 \<Rightarrow> string" where
  "show_u64 v = dec_digits (unat v)"

text \<open>\<open>item.first.find('|', from)\<close> counted from the start of the key.\<close>

fun find_bar :: "string \<Rightarrow> nat \<Rightarrow> nat option" where
  "find_bar [] i = None"
| "find_bar (c # s) i = (if c = CHR ''|'' then Some i else find_bar s (Suc i))"

text \<open>The three pieces of a key.  Where a \<open>find\<close> misses, \<open>npos + 1\<close> is 0 and \<open>substr\<close> takes the rest.\<close>

definition split_key :: "string \<Rightarrow> string \<times> string \<times> string" where
  "split_key key =
     (case find_bar key 0 of
        None \<Rightarrow> (key, key, key)
      | Some i \<Rightarrow>
          (case find_bar (drop (i + 1) key) (i + 1) of
             None \<Rightarrow> (take i key, drop (i + 1) key, key)
           | Some j \<Rightarrow> (take i key, take (j - i - 1) (drop (i + 1) key), drop (j + 1) key)))"

definition sample :: "string \<Rightarrow> (string \<times> string) list \<Rightarrow> u64 \<Rightarrow> string" where
  "sample name ls v = name @ labels ls @ '' '' @ show_u64 v @ lf"

definition heading :: "string \<Rightarrow> string \<Rightarrow> string \<Rightarrow> string" where
  "heading name help kind = ''# HELP '' @ name @ '' '' @ help @ lf @ ''# TYPE '' @ name @ '' '' @ kind @ lf"

definition http_sample :: "string \<times> u64 \<Rightarrow> string" where
  "http_sample item =
     (case split_key (fst item) of
        (meth, route, cls) \<Rightarrow>
          sample ''shorturl_http_requests_total''
            [(''method'', meth), (''route'', route), (''status_class'', cls)] (snd item))"

text \<open>\<open>std::to_string\<close> of a bucket bound: six digits after the point, of which the bound uses three.\<close>

definition bucket_label :: "nat \<Rightarrow> string" where
  "bucket_label ms = dec_digits (ms div 1000) @ ''.'' @ (let f = dec_digits (ms mod 1000) in replicate (3 - length f) CHR ''0'' @ f) @ ''000''"

definition result_pair :: "string \<Rightarrow> string \<Rightarrow> u64 \<Rightarrow> string \<Rightarrow> u64 \<Rightarrow> string" where
  "result_pair name r1 v1 r2 v2 = sample name [(''result'', r1)] v1 @ sample name [(''result'', r2)] v2"

definition render_totals :: "'d double_ops \<Rightarrow> 'd mshard \<Rightarrow> string" where
  "render_totals d t =
     heading ''shorturl_http_requests_total'' ''Total HTTP requests by route and status class.'' ''counter''
   @ concat (map http_sample (http_requests t))
   @ heading ''shorturl_http_request_duration_seconds'' ''HTTP request latency histogram.'' ''histogram''
   @ concat (map (\<lambda>i. sample ''shorturl_http_request_duration_seconds_bucket''
                 [(''le'', bucket_label (kLatencyBuckets ! i))] (http_latency_buckets t ! i))
               [0..<length kLatencyBuckets])
   @ sample ''shorturl_http_request_duration_seconds_bucket'' [(''le'', ''+Inf'')]
       (http_latency_buckets t ! (length (http_latency_buckets t) - 1))
   @ ''shorturl_http_request_duration_seconds_sum '' @ dbl_fixed6 d (http_latency_sum t) @ lf
   @ ''shorturl_http_request_duration_seconds_count '' @ show_u64 (http_latency_count t) @ lf
   @ heading ''shorturl_cache_requests_total'' ''Cache lookups by result.'' ''counter''
   @ concat (map (\<lambda>(k, v). sample ''shorturl_cache_requests_total'' [(''result'', k)] v) (cache_results t))
   @ heading ''shorturl_kafka_publish_total''
       ''Kafka click enqueue on request path (accepted vs dropped/unavailable; not zero-loss).'' ''counter''
   @ result_pair ''shorturl_kafka_publish_total'' ''success'' (kafka_publish_success t) ''failure'' (kafka_publish_failure t)
   @ heading ''shorturl_kafka_enqueue_total'' ''Bounded click-queue enqueue results.'' ''counter''
   @ result_pair ''shorturl_kafka_enqueue_total'' ''accepted'' (kafka_enqueue_accepted t) ''dropped'' (kafka_enqueue_dropped t)
   @ heading ''shorturl_kafka_produce_total'' ''Background rd_kafka_producev accept/fail.'' ''counter''
   @ result_pair ''shorturl_kafka_produce_total'' ''accepted'' (kafka_produce_accepted t) ''failed'' (kafka_produce_failed t)
   @ heading ''shorturl_kafka_delivery_total'' ''Kafka delivery-report callback outcomes.'' ''counter''
   @ result_pair ''shorturl_kafka_delivery_total'' ''success'' (kafka_delivered t) ''failure'' (kafka_delivery_failed t)
   @ heading ''shorturl_log_enqueue_total'' ''Bounded structured-log queue enqueue results.'' ''counter''
   @ result_pair ''shorturl_log_enqueue_total'' ''accepted'' (log_enqueue_accepted t) ''dropped'' (log_enqueue_dropped t)
   @ heading ''shorturl_origin_cap_total'' ''MySQL origin budget acquire results when Redis is down.'' ''counter''
   @ concat (map (\<lambda>(k, v). sample ''shorturl_origin_cap_total'' [(''kind'', k), (''result'', ''acquired'')] v)
               (origin_cap_acquired t))
   @ concat (map (\<lambda>(k, v). sample ''shorturl_origin_cap_total'' [(''kind'', k), (''result'', ''rejected'')] v)
               (origin_cap_rejected t))"

definition render_prometheus :: "'d double_ops \<Rightarrow> 'd mshard list \<Rightarrow> string" where
  "render_prometheus d shards = render_totals d (metrics_totals d shards)"

section \<open>Adding up maps and arrays\<close>

lemma bump_commute: "bump k n (bump k' n' m) = bump k' n' (bump k n m)"
proof (induction m)
  case Nil
  then show ?case by (auto simp: add.commute)
next
  case (Cons x m)
  then show ?case by (cases x) (auto simp: ac_simps)
qed

lemma bump_bump [simp]: "bump k n (bump k v m) = bump k (v + n) m"
  by (induction k v m rule: bump.induct) (auto simp: ac_simps)

lemma add_map_bump_left: "add_map (bump k n dst) src = bump k n (add_map dst src)"
proof (induction dst src rule: add_map.induct)
  case (2 dst k' v src)
  then show ?case by (simp add: bump_commute [of k'] )
qed simp

lemma add_map_bump_right: "add_map dst (bump k n src) = bump k n (add_map dst src)"
proof (induction src arbitrary: dst)
  case (Cons x src)
  obtain k' v where x: "x = (k', v)" by fastforce
  show ?case
  proof (cases "k = k'")
    case True
    then show ?thesis by (simp add: x flip: add_map_bump_left)
  next
    case False
    with Cons.IH show ?thesis by (simp add: x flip: add_map_bump_left) (simp add: bump_commute)
  qed
qed simp

lemma map2_incr_right:
  "length as = length bs \<Longrightarrow> map2 (+) as (incr_at i bs) = incr_at i (map2 (+) as bs)"
  by (cases "i < length bs"; rule nth_equalityI) (auto simp: incr_at_def nth_list_update)

lemma map2_incr_left:
  "length as = length bs \<Longrightarrow> map2 (+) (incr_at i as) bs = incr_at i (map2 (+) as bs)"
  by (cases "i < length bs"; rule nth_equalityI) (auto simp: incr_at_def nth_list_update)

lemma length_incr_at [simp]: "length (incr_at i bs) = length bs"
  by (simp add: incr_at_def)

lemma length_fold_incr [simp]: "length (fold (\<lambda>i bs. if P i then incr_at i bs else bs) is bs) = length bs"
  by (induction "is" arbitrary: bs) auto

lemma length_observe_latency [simp]: "length (observe_latency d secs bs) = length bs"
  by (simp add: observe_latency_def)

lemma map2_fold_incr:
  assumes "length as = length bs"
  shows "map2 (+) as (fold (\<lambda>i bs. if P i then incr_at i bs else bs) js bs)
         = fold (\<lambda>i bs. if P i then incr_at i bs else bs) js (map2 (+) as bs)"
    and "map2 (+) (fold (\<lambda>i bs. if P i then incr_at i bs else bs) js as) bs
         = fold (\<lambda>i bs. if P i then incr_at i bs else bs) js (map2 (+) as bs)"
  using assms by (induction js arbitrary: as bs) (auto simp: map2_incr_left map2_incr_right)

lemma map2_observe_latency:
  assumes "length as = length bs"
  shows "map2 (+) as (observe_latency d secs bs) = observe_latency d secs (map2 (+) as bs)"
    and "map2 (+) (observe_latency d secs as) bs = observe_latency d secs (map2 (+) as bs)"
  using assms by (simp_all add: observe_latency_def map2_incr_right map2_incr_left map2_fold_incr)

section \<open>Sharding is invisible\<close>

text \<open>A shard without the one value whose order of summation shows: the floating-point latency sum.\<close>

definition no_sum :: "'d \<Rightarrow> 'd mshard \<Rightarrow> 'd mshard" where
  "no_sum z s = s\<lparr>http_latency_sum := z\<rparr>"

lemmas observe_defs = observe_http_request_def observe_cache_result_def observe_kafka_publish_def
  observe_kafka_enqueue_def observe_kafka_produce_accepted_def observe_kafka_delivery_def observe_log_enqueue_def
  observe_origin_cap_def

lemma no_sum_observe: "no_sum z (observe_in d e (no_sum z s)) = no_sum z (observe_in d e s)"
  by (cases e) (simp_all add: observe_defs no_sum_def)

lemma no_sum_merge: "no_sum z (merge_shard d (no_sum z a) s) = no_sum z (merge_shard d a s)"
  by (simp add: merge_shard_def no_sum_def)

lemma observe_buckets_length [simp]:
  "length (http_latency_buckets (observe_in d e s)) = length (http_latency_buckets s)"
  by (cases e) (simp_all add: observe_defs)

lemmas merge_simps = merge_shard_def observe_defs no_sum_def add_map_bump_right add_map_bump_left map2_observe_latency
  ac_simps

lemma merge_observe_right:
  "length (http_latency_buckets a) = length (http_latency_buckets s) \<Longrightarrow>
     no_sum z (merge_shard d a (observe_in d e s)) = no_sum z (observe_in d e (merge_shard d a s))"
  by (cases e) (auto simp: merge_simps)

lemma merge_observe_left:
  "length (http_latency_buckets a) = length (http_latency_buckets s) \<Longrightarrow>
     no_sum z (merge_shard d (observe_in d e a) s) = no_sum z (observe_in d e (merge_shard d a s))"
  by (cases e) (auto simp: merge_simps)

definition shards_ok :: "'d mshard list \<Rightarrow> bool" where
  "shards_ok shards \<longleftrightarrow> list_all (\<lambda>s. length (http_latency_buckets s) = 13) shards"

lemma totals_length [simp]:
  "shards_ok shards \<Longrightarrow> length (http_latency_buckets (metrics_totals d shards)) = 13"
  by (induction shards rule: rev_induct)
    (simp_all add: metrics_totals_def shard_new_def merge_shard_def shards_ok_def)

lemma totals_observe:
  assumes "shards_ok shards" "i < length shards"
  shows "no_sum z (metrics_totals d (shards[i := observe_in d e (shards ! i)]))
         = no_sum z (observe_in d e (metrics_totals d shards))"
  using assms
proof (induction shards rule: rev_induct)
  case (snoc s shards)
  then have ok: "shards_ok shards" "length (http_latency_buckets s) = 13" by (simp_all add: shards_ok_def)
  show ?case
  proof (cases "i < length shards")
    case True
    then have "no_sum z (merge_shard d (metrics_totals d (shards[i := observe_in d e (shards ! i)])) s)
      = no_sum z (merge_shard d (no_sum z (observe_in d e (metrics_totals d shards))) s)"
      using snoc.IH [OF ok(1)] no_sum_merge by metis
    also have "\<dots> = no_sum z (observe_in d e (merge_shard d (metrics_totals d shards) s))"
      using ok by (simp add: no_sum_merge merge_observe_left)
    finally show ?thesis using True by (simp add: metrics_totals_def list_update_append nth_append)
  next
    case False
    then have "i = length shards" using snoc.prems by simp
    moreover have "no_sum z (merge_shard d (metrics_totals d shards) (observe_in d e s))
      = no_sum z (observe_in d e (merge_shard d (metrics_totals d shards) s))"
      using ok by (simp add: merge_observe_right)
    ultimately show ?thesis by (simp add: metrics_totals_def)
  qed
qed simp

lemma shards_ok_observe [wf_intros]: "shards_ok shards \<Longrightarrow> shards_ok (metrics_observe d he shards)"
proof (cases "shard_for_thread (fst he) < length shards")
  case True
  assume "shards_ok shards"
  with True show ?thesis
    by (auto simp: metrics_observe_def shards_ok_def Let_def list_all_length nth_list_update)
qed (simp add: metrics_observe_def Let_def list_update_beyond)

lemma length_observe [simp]: "length (metrics_observe d he shards) = length shards"
  by (simp add: metrics_observe_def Let_def)

lemma shard_for_thread_less: "shard_for_thread h < kShardCount"
  by (simp add: shard_for_thread_def kShardCount_def)

lemma totals_run:
  assumes "shards_ok shards" "length shards = kShardCount"
  shows "no_sum z (metrics_totals d (fold (metrics_observe d) evs shards))
         = no_sum z (fold (observe_in d) (map snd evs) (metrics_totals d shards))"
  using assms
proof (induction evs arbitrary: shards)
  case (Cons he evs)
  have one: "no_sum z (metrics_totals d (metrics_observe d he shards))
      = no_sum z (observe_in d (snd he) (metrics_totals d shards))"
    using totals_observe [OF Cons.prems(1)] shard_for_thread_less Cons.prems(2)
    by (simp add: metrics_observe_def Let_def)
  have cong: "no_sum z (fold (observe_in d) es x) = no_sum z (fold (observe_in d) es y)"
    if "no_sum z x = no_sum z y" for es x y
    using that by (induction es arbitrary: x y) (simp, metis fold_simps(2) no_sum_observe)
  show ?case using Cons.IH [of "metrics_observe d he shards"] Cons.prems cong [OF one] by (simp add: wf_intros)
qed simp

section \<open>Counts\<close>

definition value_at :: "counts \<Rightarrow> string \<Rightarrow> u64" where
  "value_at m k = (case map_of m k of None \<Rightarrow> 0 | Some v \<Rightarrow> v)"

definition keys_sorted :: "counts \<Rightarrow> bool" where
  "keys_sorted m \<longleftrightarrow> sorted_wrt (<) (map fst m)"

lemma bump_keys: "fst ` set (bump k n m) = insert k (fst ` set m)"
  by (induction k n m rule: bump.induct) auto

lemma keys_sorted_bump [wf_intros]: "keys_sorted m \<Longrightarrow> keys_sorted (bump k n m)"
proof (induction m)
  case (Cons x m)
  obtain k' v where x: "x = (k', v)" by fastforce
  from Cons.prems have *: "keys_sorted m" "\<forall>j \<in> fst ` set m. k' < j" by (auto simp: keys_sorted_def x)
  show ?case
  proof (cases "k \<le> k'")
    case True
    with Cons.prems * show ?thesis by (auto simp: keys_sorted_def x)
  next
    case False
    with Cons.IH [OF *(1)] * bump_keys [of k n m] show ?thesis by (auto simp: keys_sorted_def x)
  qed
qed (simp add: keys_sorted_def)

lemma value_at_bump: "keys_sorted m \<Longrightarrow> value_at (bump k n m) k' = value_at m k' + (if k = k' then n else 0)"
proof (induction k n m rule: bump.induct)
  case (2 k n h v m)
  then have "keys_sorted m" "\<forall>j \<in> fst ` set m. h < j" by (auto simp: keys_sorted_def)
  moreover from this have "map_of m k = None" if "k < h" using that by (force simp: map_of_eq_None_iff)
  ultimately show ?case using "2.IH" by (auto simp: value_at_def)
qed (simp add: value_at_def)

fun is_request :: "string \<Rightarrow> 'd metric_event \<Rightarrow> bool" where
  "is_request key (HttpRequest meth route status secs) = (http_key meth route status = key)"
| "is_request key _ = False"

definition occurs :: "('a \<Rightarrow> bool) \<Rightarrow> 'a list \<Rightarrow> u64" where
  "occurs P es = of_nat (length (filter P es))"

lemma occurs_simps [simp]: "occurs P [] = 0" "occurs P (e # es) = (if P e then 1 else 0) + occurs P es"
  by (simp_all add: occurs_def)

lemma reference_counts:
  "keys_sorted (http_requests s) \<Longrightarrow>
   value_at (http_requests (fold (observe_in d) es s)) key = value_at (http_requests s) key + occurs (is_request key) es"
proof (induction es arbitrary: s)
  case (Cons e es)
  have "keys_sorted (http_requests (observe_in d e s)) \<and>
    value_at (http_requests (observe_in d e s)) key = value_at (http_requests s) key + (if is_request key e then 1 else 0)"
    using Cons.prems by (cases e) (simp_all add: observe_defs keys_sorted_bump value_at_bump)
  with Cons.IH show ?case by simp
qed simp

lemma reference_counters:
  "http_latency_count (fold (observe_in d) es s)
     = http_latency_count s + occurs (\<lambda>e. \<exists>m r st secs. e = HttpRequest m r st secs) es"
  "kafka_enqueue_dropped (fold (observe_in d) es s) = kafka_enqueue_dropped s + occurs (\<lambda>e. e = KafkaEnqueue False) es"
  "kafka_produce_accepted (fold (observe_in d) es s) = kafka_produce_accepted s + occurs (\<lambda>e. e = KafkaProduce True) es"
  "kafka_delivered (fold (observe_in d) es s) = kafka_delivered s + occurs (\<lambda>e. e = KafkaDelivery True) es"
  "log_enqueue_dropped (fold (observe_in d) es s) = log_enqueue_dropped s + occurs (\<lambda>e. e = LogEnqueue False) es"
proof (induction es arbitrary: s)
  case (Cons e es)
  { case 1 show ?case using Cons.IH(1) by (cases e) (simp_all add: observe_defs) }
  { case 2 show ?case using Cons.IH(2) by (cases e) (simp_all add: observe_defs) }
  { case 3 show ?case using Cons.IH(3) by (cases e) (simp_all add: observe_defs) }
  { case 4 show ?case using Cons.IH(4) by (cases e) (simp_all add: observe_defs) }
  { case 5 show ?case using Cons.IH(5) by (cases e) (simp_all add: observe_defs) }
qed simp_all

lemma sum_shards_sum: "sum_shards f shards t = t + sum_list (map f shards)"
  by (induction f shards t rule: sum_shards.induct) (simp_all add: ac_simps)

lemma getters_totals:
  "get_kafka_enqueue_dropped shards = kafka_enqueue_dropped (metrics_totals d shards)"
  "get_kafka_produce_accepted shards = kafka_produce_accepted (metrics_totals d shards)"
  "get_kafka_delivered shards = kafka_delivered (metrics_totals d shards)"
  "get_log_enqueue_dropped shards = log_enqueue_dropped (metrics_totals d shards)"
  by (induction shards rule: rev_induct)
    (simp_all add: get_kafka_enqueue_dropped_def get_kafka_produce_accepted_def get_kafka_delivered_def
      get_log_enqueue_dropped_def metrics_totals_def shard_new_def sum_shards_sum merge_shard_def)

lemma totals_new: "no_sum z (metrics_totals d (metrics_new d)) = no_sum z (shard_new d)"
  by (simp add: metrics_totals_def metrics_new_def kShardCount_def numeral_eq_Suc merge_shard_def shard_new_def no_sum_def)

lemma metrics_new_ok: "shards_ok (metrics_new d)" "length (metrics_new d) = kShardCount"
  by (simp_all add: metrics_new_def shards_ok_def shard_new_def list_all_length)

lemma scrape_reference:
  "no_sum z (metrics_totals d (fold (metrics_observe d) evs (metrics_new d)))
     = no_sum z (fold (observe_in d) (map snd evs) (shard_new d))"
proof -
  have "no_sum z (fold (observe_in d) es x) = no_sum z (fold (observe_in d) es y)"
    if "no_sum z x = no_sum z y" for es x y
    using that by (induction es arbitrary: x y) (simp, metis fold_simps(2) no_sum_observe)
  then show ?thesis using totals_run [OF metrics_new_ok] totals_new by metis
qed

text \<open>C32: Sharding does not show.  Whatever calls are made on whatever threads, the totals a scrape computes are
  those of one registry that saw the same calls in the same order, but for the floating-point latency sum; so a
  scrape counts each class of requests, and the getters each kind of event, exactly as often as it was observed.\<close>

theorem sharding_invisible:
  fixes d :: "'d double_ops" and evs :: "(nat \<times> 'd metric_event) list"
  shows
  "no_sum z (metrics_totals d (fold (metrics_observe d) evs (metrics_new d)))
     = no_sum z (fold (observe_in d) (map snd evs) (shard_new d))
   \<and> value_at (http_requests (metrics_totals d (fold (metrics_observe d) evs (metrics_new d)))) key
     = occurs (is_request key) (map snd evs)
   \<and> get_kafka_enqueue_dropped (fold (metrics_observe d) evs (metrics_new d)) = occurs (\<lambda>e. e = KafkaEnqueue False) (map snd evs)
   \<and> get_kafka_produce_accepted (fold (metrics_observe d) evs (metrics_new d)) = occurs (\<lambda>e. e = KafkaProduce True) (map snd evs)
   \<and> get_kafka_delivered (fold (metrics_observe d) evs (metrics_new d)) = occurs (\<lambda>e. e = KafkaDelivery True) (map snd evs)
   \<and> get_log_enqueue_dropped (fold (metrics_observe d) evs (metrics_new d)) = occurs (\<lambda>e. e = LogEnqueue False) (map snd evs)"
proof -
  let ?t = "metrics_totals d (fold (metrics_observe d) evs (metrics_new d))"
  let ?r = "fold (observe_in d) (map snd evs) (shard_new d)"
  have eq: "no_sum z ?t = no_sum z ?r" by (rule scrape_reference)
  have f: "f ?t = f ?r" if "\<And>s. f (no_sum z s) = f s" for f :: "'d mshard \<Rightarrow> 'x"
    using that eq by metis
  have "value_at (http_requests ?t) key = value_at (http_requests ?r) key"
    "kafka_enqueue_dropped ?t = kafka_enqueue_dropped ?r" "kafka_produce_accepted ?t = kafka_produce_accepted ?r"
    "kafka_delivered ?t = kafka_delivered ?r" "log_enqueue_dropped ?t = log_enqueue_dropped ?r"
    by (rule f, simp add: no_sum_def)+
  moreover have "value_at (http_requests ?r) key = occurs (is_request key) (map snd evs)"
    using reference_counts [of "shard_new d"] by (simp add: shard_new_def keys_sorted_def value_at_def)
  ultimately show ?thesis
    using eq by (simp add: getters_totals [of _ d] reference_counters shard_new_def)
qed

text \<open>The labels of a request sample are the method, the route and the class it was counted under, when neither
  the method nor the route contains a bar; and escaping a label value loses nothing.\<close>

lemma find_bar_append: "CHR ''|'' \<notin> set s \<Longrightarrow> find_bar (s @ CHR ''|'' # t) i = Some (i + length s)"
  by (induction s arbitrary: i) auto

lemma split_http_key:
  assumes "CHR ''|'' \<notin> set meth" "CHR ''|'' \<notin> set route"
  shows "split_key (http_key meth route status) = (meth, route, status_class status)"
  using find_bar_append [OF assms(1), of "route @ CHR ''|'' # status_class status" 0]
    find_bar_append [OF assms(2), of "status_class status" "Suc (length meth)"]
  by (simp add: split_key_def http_key_def)

fun unescape_label :: "string \<Rightarrow> string" where
  "unescape_label [] = []"
| "unescape_label [c] = [c]"
| "unescape_label (c # c' # s) = (if c = CHR 0x5C then c' # unescape_label s else c # unescape_label (c' # s))"

lemma unescape_escape [simp]: "unescape_label (escape_label_value s) = s"
proof (induction s)
  case (Cons c s)
  then show ?case by (cases "escape_label_value s") auto
qed simp

end
