(* ===== verification/Structured_Logger.thy ===== *)
theory Structured_Logger
  imports Config Http_Message Log Bounded_Fifo
begin

text \<open>
  \<open>src/observability/structured_logger.h\<close> and \<open>structured_logger.cpp\<close>: the access log.  Request threads
  build a line and put it in a bounded queue; one thread writes the lines to the file.

  The clock, the printed duration and what the file system does are arguments.  \<open>sl_file\<close> is what has been
  appended to the file, \<open>sl_open\<close> and \<open>sl_good\<close> are \<open>is_open()\<close> and \<open>operator bool\<close> of the worker's stream,
  and \<open>sl_metrics\<close> lists the calls of \<open>observe_log_enqueue\<close>, newest first.
\<close>

section \<open>State\<close>

record slogger =
  sl_enabled :: bool
  sl_path :: string
  sl_max_queue :: nat
  sl_shutdown_timeout_ms :: int
  sl_queue :: "string list"
  sl_accepting :: bool
  sl_stop :: bool
  sl_worker :: bool
  sl_open :: bool
  sl_good :: bool
  sl_file :: string
  sl_mkdirs :: "string list"
  sl_metrics :: "bool list"

definition slogger_new :: slogger where
  "slogger_new =
     \<lparr>sl_enabled = True, sl_path = ''./logs/access.jsonl'', sl_max_queue = 8192, sl_shutdown_timeout_ms = 1000,
      sl_queue = [], sl_accepting = False, sl_stop = True, sl_worker = False, sl_open = False, sl_good = True,
      sl_file = [], sl_mkdirs = [], sl_metrics = []\<rparr>"

definition observe_log :: "bool \<Rightarrow> slogger \<Rightarrow> slogger" where
  "observe_log b l = l\<lparr>sl_metrics := b # sl_metrics l\<rparr>"

section \<open>The line\<close>

fun json_escape :: "string \<Rightarrow> string" where
  "json_escape [] = []"
| "json_escape (c # s) =
     (if c = CHR 0x5C then [CHR 0x5C, CHR 0x5C]
      else if c = CHR 0x22 then [CHR 0x5C, CHR 0x22]
      else if c = CHR 0x0A then [CHR 0x5C, CHR ''n'']
      else if c = CHR 0x0D then [CHR 0x5C, CHR ''r'']
      else if c = CHR 0x09 then [CHR 0x5C, CHR ''t'']
      else [c]) @ json_escape s"

definition now_iso8601 :: "log_tm \<Rightarrow> int \<Rightarrow> string" where
  "now_iso8601 tm millis =
     to_string (tm_year tm + 1900) @ ''-'' @ pad 2 (tm_mon tm + 1) @ ''-'' @ pad 2 (tm_mday tm) @ ''T''
     @ pad 2 (tm_hour tm) @ '':'' @ pad 2 (tm_min tm) @ '':'' @ pad 2 (tm_sec tm) @ ''.'' @ pad 3 millis"

text \<open>A text field \<open>"name":"value"\<close> of the line.\<close>

definition json_field :: "string \<Rightarrow> string \<Rightarrow> string" where
  "json_field name v = [CHR 0x22] @ name @ [CHR 0x22] @ '':'' @ [CHR 0x22] @ v @ [CHR 0x22]"

definition access_line :: "http_request \<Rightarrow> int \<Rightarrow> string \<Rightarrow> string \<Rightarrow> string \<Rightarrow> string" where
  "access_line req status duration remote_addr now =
     ''{'' @ json_field ''ts'' now @ '',''
     @ json_field ''event'' ''http_access'' @ '',''
     @ json_field ''method'' (json_escape (req_method req)) @ '',''
     @ json_field ''path'' (json_escape (req_path req)) @ '',''
     @ json_field ''route'' (json_escape (route_pattern req)) @ '',''
     @ [CHR 0x22] @ ''status'' @ [CHR 0x22] @ '':'' @ to_string status @ '',''
     @ [CHR 0x22] @ ''duration_ms'' @ [CHR 0x22] @ '':'' @ duration @ '',''
     @ json_field ''remote_addr'' (json_escape remote_addr) @ '',''
     @ json_field ''user_agent'' (json_escape (header_or_empty req ''User-Agent''))
     @ ''}'' @ [CHR 0x0A]"

section \<open>The request path\<close>

definition slog_enqueue :: "string \<Rightarrow> slogger \<Rightarrow> bool \<times> slogger" where
  "slog_enqueue line l =
     (if \<not> sl_accepting l \<or> length (sl_queue l) \<ge> sl_max_queue l then (False, l)
      else (True, l\<lparr>sl_queue := sl_queue l @ [line]\<rparr>))"

definition log_access :: "http_request \<Rightarrow> int \<Rightarrow> string \<Rightarrow> string \<Rightarrow> string \<Rightarrow> slogger \<Rightarrow> slogger" where
  "log_access req status duration remote_addr now l =
     (if \<not> sl_enabled l \<or> sl_path l = [] \<or> \<not> sl_accepting l then l
      else case slog_enqueue (access_line req status duration remote_addr now) l of
             (False, l') \<Rightarrow> observe_log False l'
           | (True, l') \<Rightarrow> observe_log True l')"

section \<open>The worker\<close>

text \<open>What the file system does in a turn: whether an \<open>open\<close> succeeds, and how many bytes of a line reach the file
  when writing it fails.\<close>

record disk =
  disk_open :: bool
  disk_short :: "nat option"

definition open_file :: "disk \<Rightarrow> slogger \<Rightarrow> slogger" where
  "open_file d l = l\<lparr>sl_open := disk_open d, sl_good := disk_open d\<rparr>"

definition write_line :: "disk \<Rightarrow> string \<Rightarrow> slogger \<Rightarrow> slogger" where
  "write_line d line l =
     (case disk_short d of
        None \<Rightarrow> l\<lparr>sl_file := sl_file l @ line\<rparr>
      | Some n \<Rightarrow> l\<lparr>sl_file := sl_file l @ take n line, sl_good := False\<rparr>)"

datatype slog_turn = SlBlocked | SlLeft | SlContinues

definition slog_worker_turn :: "disk \<Rightarrow> slogger \<Rightarrow> slog_turn \<times> slogger" where
  "slog_worker_turn d l =
     (case sl_queue l of
        [] \<Rightarrow> if sl_stop l then (SlLeft, if sl_open l then l\<lparr>sl_open := False\<rparr> else l) else (SlBlocked, l)
      | line # q \<Rightarrow>
          (let l1 = l\<lparr>sl_queue := q\<rparr>; l2 = (if \<not> sl_open l1 then open_file d l1 else l1)
           in (SlContinues, if sl_good l2 then write_line d line l2 else l2)))"

text \<open>The worker until it leaves, as \<open>join\<close> waits for it; \<open>None\<close> is a thread that has not left after the turns
  given.\<close>

fun slog_worker_run :: "disk list \<Rightarrow> slogger \<Rightarrow> slogger option" where
  "slog_worker_run [] l = None"
| "slog_worker_run (d # ds) l =
     (case slog_worker_turn d l of (SlLeft, l') \<Rightarrow> Some l' | (_, l') \<Rightarrow> slog_worker_run ds l')"

section \<open>Start and stop\<close>

definition slog_stop :: "slogger \<Rightarrow> slogger" where
  "slog_stop l = l\<lparr>sl_accepting := False, sl_stop := True\<rparr>"

definition slog_after_join :: "slogger \<Rightarrow> slogger" where
  "slog_after_join l =
     (fold (\<lambda>_. observe_log False) (sl_queue l) (l\<lparr>sl_worker := False\<rparr>))\<lparr>sl_queue := []\<rparr>"

definition slog_shutdown :: "disk list \<Rightarrow> slogger \<Rightarrow> slogger option" where
  "slog_shutdown ds l =
     (if sl_worker l then map_option slog_after_join (slog_worker_run ds (slog_stop l))
      else Some (slog_after_join (slog_stop l)))"

text \<open>\<open>init\<close> after the \<open>shutdown\<close> it begins with; \<open>d\<close> decides the \<open>open\<close> at the start of the worker.\<close>

definition slog_init :: "config \<Rightarrow> disk \<Rightarrow> slogger \<Rightarrow> slogger" where
  "slog_init cfg d l =
     (let l1 = l\<lparr>sl_enabled := structured_log_enabled cfg, sl_path := structured_log_path cfg,
                 sl_max_queue := nat (max 1 (structured_log_queue_size cfg)),
                 sl_shutdown_timeout_ms := max 0 (structured_log_shutdown_timeout_ms cfg)\<rparr>;
          l2 = (if sl_path l1 \<noteq> [] \<and> starts_with (sl_path l1) ''./logs/''
                then l1\<lparr>sl_mkdirs := ''./logs'' # sl_mkdirs l1\<rparr> else l1)
      in if \<not> sl_enabled l2 \<or> sl_path l2 = [] then l2
         else open_file d (l2\<lparr>sl_stop := False, sl_accepting := True, sl_worker := True\<rparr>))"

definition slog_init_for_test :: "nat \<Rightarrow> string \<Rightarrow> bool \<Rightarrow> disk \<Rightarrow> slogger \<Rightarrow> slogger" where
  "slog_init_for_test queue_size path start_worker d l =
     (let l1 = l\<lparr>sl_enabled := True, sl_path := (if path = [] then ''/dev/null'' else path),
                 sl_max_queue := max 1 queue_size, sl_shutdown_timeout_ms := 500, sl_queue := [],
                 sl_stop := \<not> start_worker, sl_accepting := True\<rparr>
      in if start_worker then open_file d (l1\<lparr>sl_worker := True\<rparr>) else l1)"

section \<open>The queue contract\<close>

definition slog_take :: "slogger \<Rightarrow> (string \<times> slogger) option" where
  "slog_take l = (case sl_queue l of [] \<Rightarrow> None | line # q \<Rightarrow> Some (line, l\<lparr>sl_queue := q\<rparr>))"

interpretation sq: bounded_fifo slog_enqueue slog_take sl_queue sl_max_queue sl_accepting "\<lambda>_. True"
  by unfold_locales (auto simp: slog_enqueue_def slog_take_def)

section \<open>Lines cannot be forged\<close>

text \<open>Reading a JSON string literal back: up to the first quote that no backslash precedes.\<close>

definition unescape_char :: "char \<Rightarrow> char" where
  "unescape_char c = (if c = CHR ''n'' then CHR 0x0A else if c = CHR ''r'' then CHR 0x0D else if c = CHR ''t'' then CHR 0x09 else c)"

fun scan_string :: "string \<Rightarrow> (string \<times> string) option" where
  "scan_string [] = None"
| "scan_string [c] = (if c = CHR 0x22 then Some ([], []) else None)"
| "scan_string (c # c' # s) =
     (if c = CHR 0x22 then Some ([], c' # s)
      else if c = CHR 0x5C then map_option (\<lambda>(v, rest). (unescape_char c' # v, rest)) (scan_string s)
      else map_option (\<lambda>(v, rest). (c # v, rest)) (scan_string (c' # s)))"

lemma scan_plain:
  "c \<noteq> CHR 0x22 \<Longrightarrow> c \<noteq> CHR 0x5C \<Longrightarrow> s \<noteq> [] \<Longrightarrow>
     scan_string (c # s) = map_option (\<lambda>(v, rest). (c # v, rest)) (scan_string s)"
  by (cases s) simp_all

lemma scan_json_escape: "scan_string (json_escape v @ CHR 0x22 # rest) = Some (v, rest)"
proof (induction v)
  case Nil
  then show ?case by (cases rest) simp_all
next
  case (Cons c v)
  then show ?case by (simp add: scan_plain unescape_char_def)
qed

lemma json_escape_no_lf: "CHR 0x0A \<notin> set (json_escape v)"
  by (induction v) auto

lemma to_string_no_lf: "CHR 0x0A \<notin> set (to_string i)"
proof -
  have "\<not> is_digit (CHR 0x0A)" by (simp add: is_digit_def)
  then have "CHR 0x0A \<notin> set (dec_digits n)" for n using dec_digits_are_digits by blast
  then show ?thesis by (simp add: to_string_def)
qed

lemma now_iso8601_no_lf: "CHR 0x0A \<notin> set (now_iso8601 tm millis)"
  by (simp add: now_iso8601_def pad_def Let_def to_string_no_lf)

lemma access_line_one_lf:
  "CHR 0x0A \<notin> set duration \<Longrightarrow> CHR 0x0A \<notin> set now \<Longrightarrow>
     access_line req status duration remote now = butlast (access_line req status duration remote now) @ [CHR 0x0A]
     \<and> CHR 0x0A \<notin> set (butlast (access_line req status duration remote now))"
  by (simp add: access_line_def json_field_def butlast_append json_escape_no_lf to_string_no_lf)

section \<open>Accounting\<close>

text \<open>A request that has been served, with what its line is made of, or a turn of the worker.\<close>

datatype slog_op = LogAccess http_request int string string string | SlTurn disk

definition disk_ok :: "disk \<Rightarrow> bool" where
  "disk_ok d \<longleftrightarrow> disk_open d \<and> disk_short d = None"

fun op_disk_ok :: "slog_op \<Rightarrow> bool" where
  "op_disk_ok (SlTurn d) = disk_ok d"
| "op_disk_ok (LogAccess _ _ _ _ _) = True"

text \<open>A run, with the lines the queue accepted and those it refused.\<close>

fun slog_run :: "slog_op list \<Rightarrow> slogger \<Rightarrow> string list \<times> string list \<times> slogger" where
  "slog_run [] l = ([], [], l)"
| "slog_run (SlTurn d # ops) l = slog_run ops (snd (slog_worker_turn d l))"
| "slog_run (LogAccess req status duration remote now # ops) l =
     (case slog_run ops (log_access req status duration remote now l) of
        (acc, refused, l') \<Rightarrow>
          (let line = access_line req status duration remote now
           in if \<not> sl_enabled l \<or> sl_path l = [] \<or> \<not> sl_accepting l then (acc, refused, l')
              else if fst (slog_enqueue line l) then (line # acc, refused, l') else (acc, line # refused, l')))"

definition slog_ok :: "slogger \<Rightarrow> bool" where
  "slog_ok l \<longleftrightarrow> (sl_open l \<longrightarrow> sl_good l) \<and> length (sl_queue l) \<le> sl_max_queue l \<and> (sl_accepting l \<longrightarrow> sl_worker l)
     \<and> (sl_worker l \<or> sl_queue l = [])"

lemma worker_turn_ok:
  assumes "slog_ok l" "disk_ok d" "slog_worker_turn d l = (r, l')"
  shows "slog_ok l'" "sl_file l' @ concat (sl_queue l') = sl_file l @ concat (sl_queue l)" "sl_metrics l' = sl_metrics l"
    "sl_stop l' = sl_stop l" "sl_queue l' = tl (sl_queue l)"
  using assms
  by (auto simp: slog_worker_turn_def slog_ok_def disk_ok_def open_file_def write_line_def Let_def
      split: list.splits if_splits)

lemma log_access_ok:
  assumes "slog_ok l"
  shows "slog_ok (log_access req status duration remote now l)"
  using assms by (auto simp: log_access_def slog_enqueue_def slog_ok_def observe_log_def)

text \<open>Nothing is lost on the way: what is in the file and in the queue grows by the accepted lines.\<close>

lemma slog_run_conserves:
  assumes "slog_ok l" "list_all op_disk_ok ops" "slog_run ops l = (acc, refused, l')"
  shows "slog_ok l' \<and> sl_file l' @ concat (sl_queue l') = sl_file l @ concat (sl_queue l) @ concat acc
    \<and> count_list (sl_metrics l') True = count_list (sl_metrics l) True + length acc
    \<and> count_list (sl_metrics l') False = count_list (sl_metrics l) False + length refused"
  using assms
proof (induction ops l arbitrary: acc refused l' rule: slog_run.induct)
  case (2 d ops l)
  obtain r l1 where t: "slog_worker_turn d l = (r, l1)" by fastforce
  have d: "disk_ok d" "list_all op_disk_ok ops" using "2.prems"(2) by simp_all
  note w = worker_turn_ok [OF "2.prems"(1) d(1) t]
  have "slog_run ops (snd (slog_worker_turn d l)) = (acc, refused, l')" using "2.prems"(3) by simp
  from "2.IH" [OF _ d(2) this] w show ?case by (simp add: t)
next
  case (3 req status duration remote now ops l)
  let ?l = "log_access req status duration remote now l"
  obtain acc1 ref1 l1 where r: "slog_run ops ?l = (acc1, ref1, l1)" by (metis prod_cases3)
  have "slog_ok l1 \<and> sl_file l1 @ concat (sl_queue l1) = sl_file ?l @ concat (sl_queue ?l) @ concat acc1
    \<and> count_list (sl_metrics l1) True = count_list (sl_metrics ?l) True + length acc1
    \<and> count_list (sl_metrics l1) False = count_list (sl_metrics ?l) False + length ref1"
    using "3.IH" [OF log_access_ok [OF "3.prems"(1)] _ r] "3.prems"(2) by simp
  with "3.prems"(3) r show ?case
    by (auto simp: log_access_def slog_enqueue_def observe_log_def Let_def split: if_splits)
qed simp

lemma drain_run:
  assumes "slog_ok l" "sl_stop l" "list_all disk_ok ds" "length (sl_queue l) < length ds"
  shows "\<exists>l'. slog_worker_run ds l = Some l' \<and> sl_queue l' = [] \<and> sl_file l' = sl_file l @ concat (sl_queue l)
    \<and> sl_metrics l' = sl_metrics l"
  using assms
proof (induction ds arbitrary: l)
  case (Cons d ds)
  note prems = Cons.prems(2,4) and IH = Cons.IH
  obtain r l1 where t: "slog_worker_turn d l = (r, l1)" by fastforce
  have d: "disk_ok d" and ds: "list_all disk_ok ds" using Cons.prems(3) by simp_all
  note w = worker_turn_ok [OF Cons.prems(1) d t]
  show ?case
  proof (cases "sl_queue l")
    case Nil
    with t prems(1) have "r = SlLeft" by (auto simp: slog_worker_turn_def)
    moreover have "sl_queue l1 = []" "sl_file l1 = sl_file l" using w(2,5) Nil by simp_all
    ultimately show ?thesis using Nil t w(3) by simp
  next
    case (Cons line q)
    then have "r = SlContinues" using t by (auto simp: slog_worker_turn_def Let_def)
    moreover have "length (sl_queue l1) < length ds" "sl_stop l1" using w(4,5) Cons prems by simp_all
    note IH [OF w(1) this(2) ds this(1)]
    ultimately show ?thesis using t w(2,3) by auto
  qed
qed simp

lemma slog_init_ok:
  assumes "disk_ok d"
  shows "slog_ok (slog_init cfg d slogger_new) \<and> sl_queue (slog_init cfg d slogger_new) = []
    \<and> sl_file (slog_init cfg d slogger_new) = [] \<and> sl_metrics (slog_init cfg d slogger_new) = []"
  using assms by (simp add: slog_init_def slogger_new_def slog_ok_def open_file_def disk_ok_def Let_def)

section \<open>Properties\<close>

text \<open>C33: the access log is complete.  After any interleaving of requests and worker turns on a file system that
  works, \<open>shutdown\<close> returns and the file holds exactly the lines the queue accepted, in the order they were
  accepted; every line refused because the queue was full is counted as dropped, and every accepted one as accepted.\<close>

theorem access_log_complete:
  assumes "slog_run ops (slog_init cfg d slogger_new) = (acc, refused, l)" "list_all op_disk_ok ops" "disk_ok d"
    and "list_all disk_ok ds" "length (sl_queue l) < length ds"
  shows "\<exists>l'. slog_shutdown ds l = Some l' \<and> sl_file l' = concat acc \<and> sl_queue l' = []
    \<and> count_list (sl_metrics l') True = length acc \<and> count_list (sl_metrics l') False = length refused"
proof -
  have c: "slog_ok l \<and> sl_file l @ concat (sl_queue l) = concat acc
    \<and> count_list (sl_metrics l) True = length acc \<and> count_list (sl_metrics l) False = length refused"
    using slog_run_conserves [OF _ assms(2,1)] slog_init_ok [OF assms(3)] by simp
  show ?thesis
  proof (cases "sl_worker l")
    case True
    have ok: "slog_ok (slog_stop l)" using c by (simp add: slog_ok_def slog_stop_def)
    have q: "sl_queue (slog_stop l) = sl_queue l" "sl_file (slog_stop l) = sl_file l"
      "sl_metrics (slog_stop l) = sl_metrics l" "sl_stop (slog_stop l)"
      by (simp_all add: slog_stop_def)
    from drain_run [OF ok q(4) assms(4)] assms(5) q obtain l1 where
      "slog_worker_run ds (slog_stop l) = Some l1" "sl_queue l1 = []" "sl_file l1 = sl_file l @ concat (sl_queue l)"
      "sl_metrics l1 = sl_metrics l" by auto
    with c True show ?thesis by (simp add: slog_shutdown_def slog_after_join_def)
  next
    case False
    with c show ?thesis by (auto simp: slog_shutdown_def slog_after_join_def slog_stop_def slog_ok_def)
  qed
qed

definition demo_access :: slog_op where
  "demo_access = LogAccess http_request_new 200 ''0.500'' ''127.0.0.1'' ''now''"

theorem access_log_complete_witness:
  "\<exists>l l'. slog_run [demo_access, SlTurn \<lparr>disk_open = True, disk_short = None\<rparr>, demo_access]
       (slog_init config_default \<lparr>disk_open = True, disk_short = None\<rparr> slogger_new)
       = ([access_line http_request_new 200 ''0.500'' ''127.0.0.1'' ''now'',
           access_line http_request_new 200 ''0.500'' ''127.0.0.1'' ''now''], [], l)
     \<and> length (sl_queue l) = 1
     \<and> slog_shutdown (replicate 2 \<lparr>disk_open = True, disk_short = None\<rparr>) l = Some l'
     \<and> count_list (sl_metrics l') True = 2"
proof -
  let ?d = "\<lparr>disk_open = True, disk_short = None\<rparr>"
  let ?ops = "[demo_access, SlTurn ?d, demo_access]"
  let ?line = "access_line http_request_new 200 ''0.500'' ''127.0.0.1'' ''now''"
  obtain acc refused l where r: "slog_run ?ops (slog_init config_default ?d slogger_new) = (acc, refused, l)"
    by (metis prod_cases3)
  let ?l0 = "slog_init config_default ?d slogger_new"
  have l0: "sl_queue ?l0 = []" "sl_enabled ?l0" "sl_path ?l0 \<noteq> []" "sl_accepting ?l0" "sl_max_queue ?l0 = 8192"
    "sl_open ?l0" "sl_good ?l0"
    by (simp_all add: slog_init_def slogger_new_def config_default_def open_file_def Let_def)
  have l: "acc = [?line, ?line]" "refused = []" "length (sl_queue l) = 1"
    using r l0 by (auto simp: demo_access_def log_access_def slog_enqueue_def observe_log_def slog_worker_turn_def
        write_line_def Let_def)
  have "list_all op_disk_ok ?ops" "disk_ok ?d" "list_all disk_ok (replicate 2 ?d)"
    by (simp_all add: disk_ok_def demo_access_def numeral_2_eq_2)
  with access_log_complete [OF r this] l obtain l' where
    "slog_shutdown (replicate 2 ?d) l = Some l'" "count_list (sl_metrics l') True = 2" by auto
  with r l show ?thesis by blast
qed

end
