(* ===== verification/App_Routes.thy ===== *)
theory App_Routes
  imports Short_Url_Handler Metrics Router
begin

text \<open>
  The routes of the program: \<open>src/handler/health_handler.cpp\<close>, \<open>metrics_handler.cpp\<close> and the registration at
  the end of \<open>short_url_handler.cpp\<close>, in the order \<open>main\<close> makes the calls.

  The state the handlers share is the application of \<open>Short_Url_Handler\<close> and the metrics registry.  A handler
  that waits for ever leaves the state \<open>None\<close>; \<open>rd\<close> are the clock readings and random draws of the request
  being served and \<open>shared\<close> is the result another thread's flight would hand to this one.
\<close>

record ('r, 'm, 'k, 'd) services =
  sv_app :: "('r, 'm, 'k) app"
  sv_metrics :: "'d mshard list"

section \<open>Handlers\<close>

definition health :: "json_lib \<Rightarrow> ('r, 'm, 'k, 'd) services option handler" where
  "health jl req resp s =
     (set_json jl (JObj [(''status'', JStr ''ok''), (''version'', JStr ''0.1.0'')]) (set_status 200 resp), s)"

definition metrics :: "'d double_ops \<Rightarrow> ('r, 'm, 'k, 'd) services option handler" where
  "metrics d req resp s =
     (case s of
        None \<Rightarrow> (Inr resp, None)
      | Some sv \<Rightarrow>
          (Inr (set_body (render_prometheus d (sv_metrics sv))
                  (set_header ''Content-Type'' ''text/plain; version=0.0.4; charset=utf-8'' (set_status 200 resp))), s))"

text \<open>A handler of \<open>Short_Url_Handler\<close> on the shared state.\<close>

definition on_app ::
  "(http_request \<Rightarrow> http_response \<Rightarrow> ('r, 'm, 'k) app \<Rightarrow> ((exn + http_response) \<times> ('r, 'm, 'k) app) option)
     \<Rightarrow> ('r, 'm, 'k, 'd) services option handler" where
  "on_app h req resp s =
     (case s of
        None \<Rightarrow> (Inr resp, None)
      | Some sv \<Rightarrow> (case h req resp (sv_app sv) of
                      None \<Rightarrow> (Inr resp, None)
                    | Some (r, a) \<Rightarrow> (r, Some (sv\<lparr>sv_app := a\<rparr>))))"

section \<open>Registration\<close>

definition register_health_routes ::
  "json_lib \<Rightarrow> ('r, 'm, 'k, 'd) services option route list \<Rightarrow> ('r, 'm, 'k, 'd) services option route list" where
  "register_health_routes jl routes = router_get ''/health'' (health jl) routes"

definition register_metrics_routes ::
  "'d double_ops \<Rightarrow> ('r, 'm, 'k, 'd) services option route list \<Rightarrow> ('r, 'm, 'k, 'd) services option route list" where
  "register_metrics_routes d routes = router_get ''/metrics'' (metrics d) routes"

definition register_short_url_routes ::
  "('r, 'm) libs \<Rightarrow> readings \<Rightarrow> sf_result \<Rightarrow> ('r, 'm, 'k, 'd) services option route list
     \<Rightarrow> ('r, 'm, 'k, 'd) services option route list" where
  "register_short_url_routes l rd shared routes =
     router_get ''/{code}'' (on_app (redirect l rd shared))
       (router_post ''/api/shorten'' (on_app (shorten l rd)) routes)"

text \<open>The calls of \<open>main\<close>.\<close>

definition app_routes ::
  "('r, 'm) libs \<Rightarrow> 'd double_ops \<Rightarrow> readings \<Rightarrow> sf_result \<Rightarrow> ('r, 'm, 'k, 'd) services option route list" where
  "app_routes l d rd shared =
     register_short_url_routes l rd shared (register_metrics_routes d (register_health_routes (l_json l) []))"

section \<open>Which handler serves which request\<close>

lemma split_patterns [simp]:
  "split_path ''health'' = [''health'']" "split_path ''metrics'' = [''metrics'']"
  "split_path ''{code}'' = [''{code}'']" "split_path ''api/shorten'' = [''api'', ''shorten'']"
  using split_path_segment(2) [of "''health''"] split_path_segment(2) [of "''metrics''"]
    split_path_segment(2) [of "''{code}''"] split_path_segment(1) [of "''api''" "''shorten''"]
    split_path_segment(2) [of "''shorten''"]
  by simp_all

lemmas routes_defs = app_routes_def register_short_url_routes_def register_metrics_routes_def register_health_routes_def
  router_get_def router_post_def router_match_def is_placeholder_def

lemma dispatch_shorten:
  assumes "req_method req = ''POST''" "req_path req = ''/api/shorten''"
  shows "dispatch (app_routes l d rd shared) req resp s =
    (let req' = req\<lparr>req_params := Map.empty, route_pattern := ''/api/shorten''\<rparr>
     in case on_app (shorten l rd) req' resp s of
          (Inl e, s') \<Rightarrow> (req', Inl e, s') | (Inr r, s') \<Rightarrow> (req', Inr (True, r), s'))"
  using assms by (simp add: routes_defs Let_def)

lemma dispatch_code:
  assumes "req_method req = ''GET''" "split_path (req_path req) = [code]" "code \<notin> {''health'', ''metrics''}"
  shows "dispatch (app_routes l d rd shared) req resp s =
    (let req' = req\<lparr>req_params := [''code'' \<mapsto> code], route_pattern := ''/{code}''\<rparr>
     in case on_app (redirect l rd shared) req' resp s of
          (Inl e, s') \<Rightarrow> (req', Inl e, s') | (Inr r, s') \<Rightarrow> (req', Inr (True, r), s'))"
  using assms by (auto simp: routes_defs Let_def)

lemma dispatch_reserved:
  assumes "req_method req = ''GET''"
  shows "split_path (req_path req) = [''health''] \<Longrightarrow>
      route_pattern (fst (dispatch (app_routes l d rd shared) req resp s)) = ''/health''"
    and "split_path (req_path req) = [''metrics''] \<Longrightarrow>
      route_pattern (fst (dispatch (app_routes l d rd shared) req resp s)) = ''/metrics''"
  using assms by (auto simp: routes_defs Let_def split: sum.splits prod.splits)

section \<open>Properties\<close>

text \<open>C34: a created short URL is served.  When \<open>POST /api/shorten\<close> gets a slot, a connection and a fresh id (whose
  code is not in the eviction queue of its shard), the insert succeeds and the entry fits the byte budget of its shard, the router answers it with 201; a \<open>GET\<close> of the code, routed through the same table, then
  passes the Bloom filter even in hard mode, is found in the local cache and answered 302 with the URL, without
  Redis or MySQL, as long as neither the time to live nor the business expiry has passed.  The two codes that
  spell the names of other routes are excluded: those routes were registered first and answer instead.\<close>

theorem created_url_served:
  assumes post: "req_method req = ''POST''" "req_path req = ''/api/shorten''"
    and body: "check_body (l_json l) (req_body req) = Inr (Inr (url, exp))"
    and slot: "c_redis_available (a_cache a) \<or> c_create_inflight (a_cache a) < c_create_max (a_cache a)"
    and con: "GetConnection (a_pool a) = Some (Some con, p)"
    and fresh: "next_id (l_clock l) (l_worker l) (a_gen a) (a_clk a) = Some (Inr i, g, k)"
    and stored: "repo_create (l_mysql l) (l_router l) True \<lparr>rec_id = i, rec_short_code = base62_encode i,
        rec_long_url = url, rec_expire_at = exp\<rparr> (a_db a) = ((CreateOk, err), db)"
    and dump: "json_dump (l_json l) (created_body (a_base_url a) (base62_encode i) url exp) = Inr text"
    and cache: "lc_ok (c_local (a_cache a))" "wf_bloom (c_bloom (a_cache a))"
    and new: "base62_encode i \<notin> set (positive_fifo (shard_of (c_local (a_cache a)) (base62_encode i)))"
    and fits: "estimate_positive_bytes (base62_encode i) url exp \<le> positive_byte_budget (c_local (a_cache a))"
    and get: "req_method req' = ''GET''" "req_path req' = ''/'' @ base62_encode i"
      "base62_encode i \<notin> {''health'', ''metrics''}"
    and later: "rd_now rd' < rd_put_now rd + ticks (ttl_with_jitter_locked (c_local (a_cache a)) (rd_draw rd))"
      "\<not> is_business_expired (rd_dt rd') exp"
  shows "\<exists>req1 r sv req2 r' sv'.
    dispatch (app_routes l d rd shared) req http_response_new (Some \<lparr>sv_app = a, sv_metrics = m\<rparr>) = (req1, Inr (True, r), Some sv)
    \<and> status_code r = 201 \<and> resp_body r = text
    \<and> dispatch (app_routes l' d' rd' shared') req' http_response_new (Some sv) = (req2, Inr (True, r'), Some sv')
    \<and> status_code r' = 302 \<and> resp_headers r' ''Location'' = Some url"
proof -
  let ?r1 = "req\<lparr>req_params := Map.empty, route_pattern := ''/api/shorten''\<rparr>"
  let ?r2 = "req'\<lparr>req_params := [''code'' \<mapsto> base62_encode i], route_pattern := ''/{code}''\<rparr>"
  have b: "check_body (l_json l) (req_body ?r1) = Inr (Inr (url, exp))" using body by simp
  have c: "req_params ?r2 ''code'' = Some (base62_encode i)" by simp
  from shorten_then_redirect [OF b slot con fresh stored dump cache new fits c later, of l' shared']
  obtain r a1 r' a2 where
    1: "shorten l rd ?r1 http_response_new a = Some (Inr r, a1)" "status_code r = 201" "resp_body r = text" and
    2: "redirect l' rd' shared' ?r2 http_response_new a1 = Some (Inr r', a2)"
       "status_code r' = 302" "resp_headers r' ''Location'' = Some url" by blast
  have "split_path (req_path req') = [base62_encode i]"
    using get(2) by (simp add: split_path_segment(2) base62_encode_no_slash)
  from dispatch_code [OF get(1) this get(3), of l' d' rd' shared' http_response_new "Some \<lparr>sv_app = a1, sv_metrics = m\<rparr>"] 2(1)
  have "dispatch (app_routes l' d' rd' shared') req' http_response_new (Some \<lparr>sv_app = a1, sv_metrics = m\<rparr>)
      = (?r2, Inr (True, r'), Some \<lparr>sv_app = a2, sv_metrics = m\<rparr>)"
    by (simp add: on_app_def Let_def)
  moreover from dispatch_shorten [OF post, of l d rd shared http_response_new "Some \<lparr>sv_app = a, sv_metrics = m\<rparr>"] 1(1)
  have "dispatch (app_routes l d rd shared) req http_response_new (Some \<lparr>sv_app = a, sv_metrics = m\<rparr>)
      = (?r1, Inr (True, r), Some \<lparr>sv_app = a1, sv_metrics = m\<rparr>)"
    by (simp add: on_app_def Let_def)
  ultimately show ?thesis using 1(2,3) 2(2,3) by blast
qed

definition demo_doubles :: "nat double_ops" where
  "demo_doubles = \<lparr>dbl_lit = (\<lambda>n. n), dbl_le = (\<le>), dbl_add = (+), dbl_fixed6 = (\<lambda>n. dec_digits n)\<rparr>"

theorem created_url_served_witness:
  "\<exists>i req1 r sv req2 r' sv'.
     dispatch (app_routes demo_libs demo_doubles (demo_readings 0) sf_result_new)
       (http_request_new\<lparr>req_method := ''POST'', req_path := ''/api/shorten''\<rparr>) http_response_new
       (Some \<lparr>sv_app = demo_app, sv_metrics = metrics_new demo_doubles\<rparr>) = (req1, Inr (True, r), Some sv)
     \<and> status_code r = 201
     \<and> dispatch (app_routes demo_libs demo_doubles (demo_readings 5) sf_result_new)
       (http_request_new\<lparr>req_method := ''GET'', req_path := ''/'' @ base62_encode i\<rparr>) http_response_new (Some sv)
         = (req2, Inr (True, r'), Some sv')
     \<and> status_code r' = 302 \<and> resp_headers r' ''Location'' = Some ''http://a''"
proof -
  let ?req = "http_request_new\<lparr>req_method := ''POST'', req_path := ''/api/shorten''\<rparr>"
  let ?i = "compose_id 1 0 0"
  let ?req' = "http_request_new\<lparr>req_method := ''GET'', req_path := ''/'' @ base62_encode ?i\<rparr>"
  obtain con p where con: "GetConnection (a_pool demo_app) = Some (Some con, p)" using demo_con by blast
  have "?i = 4194304" by (simp add: compose_id_def snowflake_constants)
  then have "unat ?i < 62 ^ 5" by simp
  then have "length (base62_encode ?i) \<le> 5" by (intro base62_encode_length) simp_all
  then have short: "base62_encode ?i \<notin> {''health'', ''metrics''}" by auto
  have "req_method ?req = ''POST''" "req_path ?req = ''/api/shorten''" "req_method ?req' = ''GET''"
    "req_path ?req' = ''/'' @ base62_encode ?i" by simp_all
  from created_url_served [OF this(1,2) demo_body demo_slot con demo_fresh demo_stored demo_dump demo_cache_ok demo_new
      demo_fits this(3,4) short demo_later, of demo_doubles sf_result_new "metrics_new demo_doubles" demo_libs demo_doubles sf_result_new]
  show ?thesis by blast
qed

end
