(* ===== verification/Web_Server.thy ===== *)
theory Web_Server
  imports Http_Conn Thread_Pool Timer_List Structured_Logger Short_Url_Handler
begin

text \<open>
  \<open>src/webserver.h\<close> and \<open>webserver.cpp\<close>, the class \<open>Utils\<close> and \<open>cb_func\<close> of \<open>src/timer/lst_timer.cpp\<close>, and
  \<open>addfd\<close> and \<open>modfd\<close> of \<open>src/http/http_conn.cpp\<close>: the event loop that owns all sockets.

  The two arrays of \<open>MAX_FD\<close> slots are functions on descriptors.  The kernel is the record \<open>kernel\<close>: the
  open descriptors, the epoll set with the events asked for, the bytes pending in the signal pipe, and what
  was sent; it counts the calls of \<open>close\<close> on a descriptor that is not open.  What a system call returns
  is an argument.  A result \<open>None\<close> is an access outside the arrays, through a dangling timer pointer or
  through the missing thread pool, a failed assertion, \<open>abort\<close> or \<open>std::terminate\<close>.  Client addresses and the
  lines written with \<open>LOG_INFO\<close> and \<open>LOG_ERROR\<close> are left out; nothing depends on them.
\<close>

definition MAX_FD :: nat where "MAX_FD = 65536"
definition TIMESLOT :: int where "TIMESLOT = 5"

section \<open>State\<close>

record kernel =
  k_open :: "int set"
  k_interest :: "int \<rightharpoonup> string list"
  k_pipe :: "int list"
  k_sent :: "(int \<times> string) list"
  k_bad_close :: nat
  k_alarm :: "int option"
  k_handled :: "int list"
  k_linger :: "(int \<times> int) option"

record client_data =
  cd_sockfd :: int
  cd_timer :: "nat option"
  cd_conn :: "nat option"

record ('r, 'm, 'k) web_server =
  ws_port :: int
  ws_log_write :: int
  ws_close_log :: int
  ws_actormodel :: int
  ws_pipefd :: "int \<times> int"
  ws_epollfd :: int
  ws_users :: "nat \<Rightarrow> http_conn"
  ws_connPool :: bool
  ws_user :: string
  ws_passWord :: string
  ws_databaseName :: string
  ws_sql_num :: int
  ws_mysql_host :: string
  ws_mysql_port :: int
  ws_mysql_acquire_timeout_ms :: int
  ws_pool :: "threadpool option"
  ws_thread_num :: int
  ws_listenfd :: int
  ws_OPT_LINGER :: int
  ws_TRIGMode :: int
  ws_LISTENTrigmode :: int
  ws_CONNTrigmode :: int
  ws_users_timer :: "nat \<Rightarrow> client_data"
  ws_listen_paused :: bool
  ws_timer_lst :: timer_lst
  ws_timeslot :: int
  ws_user_count :: int
  ws_app :: "('r, 'm, 'k) app"
  ws_slog :: slogger
  ws_log :: log_state
  ws_kernel :: kernel

text \<open>The constructor; \<open>c0\<close> is what the default constructor of \<open>http_conn\<close> leaves in a slot.  The other
  singletons of the program are in \<open>a\<close> and \<open>sl\<close>.\<close>

definition ws_new :: "http_conn \<Rightarrow> ('r, 'm, 'k) app \<Rightarrow> slogger \<Rightarrow> ('r, 'm, 'k) web_server" where
  "ws_new c0 a sl =
     \<lparr>ws_port = 0, ws_log_write = 0, ws_close_log = 0, ws_actormodel = 0, ws_pipefd = (- 1, - 1), ws_epollfd = - 1,
      ws_users = (\<lambda>_. c0), ws_connPool = False, ws_user = [], ws_passWord = [], ws_databaseName = [],
      ws_sql_num = 0, ws_mysql_host = [], ws_mysql_port = 0, ws_mysql_acquire_timeout_ms = 50, ws_pool = None,
      ws_thread_num = 0, ws_listenfd = - 1, ws_OPT_LINGER = 0, ws_TRIGMode = 0, ws_LISTENTrigmode = 0,
      ws_CONNTrigmode = 0, ws_users_timer = (\<lambda>_. \<lparr>cd_sockfd = 0, cd_timer = None, cd_conn = None\<rparr>),
      ws_listen_paused = False, ws_timer_lst = sort_timer_lst_new, ws_timeslot = 0, ws_user_count = 0,
      ws_app = a, ws_slog = sl, ws_log = log_new,
      ws_kernel = \<lparr>k_open = {}, k_interest = Map.empty, k_pipe = [], k_sent = [], k_bad_close = 0, k_alarm = None,
                   k_handled = [], k_linger = None\<rparr>\<rparr>"

section \<open>System calls\<close>

definition on_kernel :: "(kernel \<Rightarrow> kernel) \<Rightarrow> ('r, 'm, 'k) web_server \<Rightarrow> ('r, 'm, 'k) web_server" where
  "on_kernel f w = w\<lparr>ws_kernel := f (ws_kernel w)\<rparr>"

definition sys_open :: "int \<Rightarrow> kernel \<Rightarrow> kernel" where
  "sys_open fd k = k\<lparr>k_open := insert fd (k_open k)\<rparr>"

definition sys_close :: "int \<Rightarrow> kernel \<Rightarrow> kernel" where
  "sys_close fd k =
     (if fd \<in> k_open k then k\<lparr>k_open := k_open k - {fd}, k_interest := (k_interest k)(fd := None)\<rparr>
      else k\<lparr>k_bad_close := k_bad_close k + 1\<rparr>)"

definition epoll_add :: "int \<Rightarrow> string list \<Rightarrow> kernel \<Rightarrow> kernel" where
  "epoll_add fd events k =
     (if fd \<in> k_open k \<and> k_interest k fd = None then k\<lparr>k_interest := (k_interest k)(fd \<mapsto> events)\<rparr> else k)"

definition epoll_del :: "int \<Rightarrow> kernel \<Rightarrow> kernel" where
  "epoll_del fd k = k\<lparr>k_interest := (k_interest k)(fd := None)\<rparr>"

definition epoll_mod :: "int \<Rightarrow> string list \<Rightarrow> kernel \<Rightarrow> kernel" where
  "epoll_mod fd events k =
     (if k_interest k fd = None then k else k\<lparr>k_interest := (k_interest k)(fd \<mapsto> events)\<rparr>)"

definition sys_send :: "int \<Rightarrow> string \<Rightarrow> kernel \<Rightarrow> kernel" where
  "sys_send fd bs k = k\<lparr>k_sent := (fd, bs) # k_sent k\<rparr>"

section \<open>\<open>addfd\<close>, \<open>modfd\<close> and the class \<open>Utils\<close>\<close>

definition addfd :: "int \<Rightarrow> bool \<Rightarrow> int \<Rightarrow> kernel \<Rightarrow> kernel" where
  "addfd fd one_shot trig k =
     epoll_add fd ((if trig = 1 then [''EPOLLIN'', ''EPOLLET'', ''EPOLLRDHUP''] else [''EPOLLIN'', ''EPOLLRDHUP''])
                   @ (if one_shot then [''EPOLLONESHOT''] else [])) k"

fun modfd :: "epoll_op \<Rightarrow> kernel \<Rightarrow> kernel" where
  "modfd (Modfd fd ev trig) k =
     epoll_mod fd ([case ev of EPOLLIN \<Rightarrow> ''EPOLLIN'' | EPOLLOUT \<Rightarrow> ''EPOLLOUT'']
                   @ (if trig = 1 then [''EPOLLET''] else []) @ [''EPOLLONESHOT'', ''EPOLLRDHUP'']) k"

definition utils_addfd :: "int \<Rightarrow> bool \<Rightarrow> int \<Rightarrow> kernel \<Rightarrow> kernel" where
  "utils_addfd fd one_shot trig k =
     epoll_add fd ((if trig = 1 then [''EPOLLIN'', ''EPOLLET'', ''EPOLLRDHUP''] else [''EPOLLIN'', ''EPOLLRDHUP''])
                   @ (if one_shot then [''EPOLLONESHOT''] else [])) k"

definition sig_handler :: "int \<Rightarrow> kernel \<Rightarrow> kernel" where
  "sig_handler sig k = k\<lparr>k_pipe := k_pipe k @ [sig mod 256]\<rparr>"

definition addsig :: "bool \<Rightarrow> int \<Rightarrow> kernel \<Rightarrow> kernel option" where
  "addsig sigaction_ok sig k = (if sigaction_ok then Some (k\<lparr>k_handled := sig # k_handled k\<rparr>) else None)"

definition show_error :: "int \<Rightarrow> string \<Rightarrow> kernel \<Rightarrow> kernel" where
  "show_error connfd msg k = sys_close connfd (sys_send connfd msg k)"

text \<open>\<open>cb_func\<close> with the client data of slot \<open>i\<close>.\<close>

definition cb_func :: "nat \<Rightarrow> ('r, 'm, 'k) web_server \<Rightarrow> ('r, 'm, 'k) web_server" where
  "cb_func i w =
     (let cd = ws_users_timer w i
      in if cd_sockfd cd < 0 then w
         else let w1 = (case cd_conn cd of
                          None \<Rightarrow> w
                        | Some c \<Rightarrow> w\<lparr>ws_users := (ws_users w)(c := invalidate (ws_users w c))\<rparr>);
                  w2 = on_kernel (\<lambda>k. sys_close (cd_sockfd cd) (epoll_del (cd_sockfd cd) k)) w1
              in w2\<lparr>ws_users_timer := (ws_users_timer w2)(i := cd\<lparr>cd_sockfd := - 1, cd_timer := None\<rparr>),
                    ws_user_count := ws_user_count w2 - 1\<rparr>)"

definition timer_handler :: "int \<Rightarrow> ('r, 'm, 'k) web_server \<Rightarrow> ('r, 'm, 'k) web_server option" where
  "timer_handler now w =
     (case tl_tick now (ws_timer_lst w) of
        None \<Rightarrow> None
      | Some (fired, lst) \<Rightarrow>
          Some (on_kernel (\<lambda>k. k\<lparr>k_alarm := Some (ws_timeslot w)\<rparr>) (fold cb_func fired (w\<lparr>ws_timer_lst := lst\<rparr>))))"

section \<open>Set up\<close>

definition ws_init :: "config \<Rightarrow> ('r, 'm, 'k) web_server \<Rightarrow> ('r, 'm, 'k) web_server" where
  "ws_init cfg w =
     w\<lparr>ws_port := port cfg, ws_user := mysql_user cfg, ws_passWord := mysql_password cfg,
       ws_databaseName := mysql_database cfg, ws_sql_num := mysql_pool_size cfg, ws_mysql_host := mysql_host cfg,
       ws_mysql_port := mysql_port cfg, ws_mysql_acquire_timeout_ms := mysql_acquire_timeout_ms cfg,
       ws_thread_num := thread_num cfg, ws_log_write := (if log_async cfg then 1 else 0),
       ws_OPT_LINGER := (if opt_linger cfg then 1 else 0), ws_TRIGMode := trig_mode cfg,
       ws_close_log := close_log cfg, ws_actormodel := (if actor_model cfg = 1 then 0 else actor_model cfg)\<rparr>"

definition ws_trig_mode :: "('r, 'm, 'k) web_server \<Rightarrow> ('r, 'm, 'k) web_server" where
  "ws_trig_mode w =
     (if ws_TRIGMode w = 0 then w\<lparr>ws_LISTENTrigmode := 0, ws_CONNTrigmode := 0\<rparr>
      else if ws_TRIGMode w = 1 then w\<lparr>ws_LISTENTrigmode := 0, ws_CONNTrigmode := 1\<rparr>
      else if ws_TRIGMode w = 2 then w\<lparr>ws_LISTENTrigmode := 1, ws_CONNTrigmode := 0\<rparr>
      else if ws_TRIGMode w = 3 then w\<lparr>ws_LISTENTrigmode := 1, ws_CONNTrigmode := 1\<rparr>
      else w)"

text \<open>The name of the log fits its arrays, so \<open>log_init\<close> stores nothing outside (\<open>server_log_opens\<close>).\<close>

lemma server_log_opens: "\<exists>l'. log_init ''./ServerLog'' close 2000 800000 qs tm ok l = Some (ok, l')"
proof -
  have "last_slash ''./ServerLog'' = Some 1" by code_simp
  then show ?thesis by (simp add: log_init_def log_names_def NAME_SIZE_def Let_def)
qed

definition ws_open_log :: "log_tm \<Rightarrow> bool \<Rightarrow> ('r, 'm, 'k) web_server \<Rightarrow> ('r, 'm, 'k) web_server" where
  "ws_open_log tm fopen_ok w =
     (if ws_close_log w = 0
      then w\<lparr>ws_log := (case log_init ''./ServerLog'' (ws_close_log w) 2000 800000
                             (if ws_log_write w = 1 then 800 else 0) tm fopen_ok (ws_log w) of
                        None \<Rightarrow> ws_log w
                      | Some (_, l) \<Rightarrow> l)\<rparr>
      else w)"

definition ws_sql_pool :: "nat option list \<Rightarrow> ('r, 'm, 'k) web_server \<Rightarrow> ('r, 'm, 'k) web_server" where
  "ws_sql_pool attempts w =
     (let p = pool_init (ws_mysql_host w) (ws_user w) (ws_passWord w) (ws_databaseName w) (ws_mysql_port w)
                (ws_sql_num w) (ws_close_log w) attempts (a_pool (ws_app w))
      in w\<lparr>ws_connPool := True,
           ws_app := (ws_app w)\<lparr>a_pool := set_acquire_timeout_ms (ws_mysql_acquire_timeout_ms w) p\<rparr>\<rparr>)"

text \<open>\<open>max_requests\<close> has the default value 10000.\<close>

definition ws_thread_pool :: "bool \<Rightarrow> ('r, 'm, 'k) web_server \<Rightarrow> exn + ('r, 'm, 'k) web_server" where
  "ws_thread_pool create_ok w =
     (case threadpool_new (ws_thread_num w) 10000 create_ok of
        Inl e \<Rightarrow> Inl e | Inr p \<Rightarrow> Inr (w\<lparr>ws_pool := Some p\<rparr>))"

definition SIGINT :: int where "SIGINT = 2"
definition SIGPIPE :: int where "SIGPIPE = 13"
definition SIGALRM :: int where "SIGALRM = 14"
definition SIGTERM :: int where "SIGTERM = 15"

text \<open>What the calls of \<open>eventListen\<close> return: the descriptors, and whether the others succeed.\<close>

record listen_calls =
  lc_socket :: int
  lc_bind :: bool
  lc_listen :: bool
  lc_epoll :: int
  lc_pipe :: "(int \<times> int) option"
  lc_sigaction :: bool

definition ws_eventListen :: "listen_calls \<Rightarrow> ('r, 'm, 'k) web_server \<Rightarrow> ('r, 'm, 'k) web_server option" where
  "ws_eventListen lc w =
     (if lc_socket lc < 0 \<or> \<not> lc_bind lc \<or> \<not> lc_listen lc \<or> lc_epoll lc = - 1 then None
      else case lc_pipe lc of
             None \<Rightarrow> None
           | Some (p0, p1) \<Rightarrow>
               (let k1 = (sys_open (lc_socket lc) (ws_kernel w))
                           \<lparr>k_linger := (if ws_OPT_LINGER w = 0 then Some (0, 1)
                                         else if ws_OPT_LINGER w = 1 then Some (1, 1) else None)\<rparr>;
                    k2 = utils_addfd (lc_socket lc) False (ws_LISTENTrigmode w) (sys_open (lc_epoll lc) k1);
                    k3 = utils_addfd p0 False 0 (sys_open p1 (sys_open p0 k2))
                in Option.bind (addsig (lc_sigaction lc) SIGPIPE k3) (\<lambda>k.
                   Option.bind (addsig (lc_sigaction lc) SIGALRM k) (\<lambda>k.
                   Option.bind (addsig (lc_sigaction lc) SIGTERM k) (\<lambda>k.
                   Option.bind (addsig (lc_sigaction lc) SIGINT k) (\<lambda>k.
                     Some (w\<lparr>ws_listenfd := lc_socket lc, ws_timeslot := TIMESLOT, ws_epollfd := lc_epoll lc,
                             ws_pipefd := (p0, p1), ws_kernel := k\<lparr>k_alarm := Some TIMESLOT\<rparr>\<rparr>)))))))"

section \<open>Connections\<close>

text \<open>\<open>timer\<close>: \<open>t\<close> is the address \<open>new util_timer\<close> returns.  The first line is the public \<open>http_conn::init\<close>.\<close>

definition ws_timer :: "nat \<Rightarrow> nat \<Rightarrow> int \<Rightarrow> ('r, 'm, 'k) web_server \<Rightarrow> ('r, 'm, 'k) web_server option" where
  "ws_timer connfd t now w =
     (if connfd \<ge> MAX_FD then None
      else let w1 = on_kernel (addfd (int connfd) True (ws_CONNTrigmode w))
                      (w\<lparr>ws_users := (ws_users w)(connfd := conn_init (int connfd) (ws_CONNTrigmode w) (ws_users w connfd)),
                        ws_user_count := ws_user_count w + 1\<rparr>)
           in map_option
                (\<lambda>lst. w1\<lparr>ws_users_timer := (ws_users_timer w1)
                            (connfd := \<lparr>cd_sockfd = int connfd, cd_timer = Some t, cd_conn = Some connfd\<rparr>),
                          ws_timer_lst := lst\<rparr>)
                (tl_add_timer (Some t) (new_timer t connfd (now + 3 * TIMESLOT) (ws_timer_lst w1))))"

definition ws_adjust_timer :: "nat \<Rightarrow> int \<Rightarrow> ('r, 'm, 'k) web_server \<Rightarrow> ('r, 'm, 'k) web_server option" where
  "ws_adjust_timer t now w =
     map_option (\<lambda>lst. w\<lparr>ws_timer_lst := lst\<rparr>)
       (Option.bind (set_expire t (now + 3 * TIMESLOT) (ws_timer_lst w)) (tl_adjust_timer (Some t)))"

definition ws_deal_timer :: "nat option \<Rightarrow> nat \<Rightarrow> ('r, 'm, 'k) web_server \<Rightarrow> ('r, 'm, 'k) web_server option" where
  "ws_deal_timer timer sockfd w =
     (let clear = (\<lambda>w. w\<lparr>ws_users_timer := (ws_users_timer w)(sockfd := (ws_users_timer w sockfd)\<lparr>cd_timer := None\<rparr>)\<rparr>)
      in if sockfd \<ge> MAX_FD then None
         else case timer of
                None \<Rightarrow> Some (clear (cb_func sockfd w))
              | Some t \<Rightarrow>
                  (if heap (ws_timer_lst w) t = None then None
                   else let w1 = cb_func sockfd w
                        in map_option (\<lambda>lst. clear (w1\<lparr>ws_timer_lst := lst\<rparr>)) (tl_del_timer timer (ws_timer_lst w1))))"

definition pause_accept :: "('r, 'm, 'k) web_server \<Rightarrow> ('r, 'm, 'k) web_server" where
  "pause_accept w =
     (if ws_listen_paused w then w
      else on_kernel (epoll_del (ws_listenfd w)) (w\<lparr>ws_listen_paused := True\<rparr>))"

definition resume_accept :: "('r, 'm, 'k) web_server \<Rightarrow> ('r, 'm, 'k) web_server" where
  "resume_accept w =
     on_kernel (utils_addfd (ws_listenfd w) False (ws_LISTENTrigmode w)) (w\<lparr>ws_listen_paused := False\<rparr>)"

text \<open>The outcomes of \<open>accept\<close>: a new descriptor (with the address of the timer it will get and the time), one of the
  errors that mean exhaustion, or another error.\<close>

datatype accept_result = Accepted nat nat int | AcceptExhausted | AcceptError

definition busy :: string where "busy = ''Internal server busy''"

text \<open>One call of \<open>accept\<close> and what follows it: whether the connection was taken.\<close>

definition accept_one :: "accept_result \<Rightarrow> ('r, 'm, 'k) web_server \<Rightarrow> (bool \<times> ('r, 'm, 'k) web_server) option" where
  "accept_one r w =
     (case r of
        AcceptExhausted \<Rightarrow> Some (False, pause_accept w)
      | AcceptError \<Rightarrow> Some (False, w)
      | Accepted fd t now \<Rightarrow>
          (let w1 = on_kernel (sys_open (int fd)) w
           in if ws_user_count w1 \<ge> int MAX_FD then Some (False, on_kernel (show_error (int fd) busy) w1)
              else map_option (\<lambda>w. (True, w)) (ws_timer fd t now w1)))"

text \<open>The loop of the edge-triggered branch; when the script ends there is nothing to accept.\<close>

fun accept_loop :: "accept_result list \<Rightarrow> ('r, 'm, 'k) web_server \<Rightarrow> ('r, 'm, 'k) web_server option" where
  "accept_loop [] w = map_option snd (accept_one AcceptError w)"
| "accept_loop (r # rs) w =
     (case accept_one r w of
        None \<Rightarrow> None | Some (True, w') \<Rightarrow> accept_loop rs w' | Some (False, w') \<Rightarrow> Some w')"

definition dealclientdata :: "accept_result list \<Rightarrow> ('r, 'm, 'k) web_server \<Rightarrow> (bool \<times> ('r, 'm, 'k) web_server) option" where
  "dealclientdata rs w =
     (if ws_LISTENTrigmode w = 0 then accept_one (case rs of [] \<Rightarrow> AcceptError | r # _ \<Rightarrow> r) w
      else map_option (\<lambda>w. (False, w)) (accept_loop rs w))"

text \<open>\<open>dealwithsignal\<close>: the return value and the flags \<open>timeout\<close> and \<open>stop_server\<close>.\<close>

definition dealwithsignal :: "bool \<times> bool \<Rightarrow> ('r, 'm, 'k) web_server \<Rightarrow> bool \<times> (bool \<times> bool) \<times> ('r, 'm, 'k) web_server" where
  "dealwithsignal flags w =
     (let sigs = take 1024 (k_pipe (ws_kernel w));
          w' = on_kernel (\<lambda>k. k\<lparr>k_pipe := drop 1024 (k_pipe k)\<rparr>) w
      in if sigs = [] then (False, flags, w)
         else (True, (fst flags \<or> SIGALRM \<in> set sigs, snd flags \<or> SIGTERM \<in> set sigs \<or> SIGINT \<in> set sigs), w'))"

text \<open>The end of \<open>dealwithread\<close> and \<open>dealwithwrite\<close>: hand the connection to the pool or turn the client away.\<close>

definition dispatch_conn :: "nat \<Rightarrow> ('r, 'm, 'k) web_server \<Rightarrow> (bool \<times> ('r, 'm, 'k) web_server) option" where
  "dispatch_conn sockfd w =
     (case ws_pool w of
        None \<Rightarrow> None
      | Some p \<Rightarrow>
          (case append_p (Some sockfd) (current_generation (ws_users w sockfd)) p of
             (True, p') \<Rightarrow> Some (True, w\<lparr>ws_pool := Some p'\<rparr>)
           | (False, p') \<Rightarrow>
               map_option (\<lambda>w. (False, w))
                 (ws_deal_timer (cd_timer (ws_users_timer w sockfd)) sockfd
                    (case reject_overload (ws_users w sockfd) of
                       None \<Rightarrow> w\<lparr>ws_pool := Some p'\<rparr>
                     | Some bs \<Rightarrow> on_kernel (sys_send (m_sockfd (ws_users w sockfd)) bs) (w\<lparr>ws_pool := Some p'\<rparr>)))))"

definition touch_timer :: "nat option \<Rightarrow> int \<Rightarrow> ('r, 'm, 'k) web_server \<Rightarrow> ('r, 'm, 'k) web_server option" where
  "touch_timer timer now w = (case timer of None \<Rightarrow> Some w | Some t \<Rightarrow> ws_adjust_timer t now w)"

definition dealwithread :: "nat \<Rightarrow> recv_result list \<Rightarrow> int \<Rightarrow> ('r, 'm, 'k) web_server \<Rightarrow> ('r, 'm, 'k) web_server option" where
  "dealwithread sockfd rs now w =
     (if sockfd \<ge> MAX_FD then None
      else let timer = cd_timer (ws_users_timer w sockfd); (got, c) = read_once rs (ws_users w sockfd);
               w1 = w\<lparr>ws_users := (ws_users w)(sockfd := c)\<rparr>
           in if got then
                case dispatch_conn sockfd w1 of
                  None \<Rightarrow> None
                | Some (False, w2) \<Rightarrow> Some w2
                | Some (True, w2) \<Rightarrow> touch_timer timer now w2
              else ws_deal_timer timer sockfd w1)"

definition dealwithwrite :: "nat \<Rightarrow> writev_result list \<Rightarrow> int \<Rightarrow> ('r, 'm, 'k) web_server \<Rightarrow> ('r, 'm, 'k) web_server option" where
  "dealwithwrite sockfd wrs now w =
     (if sockfd \<ge> MAX_FD then None
      else let timer = cd_timer (ws_users_timer w sockfd); (ok, c, ops, out) = conn_write wrs (ws_users w sockfd);
               w1 = on_kernel (\<lambda>k. fold modfd ops (sys_send (m_sockfd (ws_users w sockfd)) out k))
                      (w\<lparr>ws_users := (ws_users w)(sockfd := c)\<rparr>)
           in if ok then
                if has_pipelined_input c then
                  case dispatch_conn sockfd w1 of
                    None \<Rightarrow> None
                  | Some (False, w2) \<Rightarrow> Some w2
                  | Some (True, w2) \<Rightarrow> touch_timer timer now w2
                else touch_timer timer now w1
              else ws_deal_timer timer sockfd w1)"

section \<open>The event loop\<close>

text \<open>An event with everything its handler will meet: what \<open>accept\<close>, \<open>recv\<close> and \<open>writev\<close> return, the time, and what
  the worker threads have done to the slots, how often they have taken from the work queue and which signals have arrived since
  the last event.\<close>

record event =
  ev_fd :: nat
  ev_hangup :: bool
  ev_in :: bool
  ev_out :: bool
  ev_accepts :: "accept_result list"
  ev_recv :: "recv_result list"
  ev_writev :: "writev_result list"
  ev_now :: int
  ev_workers :: "(nat \<Rightarrow> http_conn) \<Rightarrow> nat \<Rightarrow> http_conn"
  ev_taken :: nat
  ev_signals :: "int list"

definition meanwhile :: "event \<Rightarrow> ('r, 'm, 'k) web_server \<Rightarrow> ('r, 'm, 'k) web_server" where
  "meanwhile e w =
     on_kernel (fold sig_handler (ev_signals e))
       (w\<lparr>ws_users := ev_workers e (ws_users w), ws_pool := map_option (pool_turn ^^ ev_taken e) (ws_pool w)\<rparr>)"

text \<open>The body of the \<open>for\<close> loop, with the flags \<open>timeout\<close> and \<open>stop_server\<close>.\<close>

definition handle_event ::
  "event \<Rightarrow> (bool \<times> bool) \<times> ('r, 'm, 'k) web_server \<Rightarrow> ((bool \<times> bool) \<times> ('r, 'm, 'k) web_server) option" where
  "handle_event e fw =
     (let flags = fst fw; w = meanwhile e (snd fw); sockfd = ev_fd e;
          keep = map_option (\<lambda>w. (flags, w))
      in if int sockfd = ws_listenfd w then map_option (\<lambda>r. (flags, snd r)) (dealclientdata (ev_accepts e) w)
         else if ev_hangup e then
           (if sockfd \<ge> MAX_FD then None else keep (ws_deal_timer (cd_timer (ws_users_timer w sockfd)) sockfd w))
         else if int sockfd = fst (ws_pipefd w) \<and> ev_in e then Some (snd (dealwithsignal flags w))
         else if ev_in e then keep (dealwithread sockfd (ev_recv e) (ev_now e) w)
         else if ev_out e then keep (dealwithwrite sockfd (ev_writev e) (ev_now e) w)
         else Some (flags, w))"

fun handle_events ::
  "event list \<Rightarrow> (bool \<times> bool) \<times> ('r, 'm, 'k) web_server \<Rightarrow> ((bool \<times> bool) \<times> ('r, 'm, 'k) web_server) option" where
  "handle_events [] fw = Some fw"
| "handle_events (e # es) fw = Option.bind (handle_event e fw) (handle_events es)"

text \<open>What \<open>epoll_wait\<close> returns, and the time of the tick that may follow.\<close>

datatype wait_result = WaitEvents "event list" | WaitInterrupted | WaitFailed

text \<open>The part of a turn after the events.\<close>

definition end_of_turn :: "int \<Rightarrow> bool \<Rightarrow> ('r, 'm, 'k) web_server \<Rightarrow> ('r, 'm, 'k) web_server option" where
  "end_of_turn now timeout w =
     (if timeout
      then map_option (\<lambda>w. if ws_listen_paused w then resume_accept w else w) (timer_handler now w)
      else Some w)"

text \<open>A turn of the \<open>while\<close> loop: whether the loop ends, and the server.  \<open>timeout\<close> is false at the start of a turn:
  the turn that sets it also resets it.\<close>

definition loop_turn :: "wait_result \<times> int \<Rightarrow> ('r, 'm, 'k) web_server \<Rightarrow> (bool \<times> ('r, 'm, 'k) web_server) option" where
  "loop_turn t w =
     (case fst t of
        WaitFailed \<Rightarrow> Some (True, w)
      | WaitInterrupted \<Rightarrow> map_option (\<lambda>w. (False, w)) (end_of_turn (snd t) False w)
      | WaitEvents es \<Rightarrow>
          Option.bind (handle_events es ((False, False), w)) (\<lambda>(flags, w').
            map_option (\<lambda>w. (snd flags, w)) (end_of_turn (snd t) (fst flags) w')))"

section \<open>Shutdown\<close>

definition invalidate_live :: "nat \<Rightarrow> ('r, 'm, 'k) web_server \<Rightarrow> ('r, 'm, 'k) web_server" where
  "invalidate_live fd w =
     (if cd_sockfd (ws_users_timer w fd) > 0 then w\<lparr>ws_users := (ws_users w)(fd := invalidate (ws_users w fd))\<rparr> else w)"

fun close_live :: "nat list \<Rightarrow> ('r, 'm, 'k) web_server \<Rightarrow> ('r, 'm, 'k) web_server option" where
  "close_live [] w = Some w"
| "close_live (fd # fds) w =
     Option.bind (if cd_sockfd (ws_users_timer w fd) > 0 then ws_deal_timer (cd_timer (ws_users_timer w fd)) fd w else Some w)
       (close_live fds)"

text \<open>Steps 1 to 3 of \<open>shutdown\<close>.\<close>

definition stop_serving :: "('r, 'm, 'k) web_server \<Rightarrow> ('r, 'm, 'k) web_server" where
  "stop_serving w =
     (let w1 = (if ws_listenfd w \<ge> 0
                then (on_kernel (\<lambda>k. sys_close (ws_listenfd w) (epoll_del (ws_listenfd w) k)) w)\<lparr>ws_listenfd := - 1\<rparr> else w);
          w2 = fold invalidate_live [0..<MAX_FD] w1
      in w2\<lparr>ws_pool := map_option tp_stop (ws_pool w2)\<rparr>)"

text \<open>Step 3b: the background threads; an exception that leaves the click worker ends the program.\<close>

definition stop_background ::
  "'k kafka_lib \<Rightarrow> json_lib \<Rightarrow> (exn + string) list \<Rightarrow> disk list \<Rightarrow> ('r, 'm, 'k) web_server \<Rightarrow> ('r, 'm, 'k) web_server option" where
  "stop_background kl jl ids ds w =
     (case producer_shutdown kl jl ids 2000 (a_clicks (ws_app w)) of
        Some (Inr _, p) \<Rightarrow>
          map_option
            (\<lambda>sl. w\<lparr>ws_slog := sl,
                    ws_app := (ws_app w)\<lparr>a_clicks := p, a_cache := cache_shutdown (a_cache (ws_app w))\<rparr>\<rparr>)
            (slog_shutdown ds (ws_slog w))
      | _ \<Rightarrow> None)"

definition ws_shutdown ::
  "'k kafka_lib \<Rightarrow> json_lib \<Rightarrow> (exn + string) list \<Rightarrow> disk list \<Rightarrow> ('r, 'm, 'k) web_server \<Rightarrow> ('r, 'm, 'k) web_server option" where
  "ws_shutdown kl jl ids ds w =
     Option.bind (stop_background kl jl ids ds (stop_serving w)) (\<lambda>w.
     map_option (\<lambda>w. if ws_connPool w then w\<lparr>ws_app := (ws_app w)\<lparr>a_pool := snd (DestroyPool (a_pool (ws_app w)))\<rparr>\<rparr> else w)
       (close_live [0..<MAX_FD] w))"

text \<open>\<open>eventLoop\<close> over the turns given; \<open>None\<close> in the inner result is a loop that is still running after them.\<close>

fun run_turns :: "(wait_result \<times> int) list \<Rightarrow> ('r, 'm, 'k) web_server \<Rightarrow> (bool \<times> ('r, 'm, 'k) web_server) option" where
  "run_turns [] w = Some (False, w)"
| "run_turns (t # ts) w =
     (case loop_turn t w of
        None \<Rightarrow> None | Some (True, w') \<Rightarrow> Some (True, w') | Some (False, w') \<Rightarrow> run_turns ts w')"

definition ws_eventLoop ::
  "'k kafka_lib \<Rightarrow> json_lib \<Rightarrow> (exn + string) list \<Rightarrow> disk list \<Rightarrow> (wait_result \<times> int) list \<Rightarrow> ('r, 'm, 'k) web_server
     \<Rightarrow> (bool \<times> ('r, 'm, 'k) web_server) option" where
  "ws_eventLoop kl jl ids ds ts w =
     Option.bind (run_turns ts w) (\<lambda>(left, w').
       if left then map_option (\<lambda>w. (True, w)) (ws_shutdown kl jl ids ds w') else Some (False, w'))"

text \<open>The destructor, with that of the timer list.\<close>

definition close_if_open :: "int \<Rightarrow> kernel \<Rightarrow> kernel" where
  "close_if_open fd k = (if fd \<ge> 0 then sys_close fd k else k)"

definition ws_destroy :: "('r, 'm, 'k) web_server \<Rightarrow> ('r, 'm, 'k) web_server option" where
  "ws_destroy w =
     (let k = close_if_open (fst (ws_pipefd w)) (close_if_open (snd (ws_pipefd w))
                (close_if_open (ws_listenfd w) (close_if_open (ws_epollfd w) (ws_kernel w))))
      in map_option
           (\<lambda>lst. w\<lparr>ws_pool := None, ws_epollfd := - 1, ws_listenfd := - 1, ws_pipefd := (- 1, - 1), ws_kernel := k,
                    ws_timer_lst := lst\<rparr>)
           (tl_destroy (ws_timer_lst w)))"

end
