(* ===== verification/Event_Loop.thy ===== *)
theory Event_Loop
  imports Web_Server Http_Session
begin

text \<open>
  What the event loop of \<open>Web_Server\<close> keeps: every open client descriptor has a slot with its own timer in the
  list, and nothing else is open; so no descriptor is closed twice or leaked, and no pointer to a timer dangles.
\<close>

section \<open>The invariant\<close>

text \<open>The descriptors of the server itself.\<close>

definition own :: "('r, 'm, 'k) web_server \<Rightarrow> int set" where
  "own w = {fd \<in> {ws_listenfd w, ws_epollfd w, fst (ws_pipefd w), snd (ws_pipefd w)}. 0 \<le> fd}"

definition eslot :: "timer_entry \<Rightarrow> nat" where
  "eslot e = snd (snd e)"

definition entry_ok :: "('r, 'm, 'k) web_server \<Rightarrow> timer_entry \<Rightarrow> bool" where
  "entry_ok w e \<longleftrightarrow> 0 < eslot e \<and> eslot e < MAX_FD
     \<and> ws_users_timer w (eslot e) = \<lparr>cd_sockfd = int (eslot e), cd_timer = Some (fst e), cd_conn = Some (eslot e)\<rparr>
     \<and> int (eslot e) \<in> dom (k_interest (ws_kernel w)) \<and> int (eslot e) \<notin> own w"

definition slots_ok :: "timer_entry set \<Rightarrow> ('r, 'm, 'k) web_server \<Rightarrow> bool" where
  "slots_ok S w \<longleftrightarrow> finite S \<and> inj_on eslot S \<and> (\<forall>e \<in> S. entry_ok w e)
     \<and> (\<forall>i. 0 < cd_sockfd (ws_users_timer w i) \<longrightarrow> i \<in> eslot ` S)
     \<and> (\<forall>i. cd_sockfd (ws_users_timer w i) \<le> 0 \<longrightarrow> cd_timer (ws_users_timer w i) = None)
     \<and> ws_user_count w = int (card S) \<and> k_open (ws_kernel w) = own w \<union> int ` eslot ` S \<and> k_bad_close (ws_kernel w) = 0"

definition listening_ok :: "('r, 'm, 'k) web_server \<Rightarrow> bool" where
  "listening_ok w \<longleftrightarrow> 0 \<le> ws_listenfd w
     \<and> ws_listenfd w \<notin> {ws_epollfd w, fst (ws_pipefd w), snd (ws_pipefd w)}
     \<and> distinct [ws_epollfd w, fst (ws_pipefd w), snd (ws_pipefd w)]
     \<and> 0 \<le> ws_epollfd w \<and> 0 \<le> fst (ws_pipefd w) \<and> 0 \<le> snd (ws_pipefd w)
     \<and> (ws_listenfd w \<in> dom (k_interest (ws_kernel w)) \<longleftrightarrow> \<not> ws_listen_paused w)"

definition timers_ok :: "int \<Rightarrow> ('r, 'm, 'k) web_server \<Rightarrow> bool" where
  "timers_ok clk w \<longleftrightarrow> (\<exists>xs. tl_abs (ws_timer_lst w) xs \<and> slots_ok (set xs) w \<and> (\<forall>e \<in> set xs. due e \<le> clk + 3 * TIMESLOT))"

lemma slots_ok_frame:
  assumes "slots_ok S w" "ws_users_timer w' = ws_users_timer w" "ws_user_count w' = ws_user_count w" "own w' = own w"
    "k_open (ws_kernel w') = k_open (ws_kernel w)" "k_bad_close (ws_kernel w') = k_bad_close (ws_kernel w)"
    "\<And>fd. fd \<notin> own w \<Longrightarrow> fd \<in> dom (k_interest (ws_kernel w)) \<Longrightarrow> fd \<in> dom (k_interest (ws_kernel w'))"
  shows "slots_ok S w'"
proof -
  have "entry_ok w' e" if "entry_ok w e" for e using that assms(2,4,7) unfolding entry_ok_def by metis
  with assms(1) show ?thesis unfolding slots_ok_def assms(2-6) by blast
qed

lemma timers_ok_frame:
  assumes "timers_ok clk w" "ws_timer_lst w' = ws_timer_lst w" "ws_users_timer w' = ws_users_timer w"
    "ws_user_count w' = ws_user_count w" "own w' = own w" "k_open (ws_kernel w') = k_open (ws_kernel w)"
    "k_bad_close (ws_kernel w') = k_bad_close (ws_kernel w)"
    "\<And>fd. fd \<notin> own w \<Longrightarrow> fd \<in> dom (k_interest (ws_kernel w)) \<Longrightarrow> fd \<in> dom (k_interest (ws_kernel w'))"
  shows "timers_ok clk w'"
  using assms slots_ok_frame [of _ w w'] unfolding timers_ok_def assms(2) by blast

section \<open>Opening and closing a slot\<close>

lemma own_update [simp]:
  "own (w\<lparr>ws_users := u\<rparr>) = own w" "own (w\<lparr>ws_users_timer := ut\<rparr>) = own w" "own (w\<lparr>ws_user_count := n\<rparr>) = own w"
  "own (w\<lparr>ws_timer_lst := l\<rparr>) = own w" "own (w\<lparr>ws_kernel := k\<rparr>) = own w" "own (w\<lparr>ws_pool := p\<rparr>) = own w"
  "own (w\<lparr>ws_listen_paused := b\<rparr>) = own w" "own (w\<lparr>ws_app := a\<rparr>) = own w" "own (w\<lparr>ws_slog := sl\<rparr>) = own w"
  "own (on_kernel f w) = own w"
  by (simp_all add: own_def on_kernel_def)

lemma cb_func_frame [simp]:
  "ws_timer_lst (cb_func i w) = ws_timer_lst w" "ws_pool (cb_func i w) = ws_pool w" "own (cb_func i w) = own w"
  "ws_listenfd (cb_func i w) = ws_listenfd w" "ws_pipefd (cb_func i w) = ws_pipefd w" "ws_epollfd (cb_func i w) = ws_epollfd w"
  "ws_listen_paused (cb_func i w) = ws_listen_paused w" "ws_timeslot (cb_func i w) = ws_timeslot w"
  by (simp_all add: cb_func_def on_kernel_def own_def Let_def split: option.splits)

lemma cb_func_closes:
  assumes "slots_ok S w" "e \<in> S"
  shows "slots_ok (S - {e}) (cb_func (eslot e) w)"
    and "ws_listenfd w \<in> own w \<Longrightarrow>
      k_interest (ws_kernel (cb_func (eslot e) w)) (ws_listenfd w) = k_interest (ws_kernel w) (ws_listenfd w)"
proof -
  have e: "entry_ok w e" and fin: "finite S" and inj: "inj_on eslot S"
    and o: "k_open (ws_kernel w) = own w \<union> int ` eslot ` S" using assms by (simp_all add: slots_ok_def)
  let ?i = "eslot e"
  have in_open: "int ?i \<in> k_open (ws_kernel w)" using o assms(2) by auto
  have ut: "ws_users_timer w ?i = \<lparr>cd_sockfd = int ?i, cd_timer = Some (fst e), cd_conn = Some ?i\<rparr>"
    using e by (simp add: entry_ok_def)
  let ?w = "cb_func ?i w"
  have w1: "ws_users_timer ?w = (ws_users_timer w)(?i := \<lparr>cd_sockfd = - 1, cd_timer = None, cd_conn = Some ?i\<rparr>)"
    "ws_user_count ?w = ws_user_count w - 1" "k_open (ws_kernel ?w) = k_open (ws_kernel w) - {int ?i}"
    "k_interest (ws_kernel ?w) = (k_interest (ws_kernel w))(int ?i := None)" "k_bad_close (ws_kernel ?w) = k_bad_close (ws_kernel w)"
    using ut in_open by (simp_all add: cb_func_def on_kernel_def sys_close_def epoll_del_def Let_def)
  have other: "eslot e' \<noteq> ?i" if "e' \<in> S - {e}" for e' using that inj assms(2) by (auto dest: inj_onD)
  have "entry_ok ?w e'" if "e' \<in> S - {e}" for e'
    using that other [OF that] assms(1) by (auto simp: entry_ok_def w1 slots_ok_def)
  moreover have "eslot ` (S - {e}) = eslot ` S - {?i}" using inj assms(2) by (auto dest: inj_onD)
  moreover have "ws_user_count w - 1 = int (card (S - {e}))"
    using assms fin card_Suc_Diff1 [OF fin assms(2)] by (simp add: slots_ok_def)
  moreover have "int ?i \<notin> own w" using e by (simp add: entry_ok_def)
  ultimately show "slots_ok (S - {e}) ?w"
    using assms(1) inj by (auto simp: slots_ok_def w1 inj_on_diff)
  show "k_interest (ws_kernel ?w) (ws_listenfd w) = k_interest (ws_kernel w) (ws_listenfd w)" if "ws_listenfd w \<in> own w"
    using that \<open>int ?i \<notin> own w\<close> by (auto simp: w1)
qed

lemma timer_opens:
  assumes "slots_ok S w" "int fd \<notin> k_open (ws_kernel w)" "0 < fd" "fd < MAX_FD" "tl_add_timer (Some t) (new_timer t fd ex (ws_timer_lst w)) = Some lst"
    and ex: "ex = now + 3 * TIMESLOT"
  shows "\<exists>w'. ws_timer fd t now (on_kernel (sys_open (int fd)) w) = Some w' \<and> slots_ok (insert (t, ex, fd) S) w'
    \<and> ws_timer_lst w' = lst \<and> ws_pool w' = ws_pool w \<and> own w' = own w \<and> ws_listenfd w' = ws_listenfd w
    \<and> ws_pipefd w' = ws_pipefd w \<and> ws_epollfd w' = ws_epollfd w \<and> ws_listen_paused w' = ws_listen_paused w
    \<and> ws_LISTENTrigmode w' = ws_LISTENTrigmode w
    \<and> (ws_listenfd w \<in> own w \<longrightarrow> k_interest (ws_kernel w') (ws_listenfd w) = k_interest (ws_kernel w) (ws_listenfd w))"
proof -
  obtain w' where w': "ws_timer fd t now (on_kernel (sys_open (int fd)) w) = Some w'"
    using assms(4,5) ex by (auto simp: ws_timer_def on_kernel_def Let_def)
  let ?k = "addfd (int fd) True (ws_CONNTrigmode w) (sys_open (int fd) (ws_kernel w))"
  have w1: "ws_users_timer w' = (ws_users_timer w)(fd := \<lparr>cd_sockfd = int fd, cd_timer = Some t, cd_conn = Some fd\<rparr>)"
    "ws_user_count w' = ws_user_count w + 1" "ws_kernel w' = ?k" "own w' = own w" "ws_timer_lst w' = lst"
    using w' assms(4,5) ex by (auto simp: ws_timer_def on_kernel_def own_def Let_def)
  have k: "k_open ?k = insert (int fd) (k_open (ws_kernel w))" "k_bad_close ?k = k_bad_close (ws_kernel w)"
    "dom (k_interest ?k) = insert (int fd) (dom (k_interest (ws_kernel w)))"
    "\<And>f. f \<noteq> int fd \<Longrightarrow> k_interest ?k f = k_interest (ws_kernel w) f"
    by (auto simp: addfd_def epoll_add_def sys_open_def split: if_splits)
  have new: "fd \<notin> eslot ` S" "int fd \<notin> own w" using assms(1,2) by (auto simp: slots_ok_def)
  have "entry_ok w' e" if "e \<in> S" for e
  proof -
    have "eslot e \<noteq> fd" using new(1) that by auto
    then show ?thesis using that assms(1) by (auto simp: entry_ok_def w1 k slots_ok_def)
  qed
  moreover have "entry_ok w' (t, ex, fd)" using assms(3,4) new by (auto simp: entry_ok_def eslot_def w1 k)
  moreover have "(t, ex, fd) \<notin> S" using new by (force simp: eslot_def)
  ultimately have "slots_ok (insert (t, ex, fd) S) w'"
    using assms(1,3) new by (auto simp: slots_ok_def w1 k eslot_def inj_on_def card_insert_if)
  moreover have "ws_listenfd w \<in> own w \<Longrightarrow> k_interest (ws_kernel w') (ws_listenfd w) = k_interest (ws_kernel w) (ws_listenfd w)"
    unfolding w1(3) using new(2) by (intro k(4)) auto
  moreover have "ws_pool w' = ws_pool w \<and> ws_listenfd w' = ws_listenfd w \<and> ws_pipefd w' = ws_pipefd w
      \<and> ws_epollfd w' = ws_epollfd w \<and> ws_listen_paused w' = ws_listen_paused w \<and> ws_LISTENTrigmode w' = ws_LISTENTrigmode w"
    using w' assms(4,5) ex by (auto simp: ws_timer_def on_kernel_def Let_def)
  ultimately show ?thesis using w' w1 by blast
qed

section \<open>Steps keep the invariant\<close>

text \<open>The server while it runs; \<open>clk\<close> is the latest clock reading so far.\<close>

definition server_ok :: "int \<Rightarrow> ('r, 'm, 'k) web_server \<Rightarrow> bool" where
  "server_ok clk w \<longleftrightarrow> timers_ok clk w \<and> ws_pool w \<noteq> None"

text \<open>What no step touches, apart from those that deal with the listening socket.\<close>

definition same_listen :: "('r, 'm, 'k) web_server \<Rightarrow> ('r, 'm, 'k) web_server \<Rightarrow> bool" where
  "same_listen w w' \<longleftrightarrow> ws_listenfd w' = ws_listenfd w \<and> ws_pipefd w' = ws_pipefd w \<and> ws_epollfd w' = ws_epollfd w
     \<and> ws_listen_paused w' = ws_listen_paused w
     \<and> (ws_listenfd w \<in> own w \<longrightarrow>
          (ws_listenfd w \<in> dom (k_interest (ws_kernel w')) \<longleftrightarrow> ws_listenfd w \<in> dom (k_interest (ws_kernel w))))"

lemma same_listen_trans: "same_listen w w' \<Longrightarrow> same_listen w' w'' \<Longrightarrow> same_listen w w''"
  by (auto simp: same_listen_def own_def)

lemma listening_same: "listening_ok w \<Longrightarrow> same_listen w w' \<Longrightarrow> listening_ok w'"
  by (auto simp: listening_ok_def same_listen_def own_def)

lemma live_entry:
  assumes "slots_ok (set xs) w" "0 < cd_sockfd (ws_users_timer w i)"
  obtains t d where "(t, d, i) \<in> set xs" "cd_timer (ws_users_timer w i) = Some t" "0 < i" "i < MAX_FD"
    "int i \<in> k_open (ws_kernel w)"
proof -
  from assms obtain e where e: "e \<in> set xs" "eslot e = i" by (auto simp: slots_ok_def)
  with assms(1) have "entry_ok w e" by (simp add: slots_ok_def)
  moreover have "int i \<in> k_open (ws_kernel w)" using assms(1) e by (auto simp: slots_ok_def)
  ultimately show thesis using that [of "fst e" "fst (snd e)"] e by (auto simp: entry_ok_def eslot_def)
qed

lemma remove_entry: "distinct (map fst (ys @ e # zs)) \<Longrightarrow> set (ys @ e # zs) - {e} = set (ys @ zs)"
  by (auto dest: imageI [where f = fst])

lemma deal_timer_ok:
  assumes "server_ok clk w" "0 < cd_sockfd (ws_users_timer w i)"
  shows "\<exists>w'. ws_deal_timer (cd_timer (ws_users_timer w i)) i w = Some w' \<and> server_ok clk w' \<and> same_listen w w'
    \<and> \<not> 0 < cd_sockfd (ws_users_timer w' i) \<and> (\<forall>j. 0 < cd_sockfd (ws_users_timer w' j) \<longrightarrow> 0 < cd_sockfd (ws_users_timer w j))"
proof -
  from assms obtain xs where xs: "tl_abs (ws_timer_lst w) xs" "slots_ok (set xs) w" "\<forall>e \<in> set xs. due e \<le> clk + 3 * TIMESLOT"
    by (auto simp: server_ok_def timers_ok_def)
  from live_entry [OF xs(2) assms(2)] obtain t d where e: "(t, d, i) \<in> set xs" "cd_timer (ws_users_timer w i) = Some t"
    "0 < i" "i < MAX_FD" by blast
  obtain ys zs where sp: "xs = ys @ (t, d, i) # zs" using e(1) by (meson split_list)
  have dist: "distinct (map fst xs)" using xs(1) by (simp add: tl_abs_def tl_rep_def)
  have hp: "heap (ws_timer_lst w) t \<noteq> None"
  proof -
    have "info (heap (ws_timer_lst w)) t = Some (d, i)" using xs(1) e(1) dist by (simp add: tl_abs_def)
    then show ?thesis by (auto simp: info_def)
  qed
  from del_refines [of "ws_timer_lst w" ys t "(d, i)" zs] xs(1) sp obtain lst
    where lst: "tl_del_timer (Some t) (ws_timer_lst w) = Some lst" "tl_abs lst (ys @ zs)" by auto
  have S: "set xs - {(t, d, i)} = set (ys @ zs)" using remove_entry [OF dist [unfolded sp]] unfolding sp .
  let ?w = "cb_func i w"
  note c = cb_func_closes [OF xs(2) e(1), unfolded eslot_def, simplified]
  have none: "cd_timer (ws_users_timer ?w i) = None" "\<not> 0 < cd_sockfd (ws_users_timer ?w i)"
    using e by (simp_all add: cb_func_def on_kernel_def Let_def) (use assms(2) in simp)
  let ?w' = "?w\<lparr>ws_timer_lst := lst, ws_users_timer := (ws_users_timer ?w)(i := (ws_users_timer ?w i)\<lparr>cd_timer := None\<rparr>)\<rparr>"
  have ut: "(ws_users_timer ?w)(i := (ws_users_timer ?w i)\<lparr>cd_timer := None\<rparr>) = ws_users_timer ?w"
    using none(1) by (auto simp: fun_eq_iff)
  have "ws_deal_timer (Some t) i w = Some ?w'" using e(4) hp lst(1) by (auto simp: ws_deal_timer_def Let_def)
  moreover have "slots_ok (set (ys @ zs)) ?w'" unfolding S [symmetric] by (rule slots_ok_frame [OF c(1)]) (simp_all add: ut)
  then have "server_ok clk ?w'" using lst(2) xs(3) assms(1) sp by (auto simp: server_ok_def timers_ok_def)
  moreover have "same_listen w ?w'" using c(2) by (simp add: same_listen_def domIff)
  moreover have "0 < cd_sockfd (ws_users_timer ?w j) \<Longrightarrow> 0 < cd_sockfd (ws_users_timer w j)" for j
    by (cases "j = i") (use none in \<open>auto simp: cb_func_def on_kernel_def Let_def split: if_splits option.splits\<close>)
  ultimately show ?thesis using e(2) none(2) ut by auto
qed

lemma clock_mono: "server_ok clk w \<Longrightarrow> clk \<le> now \<Longrightarrow> server_ok now w"
  by (force simp: server_ok_def timers_ok_def)

lemma adjust_timer_ok:
  assumes "server_ok clk w" "0 < cd_sockfd (ws_users_timer w i)" "clk \<le> now"
  shows "\<exists>w'. touch_timer (cd_timer (ws_users_timer w i)) now w = Some w' \<and> server_ok now w' \<and> same_listen w w'"
proof -
  from assms obtain xs where xs: "tl_abs (ws_timer_lst w) xs" "slots_ok (set xs) w" "\<forall>e \<in> set xs. due e \<le> clk + 3 * TIMESLOT"
    by (auto simp: server_ok_def timers_ok_def)
  from live_entry [OF xs(2) assms(2)] obtain t d where e: "(t, d, i) \<in> set xs" "cd_timer (ws_users_timer w i) = Some t" by blast
  obtain ys zs where sp: "xs = ys @ (t, d, i) # zs" using e(1) by (meson split_list)
  have "d \<le> now + 3 * TIMESLOT" using xs(3) e(1) assms(3) by (force simp: due_def)
  with adjust_refines [of "ws_timer_lst w" ys t d i zs] xs(1) sp obtain lst
    where lst: "Option.bind (set_expire t (now + 3 * TIMESLOT) (ws_timer_lst w)) (tl_adjust_timer (Some t)) = Some lst"
      "tl_abs lst (spec_insert (t, now + 3 * TIMESLOT, i) (ys @ zs))" by blast
  let ?e = "(t, now + 3 * TIMESLOT, i)" and ?w = "w\<lparr>ws_timer_lst := lst\<rparr>"
  have dist: "distinct (map fst xs)" using xs(1) by (simp add: tl_abs_def tl_rep_def)
  have S: "set (spec_insert ?e (ys @ zs)) = insert ?e (set xs - {(t, d, i)})"
  proof -
    have "set (takeWhile P us) \<union> set (dropWhile P us) = set us" for P and us :: "timer_entry list"
      by (metis set_append takeWhile_dropWhile_id)
    then have "set (spec_insert ?e us) = insert ?e (set us)" for us by (auto simp: spec_insert_def)
    then show ?thesis using remove_entry [OF dist [unfolded sp]] unfolding sp by simp
  qed
  have fresh: "?e \<notin> set xs - {(t, d, i)}" using dist e(1) by (auto dest: eq_key_imp_eq_value)
  have slots: "slots_ok (set (spec_insert ?e (ys @ zs))) w"
  proof -
    have inj: "inj_on eslot (set xs)" and ok: "\<forall>x \<in> set xs. entry_ok w x" using xs(2) by (simp_all add: slots_ok_def)
    have im: "eslot ` insert ?e (set xs - {(t, d, i)}) = eslot ` set xs" using e(1) by (force simp: eslot_def)
    have "inj_on eslot (insert ?e (set xs - {(t, d, i)}))"
    proof -
      have "eslot z \<noteq> i" if "z \<in> set xs - {(t, d, i)}" for z
        using that e(1) inj_onD [OF inj, of z "(t, d, i)"] by (auto simp: eslot_def)
      moreover have "eslot ?e = i" by (simp add: eslot_def)
      ultimately show ?thesis using inj_on_diff [OF inj] by (auto simp: inj_on_insert)
    qed
    moreover have "entry_ok w ?e" using ok e(1) by (auto simp: entry_ok_def eslot_def)
    moreover have "card (insert ?e (set xs - {(t, d, i)})) = card (set xs)"
      using fresh card_Suc_Diff1 [OF _ e(1)] by (simp del: card_Diff_insert)
    ultimately show ?thesis using xs(2) ok im unfolding S slots_ok_def by auto
  qed
  then have "slots_ok (set (spec_insert ?e (ys @ zs))) ?w" by (rule slots_ok_frame) simp_all
  moreover have "\<forall>x \<in> set (spec_insert ?e (ys @ zs)). due x \<le> now + 3 * TIMESLOT"
    using xs(3) assms(3) unfolding S by (force simp: due_def)
  ultimately have "server_ok now ?w" using lst(2) assms(1) by (auto simp: server_ok_def timers_ok_def)
  then show ?thesis using lst(1) e(2) by (auto simp: touch_timer_def ws_adjust_timer_def same_listen_def)
qed

section \<open>The timer tick\<close>

lemma fold_cb_func_ok:
  assumes "slots_ok S w" "set es \<subseteq> S" "distinct es"
  shows "slots_ok (S - set es) (fold cb_func (map eslot es) w) \<and> same_listen w (fold cb_func (map eslot es) w)
    \<and> ws_timer_lst (fold cb_func (map eslot es) w) = ws_timer_lst w \<and> ws_pool (fold cb_func (map eslot es) w) = ws_pool w"
  using assms
proof (induction es arbitrary: S w)
  case (Cons e es)
  have e: "e \<in> S" "set es \<subseteq> S - {e}" "distinct es" using Cons.prems(2,3) by auto
  note c = cb_func_closes [OF Cons.prems(1) e(1)]
  have "same_listen w (cb_func (eslot e) w)" using c(2) by (simp add: same_listen_def domIff)
  moreover have "S - {e} - set es = S - set (e # es)" by auto
  ultimately show ?case using Cons.IH [OF c(1) e(2,3)] by (auto intro: same_listen_trans)
qed (simp add: same_listen_def)

lemma timer_handler_ok:
  assumes "server_ok clk w"
  shows "\<exists>w'. timer_handler now w = Some w' \<and> server_ok clk w' \<and> same_listen w w'"
proof -
  from assms obtain xs where xs: "tl_abs (ws_timer_lst w) xs" "slots_ok (set xs) w" "\<forall>e \<in> set xs. due e \<le> clk + 3 * TIMESLOT"
    by (auto simp: server_ok_def timers_ok_def)
  let ?es = "filter (\<lambda>y. due y \<le> now) xs" and ?rest = "filter (\<lambda>y. now < due y) xs"
  have slots: "map (snd \<circ> snd) ?es = map eslot ?es" by (simp add: eslot_def comp_def)
  from tick_refines [OF xs(1), of now] obtain lst where lst: "tl_tick now (ws_timer_lst w) = Some (map eslot ?es, lst)" "tl_abs lst ?rest"
    unfolding slots by blast
  let ?w0 = "w\<lparr>ws_timer_lst := lst\<rparr>"
  have "distinct xs" using xs(1) by (auto simp: tl_abs_def tl_rep_def distinct_map)
  moreover have "slots_ok (set xs) ?w0" by (rule slots_ok_frame [OF xs(2)]) simp_all
  moreover have "set ?es \<subseteq> set xs" by simp
  moreover define w1 where "w1 = fold cb_func (map eslot ?es) ?w0"
  ultimately have "slots_ok (set xs - set ?es) w1 \<and> same_listen ?w0 w1 \<and> ws_timer_lst w1 = ws_timer_lst ?w0 \<and> ws_pool w1 = ws_pool ?w0"
    unfolding w1_def by (intro fold_cb_func_ok) (simp_all only: distinct_filter)
  then have f: "slots_ok (set xs - set ?es) w1" "same_listen ?w0 w1" "ws_timer_lst w1 = lst" "ws_pool w1 = ws_pool w"
    by simp_all
  let ?w' = "on_kernel (\<lambda>k. k\<lparr>k_alarm := Some (ws_timeslot w)\<rparr>) w1"
  have "set xs - set ?es = set ?rest" by auto
  then have "slots_ok (set ?rest) w1" using f(1) by metis
  then have "slots_ok (set ?rest) ?w'" by (rule slots_ok_frame) (simp_all add: on_kernel_def)
  moreover have "ws_timer_lst ?w' = lst" "ws_pool ?w' = ws_pool w" using f by (simp_all add: on_kernel_def)
  ultimately have "server_ok clk ?w'" using lst(2) xs(3) assms by (auto simp: server_ok_def timers_ok_def)
  moreover have "same_listen w ?w'" using f(2) by (simp add: same_listen_def on_kernel_def own_def)
  ultimately show ?thesis using lst(1) by (simp add: timer_handler_def w1_def)
qed

section \<open>Accepting\<close>

lemma open_listen: "server_ok clk w \<Longrightarrow> own w \<subseteq> k_open (ws_kernel w)"
  by (auto simp: server_ok_def timers_ok_def slots_ok_def)

lemma pause_accept_ok:
  assumes "server_ok clk w" "listening_ok w"
  shows "server_ok clk (pause_accept w) \<and> listening_ok (pause_accept w)"
proof (cases "ws_listen_paused w")
  case False
  then have p: "pause_accept w = on_kernel (epoll_del (ws_listenfd w)) (w\<lparr>ws_listen_paused := True\<rparr>)" by (simp add: pause_accept_def)
  have "ws_listenfd w \<in> own w" using assms(2) by (simp add: listening_ok_def own_def)
  then have "timers_ok clk (pause_accept w)"
    using assms(1) unfolding p server_ok_def
    by (elim conjE timers_ok_frame) (auto simp: on_kernel_def epoll_del_def)
  then show ?thesis using assms unfolding p by (auto simp: server_ok_def listening_ok_def on_kernel_def epoll_del_def)
qed (use assms in \<open>simp add: pause_accept_def\<close>)

lemma resume_accept_ok:
  assumes "server_ok clk w" "listening_ok w"
  shows "server_ok clk (resume_accept w) \<and> listening_ok (resume_accept w)"
proof -
  have l: "ws_listenfd w \<in> own w" using assms(2) by (simp add: listening_ok_def own_def)
  then have op: "ws_listenfd w \<in> k_open (ws_kernel w)" using open_listen [OF assms(1)] by blast
  have "timers_ok clk (resume_accept w)"
    using assms(1) unfolding server_ok_def
    by (elim conjE timers_ok_frame) (auto simp: resume_accept_def on_kernel_def utils_addfd_def epoll_add_def)
  then show ?thesis using assms op
    by (auto simp: server_ok_def listening_ok_def resume_accept_def on_kernel_def utils_addfd_def epoll_add_def)
qed

text \<open>What the kernel and the allocator promise about an accepted connection: its descriptor and the address of its
  timer are not in use.  That the descriptor fits the arrays is nothing the code checks.\<close>

fun accept_fresh :: "int \<Rightarrow> accept_result \<Rightarrow> ('r, 'm, 'k) web_server \<Rightarrow> bool" where
  "accept_fresh limit (Accepted fd t now) w \<longleftrightarrow> int fd \<notin> k_open (ws_kernel w) \<and> 0 < fd \<and> fd < MAX_FD
     \<and> heap (ws_timer_lst w) t = None \<and> now \<le> limit"
| "accept_fresh limit _ w \<longleftrightarrow> True"

fun accepts_ok :: "int \<Rightarrow> accept_result list \<Rightarrow> ('r, 'm, 'k) web_server \<Rightarrow> bool" where
  "accepts_ok limit [] w \<longleftrightarrow> True"
| "accepts_ok limit (r # rs) w \<longleftrightarrow> accept_fresh limit r w \<and>
     (case accept_one r w of Some (True, w') \<Rightarrow> accepts_ok limit rs w' | _ \<Rightarrow> True)"

lemma busy_ok:
  assumes "server_ok clk w" "int fd \<notin> k_open (ws_kernel w)"
  shows "server_ok clk (on_kernel (show_error (int fd) busy) (on_kernel (sys_open (int fd)) w))"
proof -
  from assms(1) obtain xs where xs: "tl_abs (ws_timer_lst w) xs" "slots_ok (set xs) w" "\<forall>e \<in> set xs. due e \<le> clk + 3 * TIMESLOT"
    by (auto simp: server_ok_def timers_ok_def)
  let ?w = "on_kernel (show_error (int fd) busy) (on_kernel (sys_open (int fd)) w)"
  have o: "k_open (ws_kernel w) = own w \<union> int ` eslot ` set xs" using xs(2) by (simp add: slots_ok_def)
  have "slots_ok (set xs) ?w"
    using xs(2) assms(2) o
    by (auto simp: slots_ok_def entry_ok_def on_kernel_def show_error_def sys_send_def sys_open_def sys_close_def own_def)
  then show ?thesis using xs(1,3) assms(1) by (auto simp: server_ok_def timers_ok_def on_kernel_def)
qed

lemma accept_one_ok:
  assumes "server_ok clk w" "listening_ok w" "accept_fresh limit r w" "clk \<le> limit"
  shows "\<exists>b w'. accept_one r w = Some (b, w') \<and> server_ok limit w' \<and> listening_ok w' \<and> ws_LISTENTrigmode w' = ws_LISTENTrigmode w"
proof (cases r)
  case AcceptExhausted
  moreover have "ws_LISTENTrigmode (pause_accept w) = ws_LISTENTrigmode w" by (simp add: pause_accept_def on_kernel_def)
  ultimately show ?thesis using pause_accept_ok [OF clock_mono [OF assms(1,4)] assms(2)] by (auto simp: accept_one_def)
next
  case AcceptError
  then show ?thesis using clock_mono [OF assms(1,4)] assms(2) by (auto simp: accept_one_def)
next
  case (Accepted fd t now)
  with assms(3) have f: "int fd \<notin> k_open (ws_kernel w)" "0 < fd" "fd < MAX_FD" "heap (ws_timer_lst w) t = None" "now \<le> limit" by simp_all
  show ?thesis
  proof (cases "ws_user_count w \<ge> int MAX_FD")
    case True
    let ?w = "on_kernel (show_error (int fd) busy) (on_kernel (sys_open (int fd)) w)"
    have "ws_listenfd w \<in> k_open (ws_kernel w)" using open_listen [OF assms(1)] assms(2) by (auto simp: listening_ok_def own_def)
    then have "ws_listenfd w \<noteq> int fd" using f(1) by auto
    then have "listening_ok ?w" using assms(2)
      by (auto simp: listening_ok_def on_kernel_def show_error_def sys_send_def sys_open_def sys_close_def)
    moreover have "ws_LISTENTrigmode ?w = ws_LISTENTrigmode w" "accept_one r w = Some (False, ?w)"
      using True Accepted by (simp_all add: accept_one_def on_kernel_def Let_def)
    ultimately show ?thesis using busy_ok [OF clock_mono [OF assms(1,4)] f(1)] by blast
  next
    case False
    from clock_mono [OF assms(1,4)] obtain xs where xs: "tl_abs (ws_timer_lst w) xs" "slots_ok (set xs) w" "\<forall>e \<in> set xs. due e \<le> limit + 3 * TIMESLOT"
      by (auto simp: server_ok_def timers_ok_def)
    have "map_of xs t = None" using xs(1) f(4) by (metis info_def option.map_disc_iff tl_abs_def)
    from add_refines [OF xs(1) this, of fd "now + 3 * TIMESLOT"] obtain lst where
      lst: "tl_add_timer (Some t) (new_timer t fd (now + 3 * TIMESLOT) (ws_timer_lst w)) = Some lst"
        "tl_abs lst (spec_insert (t, now + 3 * TIMESLOT, fd) xs)" by blast
    from timer_opens [OF xs(2) f(1-3) lst(1) refl] obtain w' where w': "ws_timer fd t now (on_kernel (sys_open (int fd)) w) = Some w'"
      "slots_ok (insert (t, now + 3 * TIMESLOT, fd) (set xs)) w'" "ws_timer_lst w' = lst" "ws_pool w' = ws_pool w"
      "same_listen w w'" "ws_LISTENTrigmode w' = ws_LISTENTrigmode w" by (auto simp: same_listen_def domIff)
    have "set (takeWhile P us) \<union> set (dropWhile P us) = set us" for P and us :: "timer_entry list"
      by (metis set_append takeWhile_dropWhile_id)
    then have S: "set (spec_insert e us) = insert e (set us)" for e us by (auto simp: spec_insert_def)
    have "server_ok limit w'" using lst(2) w'(2-4) xs(3) f(5) assms(1)
      by (auto simp: server_ok_def timers_ok_def S due_def intro!: exI [of _ "spec_insert (t, now + 3 * TIMESLOT, fd) xs"])
    moreover have "accept_one r w = Some (True, w')"
      using w'(1) Accepted False by (simp add: accept_one_def Let_def) (simp add: on_kernel_def)
    ultimately show ?thesis using listening_same [OF assms(2) w'(5)] w'(6) by blast
  qed
qed

lemma accept_loop_ok:
  assumes "server_ok clk w" "listening_ok w" "accepts_ok limit rs w" "clk \<le> limit"
  shows "\<exists>w'. accept_loop rs w = Some w' \<and> server_ok limit w' \<and> listening_ok w'"
  using assms
proof (induction rs arbitrary: clk w)
  case Nil
  then show ?case by (simp add: accept_one_def clock_mono)
next
  case (Cons r rs)
  from accept_one_ok [OF Cons.prems(1,2) _ Cons.prems(4), of r] Cons.prems(3) obtain b w1
    where w1: "accept_one r w = Some (b, w1)" "server_ok limit w1" "listening_ok w1" by auto
  show ?case
  proof (cases b)
    case True
    with Cons.prems(3) w1 have "accepts_ok limit rs w1" by simp
    from Cons.IH [OF w1(2,3) this] True w1 show ?thesis by simp
  qed (use w1 in auto)
qed

section \<open>Events\<close>

lemma server_ok_frame:
  assumes "server_ok clk w" "ws_timer_lst w' = ws_timer_lst w" "ws_users_timer w' = ws_users_timer w"
    "ws_user_count w' = ws_user_count w" "own w' = own w" "k_open (ws_kernel w') = k_open (ws_kernel w)"
    "k_bad_close (ws_kernel w') = k_bad_close (ws_kernel w)" "dom (k_interest (ws_kernel w')) = dom (k_interest (ws_kernel w))"
    "ws_pool w' \<noteq> None"
  shows "server_ok clk w'"
  using assms(1,9) timers_ok_frame [OF _ assms(2-7)] unfolding server_ok_def assms(8) by blast

lemma modfd_frame [simp]:
  "k_open (fold modfd ops k) = k_open k" "k_bad_close (fold modfd ops k) = k_bad_close k"
  "dom (k_interest (fold modfd ops k)) = dom (k_interest k)"
proof -
  have 1: "k_open (modfd op k) = k_open k \<and> k_bad_close (modfd op k) = k_bad_close k
      \<and> dom (k_interest (modfd op k)) = dom (k_interest k)" for op k
    by (cases op) (auto simp: epoll_mod_def)
  show "k_open (fold modfd ops k) = k_open k" "k_bad_close (fold modfd ops k) = k_bad_close k"
    "dom (k_interest (fold modfd ops k)) = dom (k_interest k)"
    by (induction ops arbitrary: k) (simp_all add: 1)
qed

lemma users_ok: "server_ok clk w \<Longrightarrow> server_ok clk (w\<lparr>ws_users := u\<rparr>)"
  by (rule server_ok_frame, assumption) (simp_all add: server_ok_def)

lemma send_ok [simp]: "k_open (sys_send fd bs k) = k_open k" "k_bad_close (sys_send fd bs k) = k_bad_close k"
  "k_interest (sys_send fd bs k) = k_interest k"
  by (simp_all add: sys_send_def)

lemma dispatch_conn_ok:
  assumes "server_ok clk w" "0 < cd_sockfd (ws_users_timer w i)"
  shows "\<exists>b w'. dispatch_conn i w = Some (b, w') \<and> server_ok clk w' \<and> same_listen w w'
    \<and> (b \<longrightarrow> ws_users_timer w' = ws_users_timer w)"
proof -
  obtain p where p: "ws_pool w = Some p" using assms(1) by (auto simp: server_ok_def)
  obtain b p' where a: "append_p (Some i) (current_generation (ws_users w i)) p = (b, p')" by fastforce
  show ?thesis
  proof (cases b)
    case True
    have "server_ok clk (w\<lparr>ws_pool := Some p'\<rparr>)" by (rule server_ok_frame [OF assms(1)]) simp_all
    then show ?thesis using True a p by (auto simp: dispatch_conn_def same_listen_def)
  next
    case False
    let ?w = "case reject_overload (ws_users w i) of None \<Rightarrow> w\<lparr>ws_pool := Some p'\<rparr>
      | Some bs \<Rightarrow> on_kernel (sys_send (m_sockfd (ws_users w i)) bs) (w\<lparr>ws_pool := Some p'\<rparr>)"
    have f: "ws_users_timer ?w = ws_users_timer w" "same_listen w ?w"
      by (simp_all add: same_listen_def on_kernel_def split: option.splits)
    have "server_ok clk ?w" by (rule server_ok_frame [OF assms(1)]) (simp_all add: on_kernel_def own_def split: option.splits)
    from deal_timer_ok [OF this, of i] f assms(2) obtain w' where
      "ws_deal_timer (cd_timer (ws_users_timer w i)) i ?w = Some w'" "server_ok clk w'" "same_listen ?w w'" by auto
    then show ?thesis using False a p same_listen_trans [OF f(2)] by (auto simp: dispatch_conn_def)
  qed
qed

text \<open>Handing over and moving the timer, as both handlers end.\<close>

lemma dispatch_touch_ok:
  assumes "server_ok clk w" "0 < cd_sockfd (ws_users_timer w i)" "clk \<le> now"
  shows "\<exists>w'. (case dispatch_conn i w of None \<Rightarrow> None | Some (False, w2) \<Rightarrow> Some w2
      | Some (True, w2) \<Rightarrow> touch_timer (cd_timer (ws_users_timer w i)) now w2) = Some w' \<and> server_ok now w' \<and> same_listen w w'"
proof -
  from dispatch_conn_ok [OF assms(1,2)] obtain b w1 where
    w1: "dispatch_conn i w = Some (b, w1)" "server_ok clk w1" "same_listen w w1" "b \<longrightarrow> ws_users_timer w1 = ws_users_timer w" by blast
  show ?thesis
  proof (cases b)
    case True
    with w1(4) assms(2) adjust_timer_ok [OF w1(2) _ assms(3), of i] obtain w' where
      "touch_timer (cd_timer (ws_users_timer w i)) now w1 = Some w'" "server_ok now w'" "same_listen w1 w'" by auto
    then show ?thesis using True w1 same_listen_trans by auto
  qed (use w1 clock_mono [OF w1(2) assms(3)] in auto)
qed

lemma dealwithread_ok:
  assumes "server_ok clk w" "0 < cd_sockfd (ws_users_timer w i)" "clk \<le> now" "i < MAX_FD"
  shows "\<exists>w'. dealwithread i rs now w = Some w' \<and> server_ok now w' \<and> same_listen w w'"
proof -
  obtain got c where r: "read_once rs (ws_users w i) = (got, c)" by fastforce
  let ?w = "w\<lparr>ws_users := (ws_users w)(i := c)\<rparr>"
  have ok: "server_ok clk ?w" and s: "same_listen w ?w" and l: "0 < cd_sockfd (ws_users_timer ?w i)"
    and ut: "ws_users_timer ?w = ws_users_timer w"
    using users_ok [OF assms(1)] assms(2) by (simp_all add: same_listen_def)
  show ?thesis
  proof (cases got)
    case True
    from dispatch_touch_ok [OF ok l assms(3)] obtain w' where "(case dispatch_conn i ?w of None \<Rightarrow> None | Some (False, w2) \<Rightarrow> Some w2
      | Some (True, w2) \<Rightarrow> touch_timer (cd_timer (ws_users_timer w i)) now w2) = Some w'" "server_ok now w'" "same_listen ?w w'" unfolding ut by blast
    then show ?thesis using True r assms(4) same_listen_trans [OF s] by (auto simp: dealwithread_def)
  next
    case False
    from deal_timer_ok [OF ok l] obtain w' where
      "ws_deal_timer (cd_timer (ws_users_timer w i)) i ?w = Some w'" "server_ok clk w'" "same_listen ?w w'" by auto
    then show ?thesis using False r assms(4) same_listen_trans [OF s] clock_mono [OF _ assms(3)] by (auto simp: dealwithread_def)
  qed
qed

lemma dealwithwrite_ok:
  assumes "server_ok clk w" "0 < cd_sockfd (ws_users_timer w i)" "clk \<le> now" "i < MAX_FD"
  shows "\<exists>w'. dealwithwrite i wrs now w = Some w' \<and> server_ok now w' \<and> same_listen w w'"
proof -
  obtain ok c ops out where r: "conn_write wrs (ws_users w i) = (ok, c, ops, out)" by (metis prod_cases4)
  let ?w = "on_kernel (\<lambda>k. fold modfd ops (sys_send (m_sockfd (ws_users w i)) out k)) (w\<lparr>ws_users := (ws_users w)(i := c)\<rparr>)"
  have sv: "server_ok clk ?w"
    by (rule server_ok_frame [OF assms(1)]) (use assms(1) in \<open>simp_all add: on_kernel_def own_def server_ok_def\<close>)
  have s: "same_listen w ?w" and l: "0 < cd_sockfd (ws_users_timer ?w i)" and ut: "ws_users_timer ?w = ws_users_timer w"
    using assms(2) by (simp_all add: same_listen_def on_kernel_def)
  consider (close) "\<not> ok" | (more) "ok" "has_pipelined_input c" | (idle) "ok" "\<not> has_pipelined_input c" by blast
  then show ?thesis
  proof cases
    case close
    from deal_timer_ok [OF sv l] obtain w' where
      "ws_deal_timer (cd_timer (ws_users_timer w i)) i ?w = Some w'" "server_ok clk w'" "same_listen ?w w'" unfolding ut by auto
    then show ?thesis using close r assms(4) same_listen_trans [OF s] clock_mono [OF _ assms(3)]
      by (auto simp: dealwithwrite_def)
  next
    case more
    from dispatch_touch_ok [OF sv l assms(3)] obtain w' where "(case dispatch_conn i ?w of None \<Rightarrow> None | Some (False, w2) \<Rightarrow> Some w2
      | Some (True, w2) \<Rightarrow> touch_timer (cd_timer (ws_users_timer w i)) now w2) = Some w'" "server_ok now w'" "same_listen ?w w'"
      unfolding ut by blast
    then show ?thesis using more r assms(4) same_listen_trans [OF s] by (auto simp: dealwithwrite_def)
  next
    case idle
    from adjust_timer_ok [OF sv l assms(3)] obtain w' where
      "touch_timer (cd_timer (ws_users_timer w i)) now ?w = Some w'" "server_ok now w'" "same_listen ?w w'" unfolding ut by auto
    then show ?thesis using idle r assms(4) same_listen_trans [OF s] by (auto simp: dealwithwrite_def)
  qed
qed

text \<open>What the kernel promises about an event: it is about a descriptor that is open, the server's own descriptors never
  hang up, and an event for the epoll set itself or the write end of the pipe does not occur.  The clock does not go
  back.\<close>

definition event_ok :: "int \<Rightarrow> event \<Rightarrow> ('r, 'm, 'k) web_server \<Rightarrow> bool" where
  "event_ok clk e w \<longleftrightarrow> clk \<le> ev_now e
     \<and> (if int (ev_fd e) = ws_listenfd w
        then accepts_ok (ev_now e) (if ws_LISTENTrigmode w = 0 then take 1 (ev_accepts e) else ev_accepts e)
               (meanwhile e w)
        else int (ev_fd e) \<in> k_open (ws_kernel w)
             \<and> (int (ev_fd e) \<notin> own w \<or> int (ev_fd e) = fst (ws_pipefd w) \<and> ev_in e \<and> \<not> ev_hangup e))"

lemma open_client_live:
  assumes "server_ok clk w" "int i \<in> k_open (ws_kernel w)" "int i \<notin> own w"
  shows "0 < cd_sockfd (ws_users_timer w i)" "i < MAX_FD"
  using assms by (auto simp: server_ok_def timers_ok_def slots_ok_def entry_ok_def)

lemma dealclientdata_ok:
  assumes "server_ok clk w" "listening_ok w" "clk \<le> now"
    "accepts_ok now (if ws_LISTENTrigmode w = 0 then take 1 rs else rs) w"
  shows "\<exists>b w'. dealclientdata rs w = Some (b, w') \<and> server_ok now w' \<and> listening_ok w'"
proof (cases "ws_LISTENTrigmode w = 0")
  case True
  have "accept_fresh now (case rs of [] \<Rightarrow> AcceptError | r # _ \<Rightarrow> r) w" using assms(4) True by (cases rs) simp_all
  from accept_one_ok [OF assms(1,2) this assms(3)] True show ?thesis by (auto simp: dealclientdata_def)
next
  case False
  with accept_loop_ok [OF assms(1,2) _ assms(3), of rs] assms(4) show ?thesis by (auto simp: dealclientdata_def)
qed

lemma meanwhile_frame [simp]:
  "ws_timer_lst (meanwhile e w) = ws_timer_lst w" "ws_users_timer (meanwhile e w) = ws_users_timer w"
  "ws_user_count (meanwhile e w) = ws_user_count w" "ws_listenfd (meanwhile e w) = ws_listenfd w"
  "ws_epollfd (meanwhile e w) = ws_epollfd w" "ws_pipefd (meanwhile e w) = ws_pipefd w" "own (meanwhile e w) = own w"
  "ws_pool (meanwhile e w) = map_option (pool_turn ^^ ev_taken e) (ws_pool w)" "ws_listen_paused (meanwhile e w) = ws_listen_paused w"
  "ws_LISTENTrigmode (meanwhile e w) = ws_LISTENTrigmode w" "k_open (ws_kernel (meanwhile e w)) = k_open (ws_kernel w)"
  "k_interest (ws_kernel (meanwhile e w)) = k_interest (ws_kernel w)"
  "k_bad_close (ws_kernel (meanwhile e w)) = k_bad_close (ws_kernel w)"
proof -
  have k: "k_open (fold sig_handler sigs k) = k_open k \<and> k_interest (fold sig_handler sigs k) = k_interest k
      \<and> k_bad_close (fold sig_handler sigs k) = k_bad_close k" for sigs k
    by (induction sigs arbitrary: k) (simp_all add: sig_handler_def)
  show "ws_timer_lst (meanwhile e w) = ws_timer_lst w" "ws_users_timer (meanwhile e w) = ws_users_timer w"
    "ws_user_count (meanwhile e w) = ws_user_count w" "ws_listenfd (meanwhile e w) = ws_listenfd w"
    "ws_epollfd (meanwhile e w) = ws_epollfd w" "ws_pipefd (meanwhile e w) = ws_pipefd w" "own (meanwhile e w) = own w"
    "ws_pool (meanwhile e w) = map_option (pool_turn ^^ ev_taken e) (ws_pool w)" "ws_listen_paused (meanwhile e w) = ws_listen_paused w"
    "ws_LISTENTrigmode (meanwhile e w) = ws_LISTENTrigmode w" "k_open (ws_kernel (meanwhile e w)) = k_open (ws_kernel w)"
    "k_interest (ws_kernel (meanwhile e w)) = k_interest (ws_kernel w)"
    "k_bad_close (ws_kernel (meanwhile e w)) = k_bad_close (ws_kernel w)"
    by (simp_all add: meanwhile_def on_kernel_def k)
qed

lemma meanwhile_ok: "server_ok clk w \<Longrightarrow> server_ok clk (meanwhile e w)"
  by (rule server_ok_frame, assumption) (simp_all add: server_ok_def)

lemma handle_event_ok:
  assumes "server_ok clk w" "listening_ok w" "event_ok clk e w"
  shows "\<exists>flags' w'. handle_event e (flags, w) = Some (flags', w') \<and> server_ok (ev_now e) w' \<and> listening_ok w'"
proof -
  let ?w = "meanwhile e w" and ?i = "ev_fd e"
  have sv: "server_ok clk ?w" and li: "listening_ok ?w" and le: "clk \<le> ev_now e"
    using meanwhile_ok [OF assms(1)] assms(2,3) by (simp_all add: listening_ok_def event_ok_def)
  consider (listen) "int ?i = ws_listenfd w"
    | (client) "int ?i \<noteq> ws_listenfd w" "int ?i \<in> k_open (ws_kernel w)" "int ?i \<notin> own w"
    | (pipe) "int ?i \<noteq> ws_listenfd w" "int ?i = fst (ws_pipefd w)" "ev_in e" "\<not> ev_hangup e"
    using assms(3) by (auto simp: event_ok_def split: if_splits)
  then show ?thesis
  proof cases
    case listen
    with dealclientdata_ok [OF sv li le] assms(3) show ?thesis by (fastforce simp: handle_event_def event_ok_def Let_def)
  next
    case client
    then have lv: "0 < cd_sockfd (ws_users_timer ?w ?i)" "?i < MAX_FD" using open_client_live [OF sv, of ?i] by simp_all
    have np: "int ?i \<noteq> fst (ws_pipefd w)" using client(3) by (auto simp: own_def)
    note same = listening_same [OF li] and mono = clock_mono [OF _ le]
    show ?thesis
      using deal_timer_ok [OF sv lv(1)] dealwithread_ok [OF sv lv(1) le lv(2), of "ev_recv e"]
        dealwithwrite_ok [OF sv lv(1) le lv(2), of "ev_writev e"] client(1) np lv(2) same mono sv li
      by (fastforce simp: handle_event_def Let_def)
  next
    case pipe
    obtain b flags' w' where d: "dealwithsignal flags ?w = (b, flags', w')" by (metis prod_cases3)
    then have "w' = ?w \<or> w' = on_kernel (\<lambda>k. k\<lparr>k_pipe := drop 1024 (k_pipe k)\<rparr>) ?w"
      by (auto simp: dealwithsignal_def Let_def split: if_splits)
    moreover have "server_ok clk (on_kernel (\<lambda>k. k\<lparr>k_pipe := drop 1024 (k_pipe k)\<rparr>) ?w)"
      by (rule server_ok_frame [OF sv]) (use sv in \<open>simp_all add: on_kernel_def own_def server_ok_def\<close>)
    moreover have "listening_ok (on_kernel (\<lambda>k. k\<lparr>k_pipe := drop 1024 (k_pipe k)\<rparr>) ?w)"
      using li by (simp add: listening_ok_def on_kernel_def)
    ultimately show ?thesis using pipe d sv li clock_mono [OF _ le] by (auto simp: handle_event_def Let_def)
  qed
qed

section \<open>Runs\<close>

fun events_ok :: "int \<Rightarrow> event list \<Rightarrow> (bool \<times> bool) \<times> ('r, 'm, 'k) web_server \<Rightarrow> bool" where
  "events_ok clk [] fw \<longleftrightarrow> True"
| "events_ok clk (e # es) fw \<longleftrightarrow> event_ok clk e (snd fw)
     \<and> (case handle_event e fw of None \<Rightarrow> True | Some fw' \<Rightarrow> events_ok (ev_now e) es fw')"

fun clock_after :: "int \<Rightarrow> event list \<Rightarrow> int" where
  "clock_after clk [] = clk"
| "clock_after clk (e # es) = clock_after (ev_now e) es"

definition turn_ok :: "int \<Rightarrow> wait_result \<times> int \<Rightarrow> ('r, 'm, 'k) web_server \<Rightarrow> bool" where
  "turn_ok clk t w \<longleftrightarrow>
     (case fst t of
        WaitEvents es \<Rightarrow> events_ok clk es ((False, False), w) \<and> clock_after clk es \<le> snd t
      | _ \<Rightarrow> clk \<le> snd t)"

fun turns_ok :: "int \<Rightarrow> (wait_result \<times> int) list \<Rightarrow> ('r, 'm, 'k) web_server \<Rightarrow> bool" where
  "turns_ok clk [] w \<longleftrightarrow> True"
| "turns_ok clk (t # ts) w \<longleftrightarrow> turn_ok clk t w
     \<and> (case loop_turn t w of Some (False, w') \<Rightarrow> turns_ok (snd t) ts w' | _ \<Rightarrow> True)"

lemma handle_events_ok:
  "server_ok clk w \<Longrightarrow> listening_ok w \<Longrightarrow> events_ok clk es (flags, w) \<Longrightarrow>
     \<exists>flags' w'. handle_events es (flags, w) = Some (flags', w') \<and> server_ok (clock_after clk es) w' \<and> listening_ok w'"
proof (induction es arbitrary: clk flags w)
  case (Cons e es)
  from handle_event_ok [OF Cons.prems(1,2), of e flags] Cons.prems(3) obtain flags1 w1 where
    1: "handle_event e (flags, w) = Some (flags1, w1)" "server_ok (ev_now e) w1" "listening_ok w1" by auto
  with Cons.prems(3) have "events_ok (ev_now e) es (flags1, w1)" by simp
  from Cons.IH [OF 1(2,3) this] 1(1) show ?case by simp
qed simp

lemma end_of_turn_ok:
  assumes "server_ok clk w" "listening_ok w"
  shows "\<exists>w'. end_of_turn now timeout w = Some w' \<and> server_ok clk w' \<and> listening_ok w'"
proof (cases timeout)
  case True
  from timer_handler_ok [OF assms(1)] obtain w1 where
    w1: "timer_handler now w = Some w1" "server_ok clk w1" "same_listen w w1" by blast
  note l = listening_same [OF assms(2) w1(3)]
  from resume_accept_ok [OF w1(2) l] w1 l True show ?thesis by (auto simp: end_of_turn_def)
qed (use assms in \<open>auto simp: end_of_turn_def\<close>)

lemma loop_turn_ok:
  assumes "server_ok clk w" "listening_ok w" "turn_ok clk t w"
  shows "\<exists>b w'. loop_turn t w = Some (b, w') \<and> server_ok (snd t) w' \<and> listening_ok w'"
proof (cases "fst t")
  case (WaitEvents es)
  with assms(3) have e: "events_ok clk es ((False, False), w)" "clock_after clk es \<le> snd t" by (simp_all add: turn_ok_def)
  from handle_events_ok [OF assms(1,2) e(1)] obtain flags w1 where
    1: "handle_events es ((False, False), w) = Some (flags, w1)" "server_ok (snd t) w1" "listening_ok w1"
    using clock_mono [OF _ e(2)] by blast
  from end_of_turn_ok [OF 1(2,3), of "snd t" "fst flags"] 1(1) WaitEvents show ?thesis by (auto simp: loop_turn_def)
next
  case WaitInterrupted
  with assms clock_mono [OF assms(1)] end_of_turn_ok [of "snd t" w "snd t" False] show ?thesis
    by (auto simp: loop_turn_def turn_ok_def)
next
  case WaitFailed
  with assms clock_mono [OF assms(1)] show ?thesis by (auto simp: loop_turn_def turn_ok_def)
qed

lemma run_turns_ok:
  "server_ok clk w \<Longrightarrow> listening_ok w \<Longrightarrow> turns_ok clk ts w \<Longrightarrow>
     \<exists>left clk' w'. run_turns ts w = Some (left, w') \<and> server_ok clk' w' \<and> listening_ok w'"
proof (induction ts arbitrary: clk w)
  case (Cons t ts)
  from loop_turn_ok [OF Cons.prems(1,2), of t] Cons.prems(3) obtain b w1 where
    1: "loop_turn t w = Some (b, w1)" "server_ok (snd t) w1" "listening_ok w1" by auto
  show ?case
  proof (cases b)
    case False
    with 1 Cons.prems(3) have "turns_ok (snd t) ts w1" by simp
    from Cons.IH [OF 1(2,3) this] False 1(1) show ?thesis by simp
  qed (use 1 in auto)
qed auto

section \<open>Start\<close>

text \<open>A server on which nothing has happened yet.\<close>

definition idle :: "('r, 'm, 'k) web_server \<Rightarrow> bool" where
  "idle w \<longleftrightarrow> ws_users_timer w = (\<lambda>_. \<lparr>cd_sockfd = 0, cd_timer = None, cd_conn = None\<rparr>) \<and> ws_user_count w = 0
     \<and> ws_timer_lst w = sort_timer_lst_new \<and> k_open (ws_kernel w) = {} \<and> k_interest (ws_kernel w) = Map.empty
     \<and> k_bad_close (ws_kernel w) = 0 \<and> \<not> ws_listen_paused w"

lemma idle_setup:
  "idle (ws_new c0 a sl)" "idle w \<Longrightarrow> idle (ws_init cfg w)" "idle w \<Longrightarrow> idle (ws_open_log tm fo w)"
  "idle w \<Longrightarrow> idle (ws_sql_pool att w)" "idle w \<Longrightarrow> idle (ws_trig_mode w)"
  "idle w \<Longrightarrow> ws_thread_pool cr w = Inr w' \<Longrightarrow> idle w' \<and> ws_pool w' \<noteq> None"
  "ws_pool (ws_trig_mode w) = ws_pool w"
  by (auto simp: idle_def ws_new_def ws_init_def ws_open_log_def ws_sql_pool_def ws_trig_mode_def ws_thread_pool_def Let_def
      split: sum.splits)

lemma listen_ok:
  assumes "idle w" "ws_pool w \<noteq> None" "ws_eventListen lc w = Some w'" "lc_pipe lc = Some (p0, p1)"
    "distinct [lc_socket lc, lc_epoll lc, p0, p1]" "\<forall>fd \<in> {lc_epoll lc, p0, p1}. 0 \<le> fd"
  shows "server_ok clk w'" "listening_ok w'" "k_open (ws_kernel w') = {lc_socket lc, lc_epoll lc, p0, p1}"
    "ws_timer_lst w' = sort_timer_lst_new" "ws_listenfd w' = lc_socket lc" "ws_pipefd w' = (p0, p1)"
    "ws_app w' = ws_app w" "ws_slog w' = ws_slog w" "k_pipe (ws_kernel w') = k_pipe (ws_kernel w)"
proof -
  define k where "k = utils_addfd p0 False 0 (sys_open p1 (sys_open p0 (utils_addfd (lc_socket lc) False (ws_LISTENTrigmode w)
    (sys_open (lc_epoll lc) ((sys_open (lc_socket lc) (ws_kernel w))
       \<lparr>k_linger := (if ws_OPT_LINGER w = 0 then Some (0, 1) else if ws_OPT_LINGER w = 1 then Some (1, 1) else None)\<rparr>)))))"
  have "lc_sigaction lc" and s0: "0 \<le> lc_socket lc"
    using assms(3,4) by (auto simp: ws_eventListen_def addsig_def Let_def split: if_splits)
  then have eq: "w' = w\<lparr>ws_listenfd := lc_socket lc, ws_timeslot := TIMESLOT, ws_epollfd := lc_epoll lc, ws_pipefd := (p0, p1),
      ws_kernel := k\<lparr>k_handled := [SIGINT, SIGTERM, SIGALRM, SIGPIPE] @ k_handled k, k_alarm := Some TIMESLOT\<rparr>\<rparr>"
    using assms(3,4) by (simp add: ws_eventListen_def addsig_def k_def [symmetric] Let_def split: if_splits)
  have 1: "k_open (ws_kernel w) = {}" "k_interest (ws_kernel w) = Map.empty" "k_bad_close (ws_kernel w) = 0"
    using assms(1) by (simp_all add: idle_def)
  have 2: "lc_socket lc \<noteq> p0" "p0 \<noteq> lc_socket lc" using assms(5) by auto
  have k: "k_open k = {lc_socket lc, lc_epoll lc, p0, p1}" "k_bad_close k = 0" "dom (k_interest k) = {lc_socket lc, p0}"
    "k_pipe k = k_pipe (ws_kernel w)"
    unfolding k_def utils_addfd_def epoll_add_def sys_open_def by (auto simp: 1 2)
  have w': "ws_users_timer w' = ws_users_timer w" "ws_user_count w' = 0" "ws_timer_lst w' = sort_timer_lst_new"
    "ws_pool w' = ws_pool w" "k_open (ws_kernel w') = {lc_socket lc, lc_epoll lc, p0, p1}" "k_bad_close (ws_kernel w') = 0"
    "dom (k_interest (ws_kernel w')) = {lc_socket lc, p0}" "\<not> ws_listen_paused w'" "0 \<le> lc_socket lc"
    "ws_listenfd w' = lc_socket lc" "ws_epollfd w' = lc_epoll lc" "ws_pipefd w' = (p0, p1)"
    "ws_app w' = ws_app w" "ws_slog w' = ws_slog w" "k_pipe (ws_kernel w') = k_pipe (ws_kernel w)"
    using assms(1) s0 unfolding eq by (simp_all add: k idle_def)
  show "k_open (ws_kernel w') = {lc_socket lc, lc_epoll lc, p0, p1}" "ws_timer_lst w' = sort_timer_lst_new"
    "ws_listenfd w' = lc_socket lc" "ws_pipefd w' = (p0, p1)" "ws_app w' = ws_app w" "ws_slog w' = ws_slog w"
    "k_pipe (ws_kernel w') = k_pipe (ws_kernel w)" by (fact w')+
  have own: "own w' = {lc_socket lc, lc_epoll lc, p0, p1}" using assms(6) w' by (auto simp: own_def)
  have "slots_ok {} w'" using assms(1) w' own by (auto simp: slots_ok_def idle_def)
  then show "server_ok clk w'"
    using w' assms(2) tl_abs_new by (auto simp: server_ok_def timers_ok_def intro!: exI [of _ "[]"])
  show "listening_ok w'" using w' assms(5,6) by (auto simp: listening_ok_def)
qed

section \<open>Shutdown\<close>

lemma close_live_ok:
  "server_ok clk w \<Longrightarrow> \<exists>w'. close_live fds w = Some w' \<and> server_ok clk w' \<and> same_listen w w'
     \<and> (\<forall>i \<in> set fds. \<not> 0 < cd_sockfd (ws_users_timer w' i))
     \<and> (\<forall>i. 0 < cd_sockfd (ws_users_timer w' i) \<longrightarrow> 0 < cd_sockfd (ws_users_timer w i))"
proof (induction fds arbitrary: w)
  case (Cons i fds)
  have "\<exists>w1. (if cd_sockfd (ws_users_timer w i) > 0 then ws_deal_timer (cd_timer (ws_users_timer w i)) i w else Some w) = Some w1
      \<and> server_ok clk w1 \<and> same_listen w w1 \<and> \<not> 0 < cd_sockfd (ws_users_timer w1 i)
      \<and> (\<forall>j. 0 < cd_sockfd (ws_users_timer w1 j) \<longrightarrow> 0 < cd_sockfd (ws_users_timer w j))"
    using deal_timer_ok [OF Cons.prems, of i] Cons.prems by (auto simp: same_listen_def)
  then obtain w1 where 1: "(if cd_sockfd (ws_users_timer w i) > 0 then ws_deal_timer (cd_timer (ws_users_timer w i)) i w else Some w) = Some w1"
    "server_ok clk w1" "same_listen w w1" "\<not> 0 < cd_sockfd (ws_users_timer w1 i)"
    "\<And>j. 0 < cd_sockfd (ws_users_timer w1 j) \<Longrightarrow> 0 < cd_sockfd (ws_users_timer w j)" by blast
  from Cons.IH [OF 1(2)] obtain w' where 2: "close_live fds w1 = Some w'" "server_ok clk w'" "same_listen w1 w'"
    "\<forall>i \<in> set fds. \<not> 0 < cd_sockfd (ws_users_timer w' i)"
    "\<And>i. 0 < cd_sockfd (ws_users_timer w' i) \<Longrightarrow> 0 < cd_sockfd (ws_users_timer w1 i)" by blast
  have "close_live (i # fds) w = Some w'" using 1(1) 2(1) by simp
  with 1 2 same_listen_trans [OF 1(3) 2(3)] show ?case by auto
qed (simp add: same_listen_def)

lemma invalidate_frame: "\<exists>u. fold invalidate_live fds w = w\<lparr>ws_users := u\<rparr>"
proof (induction fds arbitrary: w)
  case Nil
  show ?case by (rule exI [of _ "ws_users w"]) simp
next
  case (Cons fd fds)
  have "\<exists>u. invalidate_live fd w = w\<lparr>ws_users := u\<rparr>"
  proof (cases "cd_sockfd (ws_users_timer w fd) > 0")
    case False
    then have "invalidate_live fd w = w\<lparr>ws_users := ws_users w\<rparr>" by (simp add: invalidate_live_def)
    then show ?thesis by blast
  qed (auto simp: invalidate_live_def)
  with Cons.IH [of "invalidate_live fd w"] show ?case by auto
qed

lemma close_listen_ok:
  assumes "server_ok clk w" "listening_ok w"
  defines "w1 \<equiv> (on_kernel (\<lambda>k. sys_close (ws_listenfd w) (epoll_del (ws_listenfd w) k)) w)\<lparr>ws_listenfd := - 1\<rparr>"
  shows "server_ok clk w1" "own w1 = {ws_epollfd w, fst (ws_pipefd w), snd (ws_pipefd w)}"
proof -
  from assms(1) obtain xs where xs: "tl_abs (ws_timer_lst w) xs" "slots_ok (set xs) w" "\<forall>e \<in> set xs. due e \<le> clk + 3 * TIMESLOT"
    by (auto simp: server_ok_def timers_ok_def)
  have own: "own w = insert (ws_listenfd w) {ws_epollfd w, fst (ws_pipefd w), snd (ws_pipefd w)}"
    using assms(2) by (auto simp: own_def listening_ok_def)
  show own1: "own w1 = {ws_epollfd w, fst (ws_pipefd w), snd (ws_pipefd w)}"
    using assms(2) by (auto simp: own_def w1_def on_kernel_def listening_ok_def)
  have l: "ws_listenfd w \<in> k_open (ws_kernel w)" using open_listen [OF assms(1)] own by auto
  have n: "ws_listenfd w \<notin> {ws_epollfd w, fst (ws_pipefd w), snd (ws_pipefd w)}" using assms(2) by (simp add: listening_ok_def)
  have k: "k_open (ws_kernel w1) = k_open (ws_kernel w) - {ws_listenfd w}" "k_bad_close (ws_kernel w1) = k_bad_close (ws_kernel w)"
    "k_interest (ws_kernel w1) = (k_interest (ws_kernel w))(ws_listenfd w := None)"
    "ws_users_timer w1 = ws_users_timer w" "ws_user_count w1 = ws_user_count w"
    using l by (simp_all add: w1_def on_kernel_def sys_close_def epoll_del_def)
  have e: "entry_ok w1 e" if "e \<in> set xs" for e
    using that xs(2) by (auto simp: slots_ok_def entry_ok_def k own1 own)
  have "ws_listenfd w \<notin> int ` eslot ` set xs" using xs(2) own by (auto simp: slots_ok_def entry_ok_def)
  then have "slots_ok (set xs) w1"
    using xs(2) e n unfolding slots_ok_def k own1 own by auto
  then show "server_ok clk w1" using xs(1,3) assms(1) by (auto simp: server_ok_def timers_ok_def w1_def on_kernel_def)
qed

lemma stop_serving_ok:
  assumes "server_ok clk w" "listening_ok w"
  shows "server_ok clk (stop_serving w)" "own (stop_serving w) = {ws_epollfd w, fst (ws_pipefd w), snd (ws_pipefd w)}"
    "ws_listenfd (stop_serving w) = - 1" "ws_epollfd (stop_serving w) = ws_epollfd w" "ws_pipefd (stop_serving w) = ws_pipefd w"
    "ws_pool (stop_serving w) = map_option tp_stop (ws_pool w)"
proof -
  let ?w1 = "(on_kernel (\<lambda>k. sys_close (ws_listenfd w) (epoll_del (ws_listenfd w) k)) w)\<lparr>ws_listenfd := - 1\<rparr>"
  obtain u where u: "fold invalidate_live [0..<MAX_FD] ?w1 = ?w1\<lparr>ws_users := u\<rparr>" using invalidate_frame by blast
  have eq: "stop_serving w = ?w1\<lparr>ws_users := u, ws_pool := map_option tp_stop (ws_pool w)\<rparr>"
    using assms(2) u by (simp add: stop_serving_def listening_ok_def Let_def on_kernel_def)
  note c = close_listen_ok [OF assms]
  show "server_ok clk (stop_serving w)"
    by (rule server_ok_frame [OF c(1)]) (use assms(1) in \<open>simp_all add: eq server_ok_def own_def\<close>)
  show "own (stop_serving w) = {ws_epollfd w, fst (ws_pipefd w), snd (ws_pipefd w)}"
    using c(2) by (simp add: eq own_def)
  show "ws_listenfd (stop_serving w) = - 1" "ws_epollfd (stop_serving w) = ws_epollfd w" "ws_pipefd (stop_serving w) = ws_pipefd w"
    "ws_pool (stop_serving w) = map_option tp_stop (ws_pool w)"
    by (simp_all add: eq on_kernel_def)
qed

lemma nothing_live:
  assumes "server_ok clk w" "\<And>i. i < MAX_FD \<Longrightarrow> \<not> 0 < cd_sockfd (ws_users_timer w i)"
  shows "tl_abs (ws_timer_lst w) []" "ws_user_count w = 0" "k_open (ws_kernel w) = own w" "k_bad_close (ws_kernel w) = 0"
    "\<not> 0 < cd_sockfd (ws_users_timer w i)"
proof -
  from assms(1) obtain xs where xs: "tl_abs (ws_timer_lst w) xs" "slots_ok (set xs) w"
    by (auto simp: server_ok_def timers_ok_def)
  have "xs = []"
  proof (rule ccontr)
    assume "xs \<noteq> []"
    then have "entry_ok w (hd xs)" using xs(2) by (simp add: slots_ok_def)
    then show False using assms(2) [of "eslot (hd xs)"] by (simp add: entry_ok_def)
  qed
  with xs show "tl_abs (ws_timer_lst w) []" "ws_user_count w = 0" "k_open (ws_kernel w) = own w" "k_bad_close (ws_kernel w) = 0"
    "\<not> 0 < cd_sockfd (ws_users_timer w i)"
    by (simp_all add: slots_ok_def)
qed

lemma shutdown_ok:
  assumes "server_ok clk w" "listening_ok w" "stop_background kl jl ids ds (stop_serving w) = Some w2"
  shows "\<exists>w3. ws_shutdown kl jl ids ds w = Some w3 \<and> server_ok clk w3 \<and> (\<forall>i < MAX_FD. \<not> 0 < cd_sockfd (ws_users_timer w3 i))
    \<and> own w3 = {ws_epollfd w, fst (ws_pipefd w), snd (ws_pipefd w)} \<and> ws_listenfd w3 = - 1
    \<and> ws_epollfd w3 = ws_epollfd w \<and> ws_pipefd w3 = ws_pipefd w"
proof -
  note s = stop_serving_ok [OF assms(1,2)]
  obtain sl a where eq: "w2 = (stop_serving w)\<lparr>ws_slog := sl, ws_app := a\<rparr>"
    using assms(3) by (auto simp: stop_background_def split: option.splits sum.splits)
  have ok: "server_ok clk w2" by (rule server_ok_frame [OF s(1)]) (use s(1) in \<open>simp_all add: eq server_ok_def own_def\<close>)
  from close_live_ok [OF ok, of "[0..<MAX_FD]"] obtain w' where
    w': "close_live [0..<MAX_FD] w2 = Some w'" "server_ok clk w'" "same_listen w2 w'"
      "\<And>i. i < MAX_FD \<Longrightarrow> \<not> 0 < cd_sockfd (ws_users_timer w' i)" by auto
  let ?w3 = "if ws_connPool w' then w'\<lparr>ws_app := (ws_app w')\<lparr>a_pool := snd (DestroyPool (a_pool (ws_app w')))\<rparr>\<rparr> else w'"
  have "ws_shutdown kl jl ids ds w = Some ?w3" using assms(3) w'(1) by (simp add: ws_shutdown_def)
  moreover have "server_ok clk ?w3"
    by (rule server_ok_frame [OF w'(2)]) (use w'(2) in \<open>simp_all add: server_ok_def own_def\<close>)
  moreover have "ws_listenfd ?w3 = - 1" "ws_epollfd ?w3 = ws_epollfd w" "ws_pipefd ?w3 = ws_pipefd w"
    using w'(3) s by (simp_all add: same_listen_def eq)
  moreover from this have "own ?w3 = {ws_epollfd w, fst (ws_pipefd w), snd (ws_pipefd w)}"
    using s(2-5) unfolding own_def by simp
  ultimately show ?thesis using w'(4) by auto
qed

lemma destroy_ok:
  assumes "server_ok clk w" "\<forall>i < MAX_FD. \<not> 0 < cd_sockfd (ws_users_timer w i)" "ws_listenfd w = - 1"
    "own w = {ws_epollfd w, fst (ws_pipefd w), snd (ws_pipefd w)}" "distinct [ws_epollfd w, fst (ws_pipefd w), snd (ws_pipefd w)]"
    "0 \<le> ws_epollfd w" "0 \<le> fst (ws_pipefd w)" "0 \<le> snd (ws_pipefd w)"
  shows "\<exists>w'. ws_destroy w = Some w' \<and> k_open (ws_kernel w') = {} \<and> k_bad_close (ws_kernel w') = 0
    \<and> ws_user_count w' = 0 \<and> heap (ws_timer_lst w') = Map.empty"
proof -
  have n: "tl_abs (ws_timer_lst w) []" "ws_user_count w = 0" "k_open (ws_kernel w) = own w" "k_bad_close (ws_kernel w) = 0"
    using nothing_live [OF assms(1)] assms(2) by auto
  from tl_destroy_frees [OF n(1)] obtain lst where lst: "tl_destroy (ws_timer_lst w) = Some lst" "heap lst = Map.empty" by blast
  let ?k = "close_if_open (fst (ws_pipefd w)) (close_if_open (snd (ws_pipefd w))
    (close_if_open (ws_listenfd w) (close_if_open (ws_epollfd w) (ws_kernel w))))"
  have "k_open ?k = {} \<and> k_bad_close ?k = 0"
    using assms(3-) n(3,4) by (auto simp: close_if_open_def sys_close_def)
  then show ?thesis using lst n(2) by (simp add: ws_destroy_def Let_def)
qed

section \<open>Properties\<close>

text \<open>The slots in use.\<close>

definition live :: "('r, 'm, 'k) web_server \<Rightarrow> nat set" where
  "live w = {i. 0 < cd_sockfd (ws_users_timer w i)}"

lemma server_ok_live:
  assumes "server_ok clk w"
  shows "k_bad_close (ws_kernel w) = 0" "k_open (ws_kernel w) = own w \<union> int ` live w" "ws_user_count w = int (card (live w))"
    "i \<in> live w \<Longrightarrow> \<exists>t n. cd_timer (ws_users_timer w i) = Some t \<and> heap (ws_timer_lst w) t = Some n \<and> user_data n = i"
    "heap (ws_timer_lst w) t = Some n \<Longrightarrow> user_data n \<in> live w \<and> cd_timer (ws_users_timer w (user_data n)) = Some t"
proof -
  from assms obtain xs where xs: "tl_abs (ws_timer_lst w) xs" "slots_ok (set xs) w" by (auto simp: server_ok_def timers_ok_def)
  have "eslot e \<in> live w" if "e \<in> set xs" for e using that xs(2) by (auto simp: slots_ok_def entry_ok_def live_def)
  then have L: "live w = eslot ` set xs" using xs(2) by (auto simp: slots_ok_def live_def)
  show "k_bad_close (ws_kernel w) = 0" "k_open (ws_kernel w) = own w \<union> int ` live w" using xs(2) by (simp_all add: slots_ok_def L)
  show "ws_user_count w = int (card (live w))" using xs(2) by (simp add: slots_ok_def L card_image)
  have inf: "info (heap (ws_timer_lst w)) = map_of xs" and dist: "distinct (map fst xs)" using xs(1) by (simp_all add: tl_abs_def tl_rep_def)
  show "\<exists>t n. cd_timer (ws_users_timer w i) = Some t \<and> heap (ws_timer_lst w) t = Some n \<and> user_data n = i" if "i \<in> live w"
  proof -
    from that have "0 < cd_sockfd (ws_users_timer w i)" by (simp add: live_def)
    from live_entry [OF xs(2) this] obtain t d where e: "(t, d, i) \<in> set xs" "cd_timer (ws_users_timer w i) = Some t" by blast
    then have "info (heap (ws_timer_lst w)) t = Some (d, i)" using inf dist by simp
    then show ?thesis using e(2) by (auto simp: info_def)
  qed
  show "user_data n \<in> live w \<and> cd_timer (ws_users_timer w (user_data n)) = Some t" if "heap (ws_timer_lst w) t = Some n"
  proof -
    have "map_of xs t = Some (expire n, user_data n)" using that inf [symmetric] by (simp add: info_def)
    then have e: "(t, expire n, user_data n) \<in> set xs" by (rule map_of_SomeD)
    then have "entry_ok w (t, expire n, user_data n)" using xs(2) by (simp add: slots_ok_def)
    then show ?thesis by (simp add: entry_ok_def eslot_def live_def)
  qed
qed

text \<open>The set-up of \<open>main\<close>, up to the event loop.\<close>

definition started ::
  "config \<Rightarrow> http_conn \<Rightarrow> ('r, 'm, 'k) app \<Rightarrow> slogger \<Rightarrow> log_tm \<Rightarrow> nat option list \<Rightarrow> listen_calls \<Rightarrow> ('r, 'm, 'k) web_server option" where
  "started cfg c0 a sl tm att lc =
     (case ws_thread_pool True (ws_sql_pool att (ws_open_log tm True (ws_init cfg (ws_new c0 a sl)))) of
        Inl e \<Rightarrow> None | Inr w \<Rightarrow> ws_eventListen lc (ws_trig_mode w))"

lemma started_ok:
  assumes "started cfg c0 a sl tm att lc = Some w" "lc_pipe lc = Some (p0, p1)"
    "distinct [lc_socket lc, lc_epoll lc, p0, p1]" "0 \<le> lc_epoll lc" "0 \<le> p0" "0 \<le> p1"
  shows "server_ok clk w" "listening_ok w" "k_open (ws_kernel w) = {lc_socket lc, lc_epoll lc, p0, p1}"
    "ws_timer_lst w = sort_timer_lst_new" "ws_listenfd w = lc_socket lc" "ws_pipefd w = (p0, p1)"
    "a_clicks (ws_app w) = a_clicks a" "ws_slog w = sl" "k_pipe (ws_kernel w) = []"
proof -
  let ?w = "ws_sql_pool att (ws_open_log tm True (ws_init cfg (ws_new c0 a sl)))"
  have i: "idle ?w" by (intro idle_setup)
  from assms(1) obtain w1 where w1: "ws_thread_pool True ?w = Inr w1" "ws_eventListen lc (ws_trig_mode w1) = Some w"
    by (auto simp: started_def split: sum.splits)
  have tr: "idle (ws_trig_mode w1)" "ws_pool (ws_trig_mode w1) \<noteq> None" using idle_setup(5-7) i w1(1) by metis+
  have "\<forall>fd \<in> {lc_epoll lc, p0, p1}. 0 \<le> fd" using assms(4-6) by simp
  note l = listen_ok [OF tr w1(2) assms(2,3) this]
  show "server_ok clk w" "listening_ok w" "k_open (ws_kernel w) = {lc_socket lc, lc_epoll lc, p0, p1}"
    "ws_timer_lst w = sort_timer_lst_new" "ws_listenfd w = lc_socket lc" "ws_pipefd w = (p0, p1)"
    using l(1-6) by auto
  have "a_clicks (ws_app ?w) = a_clicks a" "ws_slog ?w = sl" "k_pipe (ws_kernel ?w) = []"
    by (simp_all add: ws_sql_pool_def ws_open_log_def ws_init_def ws_new_def Let_def)
  moreover have "ws_app (ws_trig_mode w1) = ws_app ?w" "ws_slog (ws_trig_mode w1) = ws_slog ?w"
    "ws_kernel (ws_trig_mode w1) = ws_kernel ?w"
    using w1(1) by (auto simp: ws_thread_pool_def ws_trig_mode_def split: sum.splits)
  ultimately show "a_clicks (ws_app w) = a_clicks a" "ws_slog w = sl" "k_pipe (ws_kernel w) = []" using l(7-9) by simp_all
qed

text \<open>C22: the event loop never loses a connection.  Whatever the clients, the kernel and the worker threads do, a run
  of the started server follows no dangling pointer and leaves no array; it never closes a descriptor that is not
  open, and the open descriptors are always its own and those of the live slots, which \<open>m_user_count\<close> counts; every
  live slot has a timer in the list that will close it, and every timer in the list belongs to a live slot.  The
  kernel is assumed to hand out unused descriptors below \<open>MAX_FD\<close> and to report events for open ones only, and the clock
  (\<open>time(NULL)\<close>) never to go back.  Between two events the workers may change every slot and take any number of tasks.\<close>

theorem event_loop_safe:
  assumes "started cfg c0 a sl tm att lc = Some w" "lc_pipe lc = Some (p0, p1)"
    "distinct [lc_socket lc, lc_epoll lc, p0, p1]" "0 \<le> lc_epoll lc" "0 \<le> p0" "0 \<le> p1" "turns_ok clk ts w"
  shows "\<exists>left w'. run_turns ts w = Some (left, w') \<and> k_bad_close (ws_kernel w') = 0
    \<and> k_open (ws_kernel w') = own w' \<union> int ` live w' \<and> ws_user_count w' = int (card (live w'))
    \<and> (\<forall>i \<in> live w'. \<exists>t n. cd_timer (ws_users_timer w' i) = Some t \<and> heap (ws_timer_lst w') t = Some n \<and> user_data n = i)
    \<and> (\<forall>t n. heap (ws_timer_lst w') t = Some n \<longrightarrow> user_data n \<in> live w' \<and> cd_timer (ws_users_timer w' (user_data n)) = Some t)"
proof -
  from run_turns_ok [OF started_ok(1,2) [OF assms(1-6)] assms(7)] obtain left clk' w' where
    r: "run_turns ts w = Some (left, w')" "server_ok clk' w'" by blast
  with server_ok_live [OF r(2)] show ?thesis by blast
qed

definition demo_listen :: listen_calls where
  "demo_listen = \<lparr>lc_socket = 3, lc_bind = True, lc_listen = True, lc_epoll = 4, lc_pipe = Some (5, 6), lc_sigaction = True\<rparr>"

definition demo_event :: "nat \<Rightarrow> event" where
  "demo_event fd = \<lparr>ev_fd = fd, ev_hangup = False, ev_in = True, ev_out = False, ev_accepts = [Accepted 7 1000 50],
     ev_recv = [], ev_writev = [], ev_now = 50, ev_workers = (\<lambda>u. u), ev_taken = 0, ev_signals = [SIGTERM]\<rparr>"

lemma demo_started: "\<exists>w. started config_default blank demo_app slogger_new demo_tm [] demo_listen = Some w"
  by (simp add: started_def ws_thread_pool_def threadpool_new_def ws_sql_pool_def ws_open_log_def ws_init_def ws_new_def
      config_default_def ws_trig_mode_def ws_eventListen_def demo_listen_def addsig_def Let_def)

lemmas demo_started_ok = started_ok [of config_default blank demo_app slogger_new demo_tm "[]" demo_listen _ 5 6, unfolded demo_listen_def,
    simplified, folded demo_listen_def]

theorem event_loop_safe_witness:
  "\<exists>w left w'. started config_default blank demo_app slogger_new demo_tm [] demo_listen = Some w
     \<and> run_turns [(WaitEvents [demo_event 3], 60)] w = Some (left, w') \<and> k_bad_close (ws_kernel w') = 0
     \<and> k_open (ws_kernel w') = own w' \<union> int ` live w' \<and> ws_user_count w' = int (card (live w'))"
proof -
  obtain w where w: "started config_default blank demo_app slogger_new demo_tm [] demo_listen = Some w" using demo_started by blast
  note f = demo_started_ok(3-5) [OF w]
  have t: "turns_ok 0 [(WaitEvents [demo_event 3], 60)] w"
    using f by (auto simp: turn_ok_def event_ok_def demo_event_def MAX_FD_def sort_timer_lst_new_def split: option.splits bool.splits)
  from event_loop_safe [OF w _ _ _ _ _ t, of 5 6] w show ?thesis by (auto simp: demo_listen_def)
qed

text \<open>C23: shutdown releases everything.  When the loop ends and the background threads stop, \<open>eventLoop\<close> returns and the
  destructor then leaves no descriptor open and no timer allocated, and no descriptor was closed twice.\<close>

theorem shutdown_releases_all:
  assumes "started cfg c0 a sl tm att lc = Some w" "lc_pipe lc = Some (p0, p1)"
    "distinct [lc_socket lc, lc_epoll lc, p0, p1]" "0 \<le> lc_epoll lc" "0 \<le> p0" "0 \<le> p1" "turns_ok clk ts w"
    "run_turns ts w = Some (True, w1)" "stop_background kl jl ids ds (stop_serving w1) = Some w2"
  shows "\<exists>w3 w4. ws_eventLoop kl jl ids ds ts w = Some (True, w3) \<and> live w3 = {} \<and> ws_destroy w3 = Some w4
    \<and> k_open (ws_kernel w4) = {} \<and> k_bad_close (ws_kernel w4) = 0 \<and> ws_user_count w4 = 0 \<and> heap (ws_timer_lst w4) = Map.empty"
proof -
  from run_turns_ok [OF started_ok(1,2) [OF assms(1-6)] assms(7)] assms(8) obtain clk' where
    r: "server_ok clk' w1" "listening_ok w1" by auto
  from shutdown_ok [OF r assms(9)] obtain w3 where w3: "ws_shutdown kl jl ids ds w1 = Some w3" "server_ok clk' w3"
    "\<forall>i < MAX_FD. \<not> 0 < cd_sockfd (ws_users_timer w3 i)" "own w3 = {ws_epollfd w1, fst (ws_pipefd w1), snd (ws_pipefd w1)}"
    "ws_listenfd w3 = - 1" "ws_epollfd w3 = ws_epollfd w1" "ws_pipefd w3 = ws_pipefd w1" by blast
  have f: "distinct [ws_epollfd w3, fst (ws_pipefd w3), snd (ws_pipefd w3)]" "0 \<le> ws_epollfd w3" "0 \<le> fst (ws_pipefd w3)"
    "0 \<le> snd (ws_pipefd w3)" "own w3 = {ws_epollfd w3, fst (ws_pipefd w3), snd (ws_pipefd w3)}"
    using r(2) w3(4,6,7) by (simp_all add: listening_ok_def)
  have "live w3 = {}" using nothing_live(5) [OF w3(2)] w3(3) by (auto simp: live_def)
  moreover have "ws_eventLoop kl jl ids ds ts w = Some (True, w3)" using assms(8) w3(1) by (simp add: ws_eventLoop_def)
  ultimately show ?thesis using destroy_ok [OF w3(2,3,5) f(5,1-4)] by blast
qed

lemma stop_serving_frame [simp]: "ws_app (stop_serving w) = ws_app w" "ws_slog (stop_serving w) = ws_slog w"
proof -
  have "ws_app (fold invalidate_live fds v) = ws_app v" "ws_slog (fold invalidate_live fds v) = ws_slog v"
    for fds and v :: "('a, 'b, 'c) web_server"
    using invalidate_frame [of fds v] by auto
  then show "ws_app (stop_serving w) = ws_app w" "ws_slog (stop_serving w) = ws_slog w"
    by (simp_all add: stop_serving_def on_kernel_def Let_def)
qed

theorem shutdown_releases_all_witness:
  "\<exists>w w3 w4. started config_default blank demo_app slogger_new demo_tm [] demo_listen = Some w
     \<and> ws_eventLoop demo_kafka demo_json [] [] [(WaitEvents [demo_event 5], 60)] w = Some (True, w3) \<and> ws_destroy w3 = Some w4
     \<and> k_open (ws_kernel w4) = {} \<and> k_bad_close (ws_kernel w4) = 0 \<and> heap (ws_timer_lst w4) = Map.empty"
proof -
  obtain w where w: "started config_default blank demo_app slogger_new demo_tm [] demo_listen = Some w" using demo_started by blast
  note f = demo_started_ok(3-9) [OF w]
  let ?ts = "[(WaitEvents [demo_event 5], 60)]"
  have t: "turns_ok 0 ?ts w"
    using f by (auto simp: turn_ok_def event_ok_def demo_event_def own_def split: option.splits bool.splits)
  obtain w1 where w1: "run_turns ?ts w = Some (True, w1)" "ws_app w1 = ws_app w" "ws_slog w1 = ws_slog w"
    using f by (simp add: loop_turn_def handle_event_def demo_event_def meanwhile_def on_kernel_def sig_handler_def dealwithsignal_def
        end_of_turn_def SIGTERM_def SIGALRM_def Let_def)
  have "\<exists>w2. stop_background demo_kafka demo_json [] [] (stop_serving w1) = Some w2"
    using f w1 by (simp add: stop_background_def producer_shutdown_def stop_accepting_def demo_app_def click_producer_new_def
        slog_shutdown_def slogger_new_def)
  then obtain w2 where "stop_background demo_kafka demo_json [] [] (stop_serving w1) = Some w2" by blast
  from shutdown_releases_all [OF w _ _ _ _ _ t w1(1) this, of 5 6] w show ?thesis by (auto simp: demo_listen_def)
qed

end
