(* ===== verification/Main_Program.thy ===== *)
theory Main_Program
  imports Event_Loop App_Routes
begin

text \<open>
  \<open>src/main.cpp\<close>: the order in which the parts are configured and started, and \<open>ShortUrlCache::warmup\<close>, which
  fills the Bloom filter from the database through the connection pool.  The static initial values of the
  singletons are those of the components' theories.
\<close>

section \<open>Warm-up\<close>

text \<open>\<open>None\<close> is a call of \<open>GetConnection\<close> that blocks; the boolean is the return value.\<close>

definition warmup :: "'m mysql_lib \<Rightarrow> shard_router \<Rightarrow> ('r, 'm, 'k) app \<Rightarrow> (bool \<times> ('r, 'm, 'k) app) option" where
  "warmup lib router a =
     (case GetConnection (a_pool a) of
        None \<Rightarrow> None
      | Some (None, p) \<Rightarrow> Some (False, a\<lparr>a_pool := p\<rparr>)
      | Some (Some con, p) \<Rightarrow>
          (case list_active_codes lib router True (a_db a) of
             (r, db) \<Rightarrow>
               (let a1 = a\<lparr>a_pool := snd (ReleaseConnection (Some con) p), a_db := db\<rparr>
                in case r of
                     Inl _ \<Rightarrow> Some (False, a1)
                   | Inr codes \<Rightarrow>
                       (case warmup_codes (Some codes) (a_cache a1) of (ok, c) \<Rightarrow> Some (ok, a1\<lparr>a_cache := c\<rparr>)))))"

section \<open>\<open>main\<close>\<close>

text \<open>What \<open>main\<close> meets: the libraries, the worker id derived from the process id, the state of the servers it
  talks to, and the results of the calls made while starting.\<close>

record ('n, 'r, 'm, 'k) surroundings =
  su_yaml :: "'n yaml_lib"
  su_redis :: "'r redis_lib"
  su_redis_options :: redis_options
  su_kafka :: "'k kafka_lib"
  su_mysql :: "'m mysql_lib"
  su_pid_worker :: u64
  su_redis_state :: 'r
  su_db :: 'm
  su_kafka_state :: 'k
  su_slot :: http_conn
  su_disk :: disk
  su_tm :: log_tm
  su_fopen :: bool
  su_connects :: "nat option list"
  su_threads :: bool
  su_listen :: listen_calls

record ('r, 'm, 'k) program =
  pr_config :: config
  pr_worker :: u64
  pr_router :: shard_router
  pr_server :: "('r, 'm, 'k) web_server"

definition main_config :: "('n, 'r, 'm, 'k) surroundings \<Rightarrow> string list \<Rightarrow> config" where
  "main_config su argv =
     fst (config_load (su_yaml su) (if length argv > 1 then argv ! 1 else ''config/config.yaml'') config_default)"

definition main_worker :: "('n, 'r, 'm, 'k) surroundings \<Rightarrow> config \<Rightarrow> u64" where
  "main_worker su cfg =
     (if snowflake_worker_id cfg \<ge> 0 then set_worker_id (snowflake_worker_id cfg) (su_pid_worker su) else su_pid_worker su)"

definition main_app :: "('n, 'r, 'm, 'k) surroundings \<Rightarrow> config \<Rightarrow> ('r, 'm, 'k) app" where
  "main_app su cfg =
     init_short_url_handler cfg
       \<lparr>a_cache = cache_init (su_redis su) (su_redis_options su) cfg (short_url_cache_new (su_redis_state su)),
        a_pool = connection_pool_new, a_db = su_db su, a_gen = snowflake_init, a_clk = 0,
        a_clicks = producer_init (su_kafka su) cfg (click_producer_new (su_kafka_state su)),
        a_base_url = ''http://localhost:9006''\<rparr>"

text \<open>\<open>main\<close> up to \<open>eventLoop\<close>; the routes are those of \<open>app_routes\<close>.\<close>

definition main_start :: "('n, 'r, 'm, 'k) surroundings \<Rightarrow> string list \<Rightarrow> ('r, 'm, 'k) program option" where
  "main_start su argv =
     (let cfg = main_config su argv;
          router = shard_router_init cfg;
          sl = slog_init cfg (su_disk su) slogger_new;
          w1 = ws_sql_pool (su_connects su)
                 (ws_open_log (su_tm su) (su_fopen su) (ws_init cfg (ws_new (su_slot su) (main_app su cfg) sl)))
      in case warmup (su_mysql su) router (ws_app w1) of
           None \<Rightarrow> None
         | Some (_, a) \<Rightarrow>
             (case ws_thread_pool (su_threads su) (w1\<lparr>ws_app := a\<rparr>) of
                Inl e \<Rightarrow> None
              | Inr w2 \<Rightarrow>
                  map_option (\<lambda>w. \<lparr>pr_config = cfg, pr_worker = main_worker su cfg, pr_router = router, pr_server = w\<rparr>)
                    (ws_eventListen (su_listen su) (ws_trig_mode w2))))"

section \<open>The started program\<close>

text \<open>The server that \<open>main\<close> starts satisfies the invariant of the event loop.\<close>

lemma main_start_ok:
  assumes "main_start su argv = Some pr" "lc_pipe (su_listen su) = Some (p0, p1)"
    "distinct [lc_socket (su_listen su), lc_epoll (su_listen su), p0, p1]" "0 \<le> lc_epoll (su_listen su)" "0 \<le> p0" "0 \<le> p1"
  shows "server_ok clk (pr_server pr)" "listening_ok (pr_server pr)"
proof -
  let ?cfg = "main_config su argv"
  let ?w1 = "ws_sql_pool (su_connects su) (ws_open_log (su_tm su) (su_fopen su)
    (ws_init ?cfg (ws_new (su_slot su) (main_app su ?cfg) (slog_init ?cfg (su_disk su) slogger_new))))"
  from assms(1) obtain b a w2 where
    "ws_thread_pool (su_threads su) (?w1\<lparr>ws_app := a\<rparr>) = Inr w2" "ws_eventListen (su_listen su) (ws_trig_mode w2) = Some (pr_server pr)"
    by (auto simp: main_start_def Let_def split: option.splits sum.splits prod.splits)
  moreover have "idle ?w1" by (intro idle_setup)
  then have "idle (?w1\<lparr>ws_app := a\<rparr>)" by (simp add: idle_def)
  ultimately have "idle (ws_trig_mode w2)" "ws_pool (ws_trig_mode w2) \<noteq> None"
    "ws_eventListen (su_listen su) (ws_trig_mode w2) = Some (pr_server pr)" using idle_setup(5-7) by metis+
  from listen_ok(1,2) [OF this assms(2,3)] assms(4-6) show "server_ok clk (pr_server pr)" "listening_ok (pr_server pr)" by auto
qed

lemma warmup_codes_complete:
  "wf_bloom (c_bloom c) \<Longrightarrow> code \<in> set codes \<Longrightarrow> cache_might_contain (snd (warmup_codes (Some codes) c)) code"
  by (simp add: warmup_codes_def cache_might_contain_def bloom.fold_complete)

section \<open>Properties\<close>

text \<open>C10: no stored short URL is filtered out.  When \<open>warmup\<close> reports success, the Bloom filter is ready and admits every
  active code that the database lists in the table the shard router stores it in, so that the filter in hard mode
  never answers 404 for it; and the connection it used is back in the pool.  The listing queries are assumed not to
  change the database.\<close>

theorem warmup_admits_stored_codes:
  assumes "warmup lib router a = Some (True, a')" "wf_router router" "wf_bloom (c_bloom (a_cache a))"
    and "\<And>t. snd (my_query lib (list_sql t) (a_db a)) = a_db a"
    and "fst (my_query lib (list_sql (short_url_table_for_code router code)) (a_db a)) = QueryRows rows"
    and "row \<in> set rows" "row ! 0 = Some code"
  shows "c_bloom_ready (a_cache a') \<and> cache_might_contain (a_cache a') code \<and> pool_same (a_pool a) (a_pool a')"
proof -
  from assms(1) obtain con p codes db where
    g: "GetConnection (a_pool a) = Some (Some con, p)" "list_active_codes lib router True (a_db a) = (Inr codes, db)" and
    a': "a' = a\<lparr>a_pool := snd (ReleaseConnection (Some con) p), a_db := db,
               a_cache := snd (warmup_codes (Some codes) (a_cache a))\<rparr>"
    by (auto simp: warmup_def Let_def warmup_codes_def split: option.splits prod.splits sum.splits)
  have "short_url_table_for_code router code \<in> set (if enabled router then map qualified_table (all_routes router) else [''short_url''])"
    using table_scanned [OF assms(2)] by (simp add: scanned_tables_def)
  from list_tables_complete [OF _ assms(4) this assms(5-7)] g(2) have "code \<in> set codes"
    by (simp add: list_active_codes_def)
  with warmup_codes_complete [OF assms(3)] show ?thesis
    using get_release_same [OF g(1)] by (simp add: a' warmup_codes_def)
qed

definition demo_rows :: "unit mysql_lib" where
  "demo_rows = \<lparr>my_query = (\<lambda>_ db. (QueryRows [[Some ''abc'']], db)), my_escape = (\<lambda>s. s)\<rparr>"

theorem warmup_admits_stored_codes_witness:
  "\<exists>a'. warmup demo_rows (shard_router_new\<lparr>enabled := False\<rparr>) demo_app = Some (True, a')
     \<and> c_bloom_ready (a_cache a') \<and> cache_might_contain (a_cache a') ''abc''"
proof -
  let ?r = "shard_router_new\<lparr>enabled := False\<rparr>"
  obtain con p where "GetConnection (a_pool demo_app) = Some (Some con, p)" using demo_con by blast
  then obtain a' where w: "warmup demo_rows ?r demo_app = Some (True, a')"
    by (simp add: warmup_def list_active_codes_def demo_rows_def warmup_codes_def Let_def)
  have "wf_router ?r" by (simp add: wf_router_def shard_router_new_def)
  from warmup_admits_stored_codes [OF w this demo_cache_ok(2), of "''abc''" "[[Some ''abc'']]" "[Some ''abc'']"] w
  show ?thesis by (simp add: demo_rows_def)
qed

end
