(* ===== verification/Queue_Monitor.thy ===== *)
theory Queue_Monitor
  imports Locks Block_Queue
begin

text \<open>
  \<open>push\<close> and both \<open>pop\<close>s of \<open>src/log/block_queue.h\<close> as threads run them, cut at their lock operations
  (\<open>src/lock/locker.h\<close>): taking the mutex, the work under it, the wait on the condition variable, the way
  back from the wait, and giving the mutex back.  \<open>Block_Queue\<close> has the work under the mutex; here any number
  of producers and consumers interleave.

  A state is the monitor, the queue, the phase of every thread, the elements accepted so far and the elements
  popped so far.  \<open>bq_step t\<close> is a step of thread \<open>t\<close>, \<open>bq_wakeup\<close> what the system may do to a sleeping
  thread at any time: wake it for no reason, or end its wait with an error (the deadline of \<open>timewait\<close>).
\<close>

datatype 'a bq_phase =
    QIdle
  | QPush 'a            \<comment> \<open>entering \<open>push\<close>\<close>
  | QPushHeld 'a        \<comment> \<open>in \<open>push\<close>, with the mutex\<close>
  | QPop bool           \<comment> \<open>entering \<open>pop\<close>; \<open>True\<close> is the timed one\<close>
  | QPopHeld bool       \<comment> \<open>in front of the test of \<open>m_size\<close>, with the mutex\<close>
  | QAsleep bool        \<comment> \<open>in the wait\<close>
  | QWaitFailed         \<comment> \<open>the wait ended with an error, the mutex not yet taken back\<close>
  | QRecheck            \<comment> \<open>timed \<open>pop\<close> after its wait, with the mutex\<close>
  | QLeave              \<comment> \<open>in front of the last \<open>unlock\<close>\<close>

type_synonym 'a bq_state = "monitor \<times> 'a block_queue \<times> (nat \<Rightarrow> 'a bq_phase) \<times> 'a list \<times> 'a list"

inductive bq_step :: "nat \<Rightarrow> 'a bq_state \<Rightarrow> 'a bq_state \<Rightarrow> bool" where
  q_call_push: "ph t = QIdle \<Longrightarrow> bq_step t (m, q, ph, ins, outs) (m, q, ph(t := QPush x), ins, outs)"
| q_call_pop: "ph t = QIdle \<Longrightarrow> bq_step t (m, q, ph, ins, outs) (m, q, ph(t := QPop timed), ins, outs)"
| q_push_lock: "ph t = QPush x \<Longrightarrow> mon_lock t m = Some m' \<Longrightarrow>
    bq_step t (m, q, ph, ins, outs) (m', q, ph(t := QPushHeld x), ins, outs)"
| q_push: "ph t = QPushHeld x \<Longrightarrow> bq_push x q = (accepted, q') \<Longrightarrow>
    bq_step t (m, q, ph, ins, outs)
      (mon_broadcast m, q', ph(t := QLeave), if accepted then ins @ [x] else ins, outs)"
| q_pop_lock: "ph t = QPop timed \<Longrightarrow> mon_lock t m = Some m' \<Longrightarrow>
    bq_step t (m, q, ph, ins, outs) (m', q, ph(t := QPopHeld timed), ins, outs)"
| q_pop_wait: "ph t = QPopHeld timed \<Longrightarrow> m_size q \<le> 0 \<Longrightarrow> mon_wait t m = Some m' \<Longrightarrow>
    bq_step t (m, q, ph, ins, outs) (m', q, ph(t := QAsleep timed), ins, outs)"
| q_pop_take: "ph t = QPopHeld timed \<Longrightarrow> m_size q > 0 \<Longrightarrow> bq_take q = (x, q') \<Longrightarrow>
    bq_step t (m, q, ph, ins, outs) (m, q', ph(t := QLeave), ins, outs @ [x])"
| q_resume: "ph t = QAsleep timed \<Longrightarrow> t \<notin> set (mon_sleepers m) \<Longrightarrow> mon_lock t m = Some m' \<Longrightarrow>
    bq_step t (m, q, ph, ins, outs) (m', q, ph(t := if timed then QRecheck else QPopHeld False), ins, outs)"
| q_wait_failed: "ph t = QWaitFailed \<Longrightarrow> mon_lock t m = Some m' \<Longrightarrow>
    bq_step t (m, q, ph, ins, outs) (m', q, ph(t := QLeave), ins, outs)"
| q_recheck_empty: "ph t = QRecheck \<Longrightarrow> m_size q \<le> 0 \<Longrightarrow>
    bq_step t (m, q, ph, ins, outs) (m, q, ph(t := QLeave), ins, outs)"
| q_recheck_take: "ph t = QRecheck \<Longrightarrow> m_size q > 0 \<Longrightarrow> bq_take q = (x, q') \<Longrightarrow>
    bq_step t (m, q, ph, ins, outs) (m, q', ph(t := QLeave), ins, outs @ [x])"
| q_unlock: "ph t = QLeave \<Longrightarrow> mon_unlock t m = Some m' \<Longrightarrow>
    bq_step t (m, q, ph, ins, outs) (m', q, ph(t := QIdle), ins, outs)"

inductive bq_wakeup :: "'a bq_state \<Rightarrow> 'a bq_state \<Rightarrow> bool" where
  q_spurious: "ph t = QAsleep timed \<Longrightarrow> bq_wakeup (m, q, ph, ins, outs) (mon_wake t m, q, ph, ins, outs)"
| q_error: "ph t = QAsleep timed \<Longrightarrow>
    bq_wakeup (m, q, ph, ins, outs) (mon_wake t m, q, ph(t := QWaitFailed), ins, outs)"

definition bq_move :: "'a bq_state \<Rightarrow> 'a bq_state \<Rightarrow> bool" where
  "bq_move s s' \<longleftrightarrow> (\<exists>t. bq_step t s s') \<or> bq_wakeup s s'"

definition bq_start :: "'a block_queue \<Rightarrow> monitor \<Rightarrow> 'a bq_state" where
  "bq_start q m = (m, q, (\<lambda>_. QIdle), [], [])"

section \<open>The invariant\<close>

fun q_holds :: "'a bq_phase \<Rightarrow> bool" where
  "q_holds (QPushHeld x) = True"
| "q_holds (QPopHeld timed) = True"
| "q_holds QRecheck = True"
| "q_holds QLeave = True"
| "q_holds _ = False"

fun q_asleep :: "'a bq_phase \<Rightarrow> bool" where
  "q_asleep (QAsleep timed) = True"
| "q_asleep _ = False"

interpretation qm: monitor_client q_holds q_asleep
proof unfold_locales
  show "\<not> q_holds p" if "q_asleep p" for p :: "'a bq_phase" using that by (cases p) simp_all
qed

definition qm_inv :: "int \<Rightarrow> 'a bq_state \<Rightarrow> bool" where
  "qm_inv n s \<longleftrightarrow> (case s of (m, q, ph, ins, outs) \<Rightarrow>
     qm.mon_ok m ph \<and> bq_ok q \<and> m_max_size q = n \<and> ins = outs @ bq_content q
     \<and> (m_size q > 0 \<longrightarrow> mon_sleepers m = []))"

lemma qm_inv_start:
  "block_queue_new d n = Some q \<Longrightarrow> monitor_new a b = Inr m \<Longrightarrow> qm_inv n (bq_start q m)"
  using block_queue_new_ok [of d n q] qm.mon_ok_start [of a b m "\<lambda>_. QIdle"]
  by (auto simp: qm_inv_def bq_start_def monitor_new_def locker_new_def cond_new_def split: if_splits)

text \<open>The three kinds of steps that touch more than the monitor and the phase.\<close>

lemma qm_inv_push:
  assumes "qm_inv n (m, q, ph, ins, outs)" "ph t = QPushHeld x" "bq_push x q = (accepted, q')"
  shows "qm_inv n (mon_broadcast m, q', ph(t := QLeave), if accepted then ins @ [x] else ins, outs)"
proof -
  have inv: "qm.mon_ok m ph" "bq_ok q" "m_max_size q = n" "ins = outs @ bq_content q"
    using assms(1) by (simp_all add: qm_inv_def)
  have "qm.mon_ok (mon_broadcast m) (ph(t := QLeave))"
    using qm.mon_ok_broadcast [OF inv(1)] assms(2)
    by (intro qm.mon_ok_move) (auto simp: mon_broadcast_def)
  with bq_push_content [OF inv(2), of x] assms(3) inv show ?thesis by (simp add: qm_inv_def mon_broadcast_def)
qed

lemma qm_inv_take:
  assumes "qm_inv n (m, q, ph, ins, outs)" "q_holds (ph t)" "0 < m_size q" "bq_take q = (x, q')"
  shows "qm_inv n (m, q', ph(t := QLeave), ins, outs @ [x])"
proof -
  have inv: "qm.mon_ok m ph" "bq_ok q" "m_max_size q = n" "ins = outs @ bq_content q" "mon_sleepers m = []"
    using assms(1,3) by (simp_all add: qm_inv_def)
  have "qm.mon_ok m (ph(t := QLeave))" using assms(2) inv(5) by (intro qm.mon_ok_move [OF inv(1)]) simp_all
  with bq_take_content [OF inv(2) assms(3)] assms(4) inv show ?thesis by (simp add: qm_inv_def)
qed

lemma qm_inv_monitor:
  assumes "qm_inv n (m, q, ph, ins, outs)" "qm.mon_ok m' ph'" "m_size q > 0 \<longrightarrow> set (mon_sleepers m') \<subseteq> set (mon_sleepers m)"
  shows "qm_inv n (m', q, ph', ins, outs)"
  using assms by (auto simp: qm_inv_def)

lemma mon_lock_sleepers: "mon_lock t m = Some m' \<Longrightarrow> mon_sleepers m' = mon_sleepers m"
  by (auto simp: mon_lock_def split: if_splits)

lemma mon_unlock_sleepers: "mon_unlock t m = Some m' \<Longrightarrow> mon_sleepers m' = mon_sleepers m"
  by (auto simp: mon_unlock_def split: if_splits)

lemma qm_inv_lock:
  assumes "qm_inv n (m, q, ph, ins, outs)" "mon_lock t m = Some m'" "t \<notin> set (mon_sleepers m)" "q_holds p"
  shows "qm_inv n (m', q, ph(t := p), ins, outs)"
  using assms(1) qm.mon_ok_lock [OF _ assms(2-4)] mon_lock_sleepers [OF assms(2)] by (simp add: qm_inv_def)

lemma qm_inv_move:
  assumes "qm_inv n (m, q, ph, ins, outs)" "\<not> q_asleep (ph t)" "q_holds p = q_holds (ph t)"
  shows "qm_inv n (m, q, ph(t := p), ins, outs)"
  using assms qm.mon_ok_move [of m ph p t] qm.not_sleeping [of m ph t] by (simp add: qm_inv_def)

lemma qm_not_sleeping: "qm_inv n (m, q, ph, ins, outs) \<Longrightarrow> \<not> q_asleep (ph t) \<Longrightarrow> t \<notin> set (mon_sleepers m)"
  using qm.not_sleeping [of m ph t] by (simp add: qm_inv_def)

lemma qm_inv_step: "bq_step t s s' \<Longrightarrow> qm_inv n s \<Longrightarrow> qm_inv n s'"
proof (induction rule: bq_step.induct)
  case (q_call_push ph t m q ins outs x)
  show ?case by (rule qm_inv_move [OF q_call_push.prems]) (use q_call_push.hyps in simp_all)
next
  case (q_call_pop ph t m q ins outs timed)
  show ?case by (rule qm_inv_move [OF q_call_pop.prems]) (use q_call_pop.hyps in simp_all)
next
  case (q_push_lock ph t x m m' q ins outs)
  show ?case by (rule qm_inv_lock [OF q_push_lock.prems]) (use q_push_lock qm_not_sleeping [OF q_push_lock.prems, of t] in simp_all)
next
  case (q_push ph t x q accepted q' m ins outs)
  show ?case by (rule qm_inv_push [OF q_push.prems q_push.hyps])
next
  case (q_pop_lock ph t timed m m' q ins outs)
  show ?case by (rule qm_inv_lock [OF q_pop_lock.prems]) (use q_pop_lock qm_not_sleeping [OF q_pop_lock.prems, of t] in simp_all)
next
  case (q_pop_wait ph t timed q m m' ins outs)
  then have "qm.mon_ok m' (ph(t := QAsleep timed))" by (intro qm.mon_ok_wait [of m]) (simp_all add: qm_inv_def)
  then show ?case by (rule qm_inv_monitor [OF q_pop_wait.prems]) (use q_pop_wait.hyps in simp_all)
next
  case (q_pop_take ph t timed q x q' m ins outs)
  show ?case by (rule qm_inv_take [OF q_pop_take.prems]) (use q_pop_take.hyps in simp_all)
next
  case (q_resume ph t timed m m' q ins outs)
  show ?case by (rule qm_inv_lock [OF q_resume.prems]) (use q_resume.hyps in simp_all)
next
  case (q_wait_failed ph t m m' q ins outs)
  show ?case by (rule qm_inv_lock [OF q_wait_failed.prems]) (use q_wait_failed qm_not_sleeping [OF q_wait_failed.prems, of t] in simp_all)
next
  case (q_recheck_empty ph t q m ins outs)
  show ?case by (rule qm_inv_move [OF q_recheck_empty.prems]) (use q_recheck_empty.hyps in simp_all)
next
  case (q_recheck_take ph t q x q' m ins outs)
  show ?case by (rule qm_inv_take [OF q_recheck_take.prems]) (use q_recheck_take.hyps in simp_all)
next
  case (q_unlock ph t m m' q ins outs)
  then have "qm.mon_ok m' (ph(t := QIdle))" by (intro qm.mon_ok_unlock [of m]) (simp_all add: qm_inv_def)
  then show ?case by (rule qm_inv_monitor [OF q_unlock.prems]) (simp add: mon_unlock_sleepers [OF q_unlock.hyps(2)])
qed

lemma qm_inv_wakeup: "bq_wakeup s s' \<Longrightarrow> qm_inv n s \<Longrightarrow> qm_inv n s'"
proof (induction rule: bq_wakeup.induct)
  case (q_spurious ph t timed m q ins outs)
  then have "qm.mon_ok (mon_wake t m) ph" by (intro qm.mon_ok_wake) (simp add: qm_inv_def)
  then show ?case by (rule qm_inv_monitor [OF q_spurious.prems]) (auto simp: mon_wake_def)
next
  case (q_error ph t timed m q ins outs)
  then have "qm.mon_ok (mon_wake t m) (ph(t := QWaitFailed))"
    by (intro qm.mon_ok_move qm.mon_ok_wake) (simp_all add: qm_inv_def mon_wake_def)
  then show ?case by (rule qm_inv_monitor [OF q_error.prems]) (auto simp: mon_wake_def)
qed

lemma qm_inv_reachable: "bq_move\<^sup>*\<^sup>* s s' \<Longrightarrow> qm_inv n s \<Longrightarrow> qm_inv n s'"
proof (induction rule: rtranclp_induct)
  case (step s1 s2)
  from step.hyps(2) show ?case unfolding bq_move_def
    by (elim disjE exE) (rule qm_inv_step qm_inv_wakeup, assumption, rule step.IH [OF step.prems])+
qed

section \<open>No thread is stuck\<close>

lemma holder_steps:
  assumes "qm_inv n (m, q, ph, ins, outs)" "q_holds (ph t)"
  shows "\<exists>s'. bq_step t (m, q, ph, ins, outs) s'"
proof -
  have ok: "qm.mon_ok m ph" using assms(1) by (simp add: qm_inv_def)
  obtain m1 m2 where m: "mon_unlock t m = Some m1" "mon_wait t m = Some m2"
    using qm.holder_unlocks [OF ok assms(2)] qm.holder_waits [OF ok assms(2)] by blast
  obtain x q' where take: "bq_take q = (x, q')" by (cases "bq_take q")
  show ?thesis
  proof (cases "ph t")
    case (QPushHeld x)
    then show ?thesis by (cases "bq_push x q") (blast intro: q_push)
  next
    case (QPopHeld timed)
    from q_pop_take [of ph t, OF this _ take] q_pop_wait [of ph t, OF this _ m(2)] show ?thesis by (meson not_le)
  next
    case QRecheck
    from q_recheck_take [of ph t, OF this _ take] q_recheck_empty [of ph t, OF this] show ?thesis by (meson not_le)
  next
    case QLeave
    from q_unlock [of ph t, OF this m(1)] show ?thesis by blast
  qed (use assms(2) in simp_all)
qed

lemma thread_steps:
  assumes inv: "qm_inv n (m, q, ph, ins, outs)"
  shows "(\<exists>s'. bq_step t (m, q, ph, ins, outs) s')
    \<or> (\<exists>u s'. mon_owner m = Some u \<and> bq_step u (m, q, ph, ins, outs) s')
    \<or> q_asleep (ph t) \<and> t \<in> set (mon_sleepers m) \<and> bq_content q = []"
proof (cases "mon_owner m")
  case (Some u)
  then have "q_holds (ph u)" using inv by (simp add: qm_inv_def qm.mon_ok_def)
  with holder_steps [OF inv, of u] Some show ?thesis by blast
next
  case None
  then obtain m' where m': "mon_lock t m = Some m'" by (simp add: mon_lock_def)
  have empty: "bq_content q = []" if "t \<in> set (mon_sleepers m)"
    using inv that by (auto simp: qm_inv_def bq_content_def bq_ok_def)
  show ?thesis
  proof (cases "ph t")
    case QIdle
    from q_call_push [of ph t, OF this] show ?thesis by blast
  next
    case (QPush x)
    from q_push_lock [of ph t, OF this m'] show ?thesis by blast
  next
    case (QPop timed)
    from q_pop_lock [of ph t, OF this m'] show ?thesis by blast
  next
    case (QAsleep timed)
    from q_resume [of ph t, OF this _ m'] empty QAsleep show ?thesis
      by (cases "t \<in> set (mon_sleepers m)") (simp, blast)
  next
    case QWaitFailed
    from q_wait_failed [of ph t, OF this m'] show ?thesis by blast
  qed (use holder_steps [OF inv, of t] in simp_all)
qed

section \<open>Properties\<close>

text \<open>C26: the blocking queue under any interleaving of producers and consumers.  In every reachable state the
  accepted elements are the popped ones followed by the queued ones, in order, and at most \<open>n\<close> are queued; at
  most one thread is between taking the mutex and giving it back; and no wake-up is lost: every thread can take
  its next step, or waits for the mutex whose owner can take its next step, or is asleep on an empty queue.\<close>

theorem queue_monitor_live:
  assumes "block_queue_new d n = Some q0" "monitor_new True True = Inr m0"
    "bq_move\<^sup>*\<^sup>* (bq_start q0 m0) (m, q, ph, ins, outs)"
  shows "ins = outs @ bq_content q \<and> length (bq_content q) \<le> nat n
    \<and> (\<forall>t u. q_holds (ph t) \<and> q_holds (ph u) \<longrightarrow> t = u)
    \<and> (\<forall>t. (\<exists>s'. bq_step t (m, q, ph, ins, outs) s')
         \<or> (\<exists>u s'. mon_owner m = Some u \<and> bq_step u (m, q, ph, ins, outs) s')
         \<or> q_asleep (ph t) \<and> t \<in> set (mon_sleepers m) \<and> bq_content q = [])"
proof -
  have inv: "qm_inv n (m, q, ph, ins, outs)"
    by (rule qm_inv_reachable [OF assms(3) qm_inv_start [OF assms(1,2)]])
  then have "ins = outs @ bq_content q" "length (bq_content q) \<le> nat n" "qm.mon_ok m ph"
    by (auto simp: qm_inv_def bq_content_def bq_ok_def)
  with qm.mutual_exclusion thread_steps [OF inv] show ?thesis by blast
qed

text \<open>A consumer that went to sleep on the empty queue before a producer pushed can go on.\<close>

definition demo_bq :: "nat block_queue" where
  "demo_bq = \<lparr>m_array = [0, 0], m_size = 0, m_max_size = 2, m_front = -1, m_back = -1\<rparr>"

definition demo_mon :: "nat option \<Rightarrow> nat list \<Rightarrow> monitor" where
  "demo_mon u ts = \<lparr>mon_owner = u, mon_sleepers = ts\<rparr>"

lemma bq_move_first: "bq_step t s s1 \<Longrightarrow> bq_move\<^sup>*\<^sup>* s1 s' \<Longrightarrow> bq_move\<^sup>*\<^sup>* s s'"
  by (rule converse_rtranclp_into_rtranclp) (auto simp: bq_move_def)

lemma demo_bq_run:
  "bq_move\<^sup>*\<^sup>* (bq_start demo_bq (demo_mon None []))
     (demo_mon (Some 0) [], snd (bq_push 7 demo_bq), (\<lambda>_. QIdle)(1 := QAsleep False, 0 := QLeave), [7], [])"
proof -
  let ?i = "\<lambda>_ :: nat. QIdle :: nat bq_phase"
  have "bq_step 1 (bq_start demo_bq (demo_mon None [])) (demo_mon None [], demo_bq, ?i(1 := QPop False), [], [])"
    unfolding bq_start_def by (rule q_call_pop) simp
  moreover have "bq_step 1 (demo_mon None [], demo_bq, ?i(1 := QPop False), [], [])
      (demo_mon (Some 1) [], demo_bq, (?i(1 := QPop False))(1 := QPopHeld False), [], [])"
    by (rule q_pop_lock) (simp_all add: mon_lock_def demo_mon_def)
  moreover have "bq_step 1 (demo_mon (Some 1) [], demo_bq, (?i(1 := QPop False))(1 := QPopHeld False), [], [])
      (demo_mon None [1], demo_bq, ((?i(1 := QPop False))(1 := QPopHeld False))(1 := QAsleep False), [], [])"
    by (rule q_pop_wait) (simp_all add: mon_wait_def demo_mon_def demo_bq_def)
  moreover have "bq_step 0 (demo_mon None [1], demo_bq, ((?i(1 := QPop False))(1 := QPopHeld False))(1 := QAsleep False), [], [])
      (demo_mon None [1], demo_bq, (?i(1 := QAsleep False))(0 := QPush 7), [], [])"
    unfolding fun_upd_upd by (rule q_call_push) simp
  moreover have "bq_step 0 (demo_mon None [1], demo_bq, (?i(1 := QAsleep False))(0 := QPush 7), [], [])
      (demo_mon (Some 0) [1], demo_bq, ((?i(1 := QAsleep False))(0 := QPush 7))(0 := QPushHeld 7), [], [])"
    by (rule q_push_lock) (simp_all add: mon_lock_def demo_mon_def)
  moreover have "bq_step 0 (demo_mon (Some 0) [1], demo_bq, ((?i(1 := QAsleep False))(0 := QPush 7))(0 := QPushHeld 7), [], [])
      (demo_mon (Some 0) [], snd (bq_push 7 demo_bq), ((?i(1 := QAsleep False))(0 := QPush 7, 0 := QPushHeld 7))(0 := QLeave), [7], [])"
    using q_push [of "(?i(1 := QAsleep False))(0 := QPush 7, 0 := QPushHeld 7)" 0 7 demo_bq True _ "demo_mon (Some 0) [1]" "[]" "[]"]
    by (simp add: bq_push_def demo_bq_def mon_broadcast_def demo_mon_def)
  ultimately show ?thesis unfolding fun_upd_upd by (meson bq_move_first rtranclp.rtrancl_refl)
qed

theorem queue_monitor_live_witness:
  "\<exists>m q ph. bq_move\<^sup>*\<^sup>* (bq_start demo_bq (demo_mon None [])) (m, q, ph, [7], [])
     \<and> bq_content q = [7] \<and> ph 1 = QAsleep False
     \<and> ((\<exists>s'. bq_step 1 (m, q, ph, [7], []) s') \<or> (\<exists>u s'. mon_owner m = Some u \<and> bq_step u (m, q, ph, [7], []) s'))"
proof -
  let ?q = "snd (bq_push 7 demo_bq)" and ?ph = "(\<lambda>_ :: nat. QIdle :: nat bq_phase)(1 := QAsleep False, 0 := QLeave)"
  have new: "block_queue_new 0 2 = Some demo_bq" "monitor_new True True = Inr (demo_mon None [])"
    by (simp_all add: block_queue_new_def demo_bq_def numeral_2_eq_2 monitor_new_def locker_new_def cond_new_def demo_mon_def)
  note live = queue_monitor_live [OF new demo_bq_run]
  have "bq_content ?q = [7]" using live by simp
  moreover have "(\<exists>s'. bq_step 1 (demo_mon (Some 0) [], ?q, ?ph, [7], []) s')
      \<or> (\<exists>u s'. mon_owner (demo_mon (Some 0) []) = Some u \<and> bq_step u (demo_mon (Some 0) [], ?q, ?ph, [7], []) s')
      \<or> q_asleep (?ph 1) \<and> 1 \<in> set (mon_sleepers (demo_mon (Some 0) [])) \<and> bq_content ?q = []"
    using live by (elim conjE) (rule spec)
  moreover have "1 \<notin> set (mon_sleepers (demo_mon (Some 0) []))" by (simp add: demo_mon_def)
  ultimately have "bq_content ?q = [7] \<and> ((\<exists>s'. bq_step 1 (demo_mon (Some 0) [], ?q, ?ph, [7], []) s')
      \<or> (\<exists>u s'. mon_owner (demo_mon (Some 0) []) = Some u \<and> bq_step u (demo_mon (Some 0) [], ?q, ?ph, [7], []) s'))"
    by blast
  moreover have "?ph 1 = QAsleep False" by simp
  ultimately show ?thesis using demo_bq_run by blast
qed

end
