(* ===== verification/Webbench.thy ===== *)
theory Webbench
  imports Http_Session
begin

text \<open>
  \<open>src/test_pressure/webbench-1.5\<close>: the benchmark client that the repository's documents run against the
  server.  \<open>webbench.c\<close> has the options, \<open>build_request\<close>, the client loop \<open>benchcore\<close> and the process tree
  of \<open>bench\<close>; \<open>socket.c\<close> opens a connection.

  The globals of the program are the record \<open>webbench\<close>.  Character arrays are strings with a capacity: a copy
  or a read beyond the array is \<open>WbOutOfBounds\<close>, \<open>exit(n)\<close> is \<open>WbExit n\<close>.  Command line arguments hold no
  NUL byte.  What \<open>getopt_long\<close>, the socket calls, \<open>fork\<close>, \<open>fscanf\<close> and the alarm give are arguments.
  The counters are C \<open>int\<close>s, taken as unbounded; the line with the rates, computed in floating point, is not
  modelled.
\<close>

section \<open>Globals\<close>

datatype wb_method = METHOD_GET | METHOD_HEAD | METHOD_OPTIONS | METHOD_TRACE

record webbench =
  wb_http10 :: int
  wb_method :: wb_method
  wb_clients :: int
  wb_force :: bool
  wb_force_reload :: bool
  wb_proxyport :: int
  wb_proxyhost :: "string option"
  wb_benchtime :: int
  wb_host :: string
  wb_request :: string
  wb_speed :: int
  wb_failed :: int
  wb_bytes :: int

definition webbench_new :: webbench where
  "webbench_new =
     \<lparr>wb_http10 = 1, wb_method = METHOD_GET, wb_clients = 1, wb_force = False, wb_force_reload = False,
      wb_proxyport = 80, wb_proxyhost = None, wb_benchtime = 30, wb_host = [], wb_request = [],
      wb_speed = 0, wb_failed = 0, wb_bytes = 0\<rparr>"

definition MAXHOSTNAMELEN :: nat where
  "MAXHOSTNAMELEN = 64"

definition REQUEST_SIZE :: nat where
  "REQUEST_SIZE = 2048"

section \<open>Character arrays\<close>

datatype wb_stop = WbExit int | WbOutOfBounds

definition wb_then :: "wb_stop + 'a \<Rightarrow> ('a \<Rightarrow> wb_stop + 'b) \<Rightarrow> wb_stop + 'b" where
  "wb_then r f = (case r of Inl e \<Rightarrow> Inl e | Inr x \<Rightarrow> f x)"

lemma wb_then_simps [simp]: "wb_then (Inl e) f = Inl e" "wb_then (Inr x) f = f x"
  by (simp_all add: wb_then_def)

text \<open>\<open>strcat(dst, src)\<close> with \<open>cap\<close> bytes at \<open>dst\<close>.\<close>

definition buf_cat :: "nat \<Rightarrow> string \<Rightarrow> string \<Rightarrow> wb_stop + string" where
  "buf_cat cap dst src = (if length dst + length src < cap then Inr (dst @ src) else Inl WbOutOfBounds)"

text \<open>\<open>strncpy(dst, src, n)\<close> into a zeroed array of \<open>cap\<close> bytes, \<open>n \<le> strlen(src)\<close>: with \<open>n = cap\<close> the array
  is full and not terminated, and reading it as a string runs past its end.\<close>

definition buf_ncpy :: "nat \<Rightarrow> string \<Rightarrow> nat \<Rightarrow> wb_stop + string" where
  "buf_ncpy cap src n = (if n \<le> cap then Inr (take n src) else Inl WbOutOfBounds)"

definition buf_read :: "nat \<Rightarrow> string \<Rightarrow> wb_stop + string" where
  "buf_read cap s = (if length s < cap then Inr s else Inl WbOutOfBounds)"

text \<open>\<open>atoi\<close> of an array: it stops at the first byte behind the digits, if the array has one.\<close>

definition atoi_stops :: "string \<Rightarrow> bool" where
  "atoi_stops s =
     (let r = dropWhile (\<lambda>c. c = CHR '' '' \<or> (9 \<le> (of_char c :: nat) \<and> (of_char c :: nat) \<le> 13)) s
      in case r of [] \<Rightarrow> False
         | c # r' \<Rightarrow> \<not> list_all is_digit (if c = CHR ''-'' \<or> c = CHR ''+'' then r' else r))"

definition buf_atoi :: "nat \<Rightarrow> string \<Rightarrow> wb_stop + int" where
  "buf_atoi cap s = (if length s < cap \<or> atoi_stops s then Inr (atoi s) else Inl WbOutOfBounds)"

text \<open>\<open>strstr\<close>, as the offset of the first match, and the offset \<open>strchr\<close> or \<open>strcspn\<close> finds.\<close>

fun str_find :: "string \<Rightarrow> string \<Rightarrow> nat option" where
  "str_find needle [] = (if needle = [] then Some 0 else None)"
| "str_find needle (c # s) =
     (if starts_with (c # s) needle then Some 0 else map_option Suc (str_find needle s))"

definition char_span :: "char \<Rightarrow> string \<Rightarrow> nat" where
  "char_span ch s = length (takeWhile (\<lambda>c. c \<noteq> ch) s)"

section \<open>build\_request\<close>

definition wb_adjust_http :: "webbench \<Rightarrow> webbench" where
  "wb_adjust_http g =
     (let h1 = (if wb_force_reload g \<and> wb_proxyhost g \<noteq> None \<and> wb_http10 g < 1 then 1 else wb_http10 g);
          h2 = (if wb_method g = METHOD_HEAD \<and> h1 < 1 then 1 else h1);
          h3 = (if wb_method g = METHOD_OPTIONS \<and> h2 < 2 then 2 else h2);
          h4 = (if wb_method g = METHOD_TRACE \<and> h3 < 2 then 2 else h3)
      in g\<lparr>wb_http10 := h4\<rparr>)"

fun wb_method_text :: "wb_method \<Rightarrow> string" where
  "wb_method_text METHOD_GET = ''GET''"
| "wb_method_text METHOD_HEAD = ''HEAD''"
| "wb_method_text METHOD_OPTIONS = ''OPTIONS''"
| "wb_method_text METHOD_TRACE = ''TRACE''"

text \<open>The host and the port of a URL without a proxy; \<open>rest\<close> is \<open>url+i\<close>.\<close>

definition wb_host_port :: "string \<Rightarrow> webbench \<Rightarrow> wb_stop + webbench" where
  "wb_host_port rest g =
     (let colon = char_span CHR '':'' rest; slash = char_span CHR ''/'' rest
      in if CHR '':'' \<in> set rest \<and> colon < slash then
           wb_then (buf_ncpy MAXHOSTNAMELEN rest colon) (\<lambda>h.
           wb_then (buf_ncpy 10 (drop (colon + 1) rest) (slash - colon - 1)) (\<lambda>tmp.
           wb_then (buf_atoi 10 tmp) (\<lambda>p.
             Inr (g\<lparr>wb_host := h, wb_proxyport := (if p = 0 then 80 else p)\<rparr>))))
         else
           wb_then (buf_ncpy MAXHOSTNAMELEN rest slash) (\<lambda>h. Inr (g\<lparr>wb_host := h\<rparr>)))"

definition wb_cat :: "string \<Rightarrow> webbench \<Rightarrow> wb_stop + webbench" where
  "wb_cat s g = wb_then (buf_cat REQUEST_SIZE (wb_request g) s) (\<lambda>r. Inr (g\<lparr>wb_request := r\<rparr>))"

definition wb_cat_if :: "bool \<Rightarrow> string \<Rightarrow> webbench \<Rightarrow> wb_stop + webbench" where
  "wb_cat_if b s g = (if b then wb_cat s g else Inr g)"

text \<open>Everything behind the request target.\<close>

definition wb_headers :: "webbench \<Rightarrow> wb_stop + webbench" where
  "wb_headers g =
     wb_then (wb_cat (if wb_http10 g = 1 then '' HTTP/1.0'' else if wb_http10 g = 2 then '' HTTP/1.1'' else []) g) (\<lambda>g.
     wb_then (wb_cat CRLF g) (\<lambda>g.
     wb_then (wb_cat_if (wb_http10 g > 0) (''User-Agent: WebBench 1.5'' @ CRLF) g) (\<lambda>g.
     wb_then (if wb_proxyhost g = None \<and> wb_http10 g > 0 then
                wb_then (wb_cat ''Host: '' g) (\<lambda>g.
                wb_then (buf_read MAXHOSTNAMELEN (wb_host g)) (\<lambda>h.
                wb_then (wb_cat h g) (wb_cat CRLF)))
              else Inr g) (\<lambda>g.
     wb_then (wb_cat_if (wb_force_reload g \<and> wb_proxyhost g \<noteq> None) (''Pragma: no-cache'' @ CRLF) g) (\<lambda>g.
     wb_then (wb_cat_if (wb_http10 g > 1) (''Connection: close'' @ CRLF) g) (\<lambda>g.
     wb_cat_if (wb_http10 g > 0) CRLF g))))))"

definition build_request :: "string \<Rightarrow> webbench \<Rightarrow> wb_stop + webbench" where
  "build_request url g =
     (let g0 = wb_adjust_http (g\<lparr>wb_host := [], wb_request := []\<rparr>)
      in wb_then (wb_cat (wb_method_text (wb_method g0)) g0) (\<lambda>g1.
         wb_then (wb_cat '' '' g1) (\<lambda>g2.
         case str_find ''://'' url of
           None \<Rightarrow> Inl (WbExit 2)
         | Some k \<Rightarrow>
             if length url > 1500 then Inl (WbExit 2)
             else if wb_proxyhost g2 = None \<and> \<not> strncaseeq url ''http://'' then Inl (WbExit 2)
             else
               (let rest = drop (k + 3) url
                in if CHR ''/'' \<notin> set rest then Inl (WbExit 2)
                   else if wb_proxyhost g2 = None then
                     wb_then (wb_host_port rest g2) (\<lambda>g3.
                     wb_then (wb_cat (drop (char_span CHR ''/'' rest) rest) g3) wb_headers)
                   else wb_then (wb_cat url g2) wb_headers))))"

section \<open>Options\<close>

text \<open>What one call of \<open>getopt_long\<close> gives: a long option that sets a variable by itself (the call returns 0),
  or a letter with its argument.\<close>

datatype wb_flag = FlagForce | FlagReload | FlagMethod wb_method

datatype wb_option = OptFlag wb_flag | OptChar char string

fun wb_set_flag :: "wb_flag \<Rightarrow> webbench \<Rightarrow> webbench" where
  "wb_set_flag FlagForce g = g\<lparr>wb_force := True\<rparr>"
| "wb_set_flag FlagReload g = g\<lparr>wb_force_reload := True\<rparr>"
| "wb_set_flag (FlagMethod m) g = g\<lparr>wb_method := m\<rparr>"

text \<open>\<open>--proxy server:port\<close>, split at the last colon.\<close>

definition wb_proxy_option :: "string \<Rightarrow> webbench \<Rightarrow> int + webbench" where
  "wb_proxy_option arg g =
     (if CHR '':'' \<notin> set arg then Inr (g\<lparr>wb_proxyhost := Some arg\<rparr>)
      else let tail = rev (takeWhile (\<lambda>c. c \<noteq> CHR '':'') (rev arg));
               tmp = length arg - length tail - 1
           in if tmp = 0 then Inl 2
              else if tmp = length arg - 1 then Inl 2
              else Inr (g\<lparr>wb_proxyhost := Some (take tmp arg), wb_proxyport := atoi (drop (tmp + 1) arg)\<rparr>))"

fun wb_options :: "wb_option list \<Rightarrow> webbench \<Rightarrow> int + webbench" where
  "wb_options [] g = Inr g"
| "wb_options (OptFlag f # os) g = wb_options os (wb_set_flag f g)"
| "wb_options (OptChar ch arg # os) g =
     (if ch = CHR ''f'' then wb_options os (g\<lparr>wb_force := True\<rparr>)
      else if ch = CHR ''r'' then wb_options os (g\<lparr>wb_force_reload := True\<rparr>)
      else if ch = CHR ''9'' then wb_options os (g\<lparr>wb_http10 := 0\<rparr>)
      else if ch = CHR ''1'' then wb_options os (g\<lparr>wb_http10 := 1\<rparr>)
      else if ch = CHR ''2'' then wb_options os (g\<lparr>wb_http10 := 2\<rparr>)
      else if ch = CHR ''V'' then Inl 0
      else if ch = CHR ''t'' then wb_options os (g\<lparr>wb_benchtime := atoi arg\<rparr>)
      else if ch = CHR ''p'' then
        (case wb_proxy_option arg g of Inl e \<Rightarrow> Inl e | Inr g' \<Rightarrow> wb_options os g')
      else if ch = CHR '':'' \<or> ch = CHR ''h'' \<or> ch = CHR ''?'' then Inl 2
      else if ch = CHR ''c'' then wb_options os (g\<lparr>wb_clients := atoi arg\<rparr>)
      else wb_options os g)"

text \<open>\<open>main\<close> up to the call of \<open>bench\<close>: \<open>os\<close> are the options and \<open>operands\<close> the arguments left behind them.\<close>

definition wb_defaults :: "webbench \<Rightarrow> webbench" where
  "wb_defaults g =
     g\<lparr>wb_clients := (if wb_clients g = 0 then 1 else wb_clients g),
       wb_benchtime := (if wb_benchtime g = 0 then 60 else wb_benchtime g)\<rparr>"

definition wb_main :: "wb_option list \<Rightarrow> string list \<Rightarrow> wb_stop + webbench" where
  "wb_main os operands =
     (if os = [] \<and> operands = [] then Inl (WbExit 2)
      else case wb_options os webbench_new of
             Inl e \<Rightarrow> Inl (WbExit e)
           | Inr g \<Rightarrow>
               (case operands of
                  [] \<Rightarrow> Inl (WbExit 2)
                | url # _ \<Rightarrow> build_request url (wb_defaults g)))"

text \<open>The line that announces the run.\<close>

definition wb_info :: "string \<Rightarrow> webbench \<Rightarrow> string" where
  "wb_info url g =
     LF # ''Benchmarking: '' @ wb_method_text (wb_method g) @ '' '' @ url
     @ (if wb_http10 g = 0 then '' (using HTTP/0.9)'' else if wb_http10 g = 2 then '' (using HTTP/1.1)'' else []) @ [LF]
     @ (if wb_clients g = 1 then ''1 client'' else to_string (wb_clients g) @ '' clients'')
     @ '', running '' @ to_string (wb_benchtime g) @ '' sec''
     @ (if wb_force g then '', early socket close'' else [])
     @ (case wb_proxyhost g of None \<Rightarrow> []
        | Some h \<Rightarrow> '', via proxy server '' @ h @ '':'' @ to_string (wb_proxyport g))
     @ (if wb_force_reload g then '', forcing reload'' else []) @ ''.'' @ [LF]"

section \<open>The clients\<close>

text \<open>\<open>Socket\<close> of \<open>socket.c\<close>: the address, the descriptor \<open>socket()\<close> gives and the result of \<open>connect()\<close>.
  It returns the descriptor or a negative number, and the descriptor that is left open, if any.\<close>

definition wb_Socket :: "bool \<Rightarrow> bool \<Rightarrow> int \<Rightarrow> int \<Rightarrow> int \<times> int option" where
  "wb_Socket is_address found sock connected =
     (if \<not> is_address \<and> \<not> found then (- 1, None)
      else if sock < 0 then (sock, None)
      else if connected < 0 then (- 1, Some sock)
      else (sock, Some sock))"

text \<open>One turn of \<open>benchcore\<close>: what its calls return.  \<open>at_expired\<close> and the first component of a read are the
  values of \<open>timerexpired\<close> when it is tested.\<close>

record attempt =
  at_expired :: bool
  at_socket :: int
  at_written :: int
  at_shutdown :: int
  at_reads :: "(bool \<times> int) list"
  at_close :: int

text \<open>The read loop: whether it ended with an error, and the byte count; \<open>None\<close> while it is still reading.\<close>

fun wb_read_loop :: "(bool \<times> int) list \<Rightarrow> int \<Rightarrow> (bool \<times> int) option" where
  "wb_read_loop [] b = None"
| "wb_read_loop ((expired, i) # rs) b =
     (if expired then Some (False, b)
      else if i < 0 then Some (True, b)
      else if i = 0 then Some (False, b)
      else wb_read_loop rs (b + i))"

fun benchcore :: "attempt list \<Rightarrow> webbench \<Rightarrow> webbench option" where
  "benchcore [] g = None"
| "benchcore (a # as) g =
     (if at_expired a then Some (if wb_failed g > 0 then g\<lparr>wb_failed := wb_failed g - 1\<rparr> else g)
      else if at_socket a < 0 then benchcore as (g\<lparr>wb_failed := wb_failed g + 1\<rparr>)
      else if int (length (wb_request g)) \<noteq> at_written a then benchcore as (g\<lparr>wb_failed := wb_failed g + 1\<rparr>)
      else if wb_http10 g = 0 \<and> at_shutdown a \<noteq> 0 then benchcore as (g\<lparr>wb_failed := wb_failed g + 1\<rparr>)
      else
        (case if wb_force g then Some (False, wb_bytes g) else wb_read_loop (at_reads a) (wb_bytes g) of
           None \<Rightarrow> None
         | Some (True, b) \<Rightarrow> benchcore as (g\<lparr>wb_failed := wb_failed g + 1, wb_bytes := b\<rparr>)
         | Some (False, b) \<Rightarrow>
             if at_close a \<noteq> 0 then benchcore as (g\<lparr>wb_failed := wb_failed g + 1, wb_bytes := b\<rparr>)
             else benchcore as (g\<lparr>wb_speed := wb_speed g + 1, wb_bytes := b\<rparr>)))"

section \<open>The process tree\<close>

text \<open>The loop of \<open>fork\<close>s: the value of \<open>i\<close> and the last \<open>pid\<close>.\<close>

fun fork_loop :: "int \<Rightarrow> int \<Rightarrow> int list \<Rightarrow> int \<Rightarrow> int \<times> int" where
  "fork_loop i clients [] pid = (i, pid)"
| "fork_loop i clients (p # ps) pid =
     (if i < clients then if p \<le> 0 then (i, p) else fork_loop (i + 1) clients ps p else (i, pid))"

text \<open>The parent's loop: the results of \<open>fscanf\<close> with the three numbers it read.  It gives the last \<open>i\<close>.\<close>

fun parent_loop :: "(int \<times> int \<times> int \<times> int) list \<Rightarrow> int \<Rightarrow> int \<Rightarrow> webbench \<Rightarrow> (int \<times> webbench) option" where
  "parent_loop [] i k g = None"
| "parent_loop ((n, i', j', k') # rs) i k g =
     (let i1 = (if n \<ge> 1 then i' else i); k1 = (if n \<ge> 3 then k' else k)
      in if n < 2 then Some (i1, g)
         else let g' = g\<lparr>wb_speed := wb_speed g + i1, wb_failed := wb_failed g + j', wb_bytes := wb_bytes g + k1,
                         wb_clients := wb_clients g - 1\<rparr>
              in if wb_clients g' = 0 then Some (i1, g') else parent_loop rs i1 k1 g')"

record bench_env =
  env_socket :: int
  env_pipe :: int
  env_forks :: "int list"
  env_fdopen :: bool
  env_attempts :: "attempt list"
  env_reports :: "(int \<times> int \<times> int \<times> int) list"

text \<open>\<open>bench\<close> in the process that calls it or in a child: its return value, the counters, and the line a child
  writes to the pipe.  \<open>None\<close>: still running.\<close>

definition bench :: "bench_env \<Rightarrow> webbench \<Rightarrow> (int \<times> webbench \<times> string) option" where
  "bench env g =
     (if env_socket env < 0 then Some (1, g, [])
      else if env_pipe env \<noteq> 0 then Some (3, g, [])
      else case fork_loop 0 (wb_clients g) (env_forks env) 0 of
             (i, pid) \<Rightarrow>
               if pid < 0 then Some (3, g, [])
               else if pid = 0 then
                 (case benchcore (env_attempts env) g of
                    None \<Rightarrow> None
                  | Some g' \<Rightarrow>
                      if \<not> env_fdopen env then Some (3, g', [])
                      else Some (0, g', to_string (wb_speed g') @ '' '' @ to_string (wb_failed g') @ '' ''
                                         @ to_string (wb_bytes g') @ [LF]))
               else if \<not> env_fdopen env then Some (3, g, [])
               else
                 (case parent_loop (env_reports env) i 0 (g\<lparr>wb_speed := 0, wb_failed := 0, wb_bytes := 0\<rparr>) of
                    None \<Rightarrow> None
                  | Some (i', g') \<Rightarrow> Some (i', g', [])))"

section \<open>The request as a text\<close>

text \<open>The host, the port and the path of an acceptable URL; \<open>direct\<close>: without a proxy.\<close>

definition wb_url :: "bool \<Rightarrow> string \<Rightarrow> (string \<times> string option \<times> string) option" where
  "wb_url direct url =
     (case str_find ''://'' url of
        None \<Rightarrow> None
      | Some k \<Rightarrow>
          (let rest = drop (k + 3) url; auth = takeWhile (\<lambda>c. c \<noteq> CHR ''/'') rest;
               path = dropWhile (\<lambda>c. c \<noteq> CHR ''/'') rest; port = dropWhile (\<lambda>c. c \<noteq> CHR '':'') auth
           in if length url > 1500 \<or> direct \<and> \<not> strncaseeq url ''http://'' \<or> path = [] then None
              else Some (takeWhile (\<lambda>c. c \<noteq> CHR '':'') auth, if port = [] then None else Some (tl port), path)))"

definition wb_text :: "webbench \<Rightarrow> string \<Rightarrow> string \<Rightarrow> string" where
  "wb_text g target h =
     wb_method_text (wb_method g) @ '' '' @ target
     @ (if wb_http10 g = 1 then '' HTTP/1.0'' else if wb_http10 g = 2 then '' HTTP/1.1'' else []) @ CRLF
     @ (if wb_http10 g > 0 then ''User-Agent: WebBench 1.5'' @ CRLF else [])
     @ (if wb_proxyhost g = None \<and> wb_http10 g > 0 then ''Host: '' @ h @ CRLF else [])
     @ (if wb_force_reload g \<and> wb_proxyhost g \<noteq> None then ''Pragma: no-cache'' @ CRLF else [])
     @ (if wb_http10 g > 1 then ''Connection: close'' @ CRLF else [])
     @ (if wb_http10 g > 0 then CRLF else [])"

lemma wb_adjust_http_fields [simp]:
  "wb_proxyhost (wb_adjust_http g) = wb_proxyhost g" "wb_method (wb_adjust_http g) = wb_method g"
  "wb_force_reload (wb_adjust_http g) = wb_force_reload g" "wb_proxyport (wb_adjust_http g) = wb_proxyport g"
  "wb_host (wb_adjust_http g) = wb_host g" "wb_request (wb_adjust_http g) = wb_request g"
  "wb_http10 (wb_adjust_http (g\<lparr>wb_host := h, wb_request := r\<rparr>)) = wb_http10 (wb_adjust_http g)"
  by (auto simp: wb_adjust_http_def Let_def)

lemma wb_cat_fits:
  "length (wb_request g) + length s < REQUEST_SIZE \<Longrightarrow> wb_cat s g = Inr (g\<lparr>wb_request := wb_request g @ s\<rparr>)"
  by (simp add: wb_cat_def buf_cat_def)

lemma wb_cat_if_fits:
  "length (wb_request g) + length s < REQUEST_SIZE \<Longrightarrow>
     wb_cat_if b s g = Inr (g\<lparr>wb_request := wb_request g @ (if b then s else [])\<rparr>)"
  by (simp add: wb_cat_if_def wb_cat_fits)

lemma length_method_text: "length (wb_method_text m) \<le> 7"
  by (cases m) simp_all

lemma wb_headers_text:
  assumes "wb_request g = wb_method_text (wb_method g) @ '' '' @ target" "length (wb_request g) + length (wb_host g) \<le> 1508"
    "wb_proxyhost g = None \<Longrightarrow> length (wb_host g) < MAXHOSTNAMELEN"
  shows "wb_headers g = Inr (g\<lparr>wb_request := wb_text g target (wb_host g)\<rparr>)"
  using assms
  by (auto simp: wb_headers_def wb_cat_fits wb_cat_if_fits REQUEST_SIZE_def wb_text_def buf_read_def)

lemma wb_text_length:
  "length (wb_text g target h) < 92 + length target + (if wb_proxyhost g = None then length h else 0)"
  using length_method_text [of "wb_method g"] by (auto simp: wb_text_def)

lemma char_span_split:
  "take (char_span ch s) s = takeWhile (\<lambda>c. c \<noteq> ch) s" "drop (char_span ch s) s = dropWhile (\<lambda>c. c \<noteq> ch) s"
  by (simp_all add: char_span_def takeWhile_eq_take [symmetric] dropWhile_eq_drop [symmetric])

lemma split_at: "ch \<in> set s \<Longrightarrow> \<exists>r. s = takeWhile (\<lambda>c. c \<noteq> ch) s @ ch # r"
  by (induction s) auto

lemma span_words:
  assumes "ch \<notin> set w"
  shows "char_span ch (w @ ch # s) = length w" "takeWhile (\<lambda>c. c \<noteq> ch) (w @ ch # s) = w"
    "dropWhile (\<lambda>c. c \<noteq> ch) (w @ ch # s) = ch # s" "length w \<le> char_span ch (w @ s)"
  using assms by (induction w) (auto simp: char_span_def)

lemma wb_host_port_parts:
  assumes "CHR ''/'' \<in> set rest"
  defines "auth \<equiv> takeWhile (\<lambda>c. c \<noteq> CHR ''/'') rest"
  defines "h \<equiv> takeWhile (\<lambda>c. c \<noteq> CHR '':'') auth" and "port \<equiv> dropWhile (\<lambda>c. c \<noteq> CHR '':'') auth"
  shows "wb_host_port rest g =
    wb_then (buf_ncpy MAXHOSTNAMELEN h (length h)) (\<lambda>h. if port = [] then Inr (g\<lparr>wb_host := h\<rparr>) else
      wb_then (buf_ncpy 10 (tl port) (length (tl port))) (\<lambda>tmp. wb_then (buf_atoi 10 tmp) (\<lambda>p.
        Inr (g\<lparr>wb_host := h, wb_proxyport := (if p = 0 then 80 else p)\<rparr>))))"
proof -
  obtain s where rest: "rest = auth @ CHR ''/'' # s" using split_at [OF assms(1)] unfolding auth_def by blast
  have no: "CHR ''/'' \<notin> set auth" by (auto simp: auth_def dest: set_takeWhileD)
  note slash = span_words(1) [OF no, of s, folded rest]
  show ?thesis
  proof (cases "CHR '':'' \<in> set auth")
    case True
    then obtain t where t: "auth = h @ CHR '':'' # t" using split_at [OF True] unfolding h_def by blast
    have noc: "CHR '':'' \<notin> set h" by (auto simp: h_def dest: set_takeWhileD)
    have colon: "char_span CHR '':'' rest = length h" unfolding rest t using span_words(1) [OF noc] by simp
    have port: "port = CHR '':'' # t" unfolding port_def by (subst t, rule span_words(3) [OF noc])
    have "take (length h) rest = h" "take (length t) (drop (Suc (length h)) rest) = t" "CHR '':'' \<in> set rest"
      "length auth = Suc (length h + length t)" unfolding rest t by simp_all
    with colon slash port show ?thesis by (simp add: wb_host_port_def Let_def buf_ncpy_def)
  next
    case False
    then have "h = auth" "port = []" by (auto simp: h_def port_def)
    moreover have "length auth \<le> char_span CHR '':'' rest" unfolding rest by (rule span_words(4) [OF False])
    moreover have "take (length auth) rest = auth" unfolding rest by simp
    ultimately show ?thesis using slash by (simp add: wb_host_port_def Let_def buf_ncpy_def)
  qed
qed

text \<open>\<open>build_request\<close> over the parts of the URL.\<close>

lemma wb_start: "wb_then (wb_cat (wb_method_text (wb_method g)) g) (\<lambda>g1. wb_then (wb_cat '' '' g1) f)
    = f (g\<lparr>wb_request := wb_method_text (wb_method g) @ '' ''\<rparr>)" if "wb_request g = []"
  using that length_method_text [of "wb_method g"] by (simp add: wb_cat_fits REQUEST_SIZE_def)

definition wb_begun :: "webbench \<Rightarrow> webbench" where
  "wb_begun g = (wb_adjust_http g)\<lparr>wb_host := [], wb_request := wb_method_text (wb_method g) @ '' ''\<rparr>"

lemma build_request_begun:
  "build_request url g =
     (case str_find ''://'' url of
        None \<Rightarrow> Inl (WbExit 2)
      | Some k \<Rightarrow>
          if length url > 1500 then Inl (WbExit 2)
          else if wb_proxyhost g = None \<and> \<not> strncaseeq url ''http://'' then Inl (WbExit 2)
          else if CHR ''/'' \<notin> set (drop (k + 3) url) then Inl (WbExit 2)
          else if wb_proxyhost g = None then
            wb_then (wb_host_port (drop (k + 3) url) (wb_begun g)) (\<lambda>g3.
              wb_then (wb_cat (dropWhile (\<lambda>c. c \<noteq> CHR ''/'') (drop (k + 3) url)) g3) wb_headers)
          else wb_then (wb_cat url (wb_begun g)) wb_headers)"
proof -
  let ?g0 = "wb_adjust_http (g\<lparr>wb_host := [], wb_request := []\<rparr>)"
  have g0: "wb_request ?g0 = []" "?g0\<lparr>wb_request := wb_method_text (wb_method ?g0) @ '' ''\<rparr> = wb_begun g"
    "wb_proxyhost (wb_begun g) = wb_proxyhost g"
    by (simp_all add: wb_begun_def wb_adjust_http_def Let_def)
  show ?thesis unfolding build_request_def Let_def wb_start [OF g0(1)] g0(2,3) char_span_split(2) by (rule refl)
qed

lemma wb_url_eq:
  "wb_url direct url =
     (case str_find ''://'' url of
        None \<Rightarrow> None
      | Some k \<Rightarrow>
          if length url > 1500 \<or> direct \<and> \<not> strncaseeq url ''http://'' \<or> CHR ''/'' \<notin> set (drop (k + 3) url) then None
          else let auth = takeWhile (\<lambda>c. c \<noteq> CHR ''/'') (drop (k + 3) url); port = dropWhile (\<lambda>c. c \<noteq> CHR '':'') auth
               in Some (takeWhile (\<lambda>c. c \<noteq> CHR '':'') auth, if port = [] then None else Some (tl port),
                        dropWhile (\<lambda>c. c \<noteq> CHR ''/'') (drop (k + 3) url)))"
proof -
  have "dropWhile (\<lambda>c. c \<noteq> CHR ''/'') s = [] \<longleftrightarrow> CHR ''/'' \<notin> set s" for s by auto
  then show ?thesis unfolding wb_url_def Let_def by (simp only:)
qed

lemma build_request_rejects: "wb_url (wb_proxyhost g = None) url = None \<Longrightarrow> build_request url g = Inl (WbExit 2)"
  unfolding build_request_begun wb_url_eq Let_def by (cases "str_find ''://'' url") (auto split: if_splits)

lemma build_request_direct:
  assumes "wb_proxyhost g = None" "wb_url True url = Some (h, p, path)"
  shows "build_request url g =
    wb_then (buf_ncpy MAXHOSTNAMELEN h (length h)) (\<lambda>h. wb_then
      (case p of None \<Rightarrow> Inr ((wb_begun g)\<lparr>wb_host := h\<rparr>)
       | Some t \<Rightarrow> wb_then (buf_ncpy 10 t (length t)) (\<lambda>tmp. wb_then (buf_atoi 10 tmp) (\<lambda>v.
           Inr ((wb_begun g)\<lparr>wb_host := h, wb_proxyport := (if v = 0 then 80 else v)\<rparr>))))
      (\<lambda>g3. wb_then (wb_cat path g3) wb_headers))"
proof -
  obtain k where k: "str_find ''://'' url = Some k" using assms(2) by (cases "str_find ''://'' url") (simp_all add: wb_url_def)
  let ?rest = "drop (k + 3) url"
  let ?auth = "takeWhile (\<lambda>c. c \<noteq> CHR ''/'') ?rest"
  let ?port = "dropWhile (\<lambda>c. c \<noteq> CHR '':'') ?auth"
  have parts: "length url \<le> 1500" "strncaseeq url ''http://''" "CHR ''/'' \<in> set ?rest"
    "path = dropWhile (\<lambda>c. c \<noteq> CHR ''/'') ?rest"
    "h = takeWhile (\<lambda>c. c \<noteq> CHR '':'') ?auth" "p = (if ?port = [] then None else Some (tl ?port))"
    using assms(2) unfolding wb_url_eq k Let_def by (simp_all only: option.case split: if_splits) auto
  have "build_request url g = wb_then (wb_host_port ?rest (wb_begun g)) (\<lambda>g3. wb_then (wb_cat path g3) wb_headers)"
    unfolding build_request_begun k option.case using assms(1) parts(1-4) by (simp only:) simp
  then show ?thesis
    unfolding wb_host_port_parts [OF parts(3)] parts(5,6)
    by (cases "buf_ncpy MAXHOSTNAMELEN (takeWhile (\<lambda>c. c \<noteq> CHR '':'') ?auth) (length (takeWhile (\<lambda>c. c \<noteq> CHR '':'') ?auth))";
        cases "?port = []") (simp_all only: wb_then_simps option.case if_True if_False simp_thms)
qed

lemma wb_begun_fields [simp]:
  "wb_method (wb_begun g) = wb_method g" "wb_proxyhost (wb_begun g) = wb_proxyhost g"
  "wb_force_reload (wb_begun g) = wb_force_reload g" "wb_http10 (wb_begun g) = wb_http10 (wb_adjust_http g)"
  "wb_request (wb_begun g) = wb_method_text (wb_method g) @ '' ''" "wb_proxyport (wb_begun g) = wb_proxyport g"
  "wb_host (wb_begun g) = []"
  by (simp_all add: wb_begun_def)

lemma str_find_bound: "str_find needle s = Some k \<Longrightarrow> k + length needle \<le> length s"
  by (induction s arbitrary: k) (auto simp: starts_with_def split: if_splits dest: arg_cong [where f = length])

lemma wb_url_length:
  assumes "wb_url direct url = Some (h, p, path)"
  shows "length url \<le> 1500" "length h + length path \<le> 1500"
proof -
  from assms obtain k where k: "str_find ''://'' url = Some k" by (cases "str_find ''://'' url") (simp_all add: wb_url_def)
  let ?r = "drop (k + 3) url"
  have "length url \<le> 1500" "path = dropWhile (\<lambda>c. c \<noteq> CHR ''/'') ?r"
    "h = takeWhile (\<lambda>c. c \<noteq> CHR '':'') (takeWhile (\<lambda>c. c \<noteq> CHR ''/'') ?r)"
    using assms unfolding wb_url_eq k Let_def by (auto simp only: option.case split: if_splits)
  moreover have "length (takeWhile (\<lambda>c. c \<noteq> CHR '':'') (takeWhile (\<lambda>c. c \<noteq> CHR ''/'') ?r)) \<le> length (takeWhile (\<lambda>c. c \<noteq> CHR ''/'') ?r)"
    by (rule length_takeWhile_le)
  ultimately show "length url \<le> 1500" "length h + length path \<le> 1500"
    using length_takeWhile_dropWhile [of "\<lambda>c. c \<noteq> CHR ''/''" ?r] by simp_all
qed

lemma wb_finish:
  assumes "wb_request g3 = wb_method_text (wb_method g3) @ '' ''" "length target + length (wb_host g3) \<le> 1500"
    "wb_proxyhost g3 = None \<Longrightarrow> length (wb_host g3) < MAXHOSTNAMELEN"
  shows "wb_then (wb_cat target g3) wb_headers = Inr (g3\<lparr>wb_request := wb_text g3 target (wb_host g3)\<rparr>)"
proof -
  have fit: "length (wb_request g3) + length target + length (wb_host g3) \<le> 1508"
    using assms(1,2) length_method_text [of "wb_method g3"] by simp
  then have "wb_cat target g3 = Inr (g3\<lparr>wb_request := wb_request g3 @ target\<rparr>)"
    by (intro wb_cat_fits) (simp add: REQUEST_SIZE_def)
  with wb_headers_text [of "g3\<lparr>wb_request := wb_request g3 @ target\<rparr>" target] assms(1,3) fit show ?thesis
    by (simp add: wb_text_def)
qed

lemma build_request_too_long:
  "wb_proxyhost g = None \<Longrightarrow> wb_url True url = Some (h, p, path) \<Longrightarrow> MAXHOSTNAMELEN < length h \<Longrightarrow>
     build_request url g = Inl WbOutOfBounds"
  by (simp add: build_request_direct buf_ncpy_def)

lemma build_request_accepts:
  assumes proxy: "wb_proxyhost g = None" and url: "wb_url True url = Some (h, p, path)"
    and h: "length h < MAXHOSTNAMELEN" and port: "case p of None \<Rightarrow> True | Some t \<Rightarrow> length t < 10"
  shows "build_request url g = Inr ((wb_adjust_http g)\<lparr>wb_host := h, wb_request := wb_text (wb_adjust_http g) path h,
    wb_proxyport := (case p of None \<Rightarrow> wb_proxyport g | Some t \<Rightarrow> if atoi t = 0 then 80 else atoi t)\<rparr>)"
proof -
  have finished: "wb_then (wb_cat path ((wb_begun g)\<lparr>wb_host := h, wb_proxyport := q\<rparr>)) wb_headers =
      Inr ((wb_adjust_http g)\<lparr>wb_host := h, wb_request := wb_text (wb_adjust_http g) path h, wb_proxyport := q\<rparr>)" for q
  proof -
    let ?g3 = "(wb_begun g)\<lparr>wb_host := h, wb_proxyport := q\<rparr>"
    have "wb_then (wb_cat path ?g3) wb_headers = Inr (?g3\<lparr>wb_request := wb_text ?g3 path (wb_host ?g3)\<rparr>)"
      using h wb_url_length(2) [OF url] by (intro wb_finish) simp_all
    moreover have "?g3\<lparr>wb_request := wb_text ?g3 path (wb_host ?g3)\<rparr>
        = (wb_adjust_http g)\<lparr>wb_host := h, wb_request := wb_text (wb_adjust_http g) path h, wb_proxyport := q\<rparr>"
      by (simp add: wb_text_def) (simp add: wb_begun_def)
    ultimately show ?thesis by simp
  qed
  have "(wb_begun g)\<lparr>wb_host := h\<rparr> = (wb_begun g)\<lparr>wb_host := h, wb_proxyport := wb_proxyport g\<rparr>"
    by (rule webbench.equality) simp_all
  with finished [of "wb_proxyport g"] have "wb_then (wb_cat path ((wb_begun g)\<lparr>wb_host := h\<rparr>)) wb_headers =
      Inr ((wb_adjust_http g)\<lparr>wb_host := h, wb_request := wb_text (wb_adjust_http g) path h, wb_proxyport := wb_proxyport g\<rparr>)"
    by metis
  with finished show ?thesis using build_request_direct [OF proxy url] h port
    by (cases p) (simp_all add: buf_ncpy_def buf_atoi_def)
qed

section \<open>Properties\<close>

text \<open>C31: \<open>build_request\<close> on every URL.  A URL without a scheme, without a slash behind its host, longer than 1500
  bytes, or without \<open>http://\<close> when no proxy is set ends the program with code 2.  Otherwise, a host of more than
  64 bytes is copied past the end of its array; and when the host has fewer than 64 bytes and the port fewer
  than 10, the request is exactly the request line, the header lines and the empty line that the options ask
  for, it fits its array, and host and port are those of the URL.\<close>

theorem build_request_exact:
  "case wb_url (wb_proxyhost g = None) url of
     None \<Rightarrow> build_request url g = Inl (WbExit 2)
   | Some (h, p, path) \<Rightarrow>
       (wb_proxyhost g = None \<and> MAXHOSTNAMELEN < length h \<longrightarrow> build_request url g = Inl WbOutOfBounds)
       \<and> (wb_proxyhost g = None \<and> length h < MAXHOSTNAMELEN \<and> (case p of None \<Rightarrow> True | Some t \<Rightarrow> length t < 10) \<longrightarrow>
            build_request url g = Inr ((wb_adjust_http g)\<lparr>wb_host := h, wb_request := wb_text (wb_adjust_http g) path h,
              wb_proxyport := (case p of None \<Rightarrow> wb_proxyport g | Some t \<Rightarrow> if atoi t = 0 then 80 else atoi t)\<rparr>))
       \<and> (wb_proxyhost g \<noteq> None \<longrightarrow>
            build_request url g = Inr ((wb_adjust_http g)\<lparr>wb_host := [], wb_request := wb_text (wb_adjust_http g) url []\<rparr>))
       \<and> length (wb_text (wb_adjust_http g) (if wb_proxyhost g = None then path else url) h) < REQUEST_SIZE"
proof (cases "wb_url (wb_proxyhost g = None) url")
  case None
  then show ?thesis by (simp add: build_request_rejects)
next
  case (Some parts)
  obtain h p path where parts: "parts = (h, p, path)" by (cases parts)
  note url = Some [unfolded parts] and len = wb_url_length [OF Some [unfolded parts]]
  have fits: "length (wb_text (wb_adjust_http g) (if wb_proxyhost g = None then path else url) h) < REQUEST_SIZE"
    using wb_text_length [of "wb_adjust_http g" "if wb_proxyhost g = None then path else url" h] len
    by (auto simp: REQUEST_SIZE_def split: if_splits)
  show ?thesis
  proof (cases "wb_proxyhost g")
    case proxy: None
    note direct = url [simplified proxy, simplified]
    from build_request_too_long [OF proxy direct] build_request_accepts [OF proxy direct]
    show ?thesis using url proxy fits by simp
  next
    case proxy: (Some ph)
    obtain k where k: "str_find ''://'' url = Some k" using url by (cases "str_find ''://'' url") (simp_all add: wb_url_def)
    have "CHR ''/'' \<in> set (drop (k + 3) url)"
      using url proxy unfolding wb_url_eq k by (simp split: if_splits)
    with proxy k len(1) have "build_request url g = wb_then (wb_cat url (wb_begun g)) wb_headers"
      by (simp add: build_request_begun)
    also have "\<dots> = Inr ((wb_begun g)\<lparr>wb_request := wb_text (wb_begun g) url []\<rparr>)"
      using wb_finish [of "wb_begun g" url] len(1) proxy by simp
    also have "wb_text (wb_begun g) url [] = wb_text (wb_adjust_http g) url []" by (simp add: wb_text_def)
    finally show ?thesis using url proxy fits by (simp add: wb_begun_def)
  qed
qed

theorem build_request_exact_witness:
  "build_request ''http://127.0.0.1:9006/abc'' webbench_new =
     Inr (webbench_new\<lparr>wb_host := ''127.0.0.1'', wb_proxyport := 9006,
       wb_request := ''GET /abc HTTP/1.0'' @ CRLF @ ''User-Agent: WebBench 1.5'' @ CRLF @ ''Host: 127.0.0.1'' @ CRLF @ CRLF\<rparr>)"
proof -
  have "wb_url True ''http://127.0.0.1:9006/abc'' = Some (''127.0.0.1'', Some ''9006'', ''/abc'')" by code_simp
  moreover have "atoi ''9006'' = 9006" by code_simp
  ultimately show ?thesis using build_request_exact [where g = webbench_new and url = "''http://127.0.0.1:9006/abc''"]
    by (simp add: webbench_new_def MAXHOSTNAMELEN_def wb_adjust_http_def wb_text_def)
qed

text \<open>The server's parser on a request of the client.\<close>

lemma spec_header_host:
  assumes "h \<noteq> [] \<longrightarrow> nonws (hd h)"
  shows "spec_header pos (''Host: '' @ h) p = (NO_REQUEST, put_header ''Host'' h p)"
proof -
  have "header_value 5 (''Host: '' @ h) = h" using header_value_field [of h "''Host''"] assms by (simp add: eval_nat_numeral)
  then show ?thesis
    using strncaseeq_special [of "''Host''" "CHR '' '' # h"] special_names_lower(5)
    by (simp add: spec_header_def Let_def)
qed

lemma spec_header_close:
  "spec_header pos ''Connection: close'' p = (NO_REQUEST, put_header ''Connection'' ''close'' (p\<lparr>p_linger := False\<rparr>))"
proof -
  have "header_value 11 ''Connection: close'' = ''close''" "strcaseeq ''close'' ''close''" "\<not> strcaseeq ''close'' ''keep-alive''"
    "strncaseeq ''Connection: close'' ''Connection:''" by code_simp+
  then show ?thesis by (simp add: spec_header_def Let_def)
qed

text \<open>A request line with another version than \<open>HTTP/1.1\<close>, with none, or with another method is refused.\<close>

lemma request_line_refused:
  assumes "wf_target path" "m \<noteq> METHOD_GET \<or> v = [] \<or> v = '' HTTP/1.0''" "v \<in> {[], '' HTTP/1.0'', '' HTTP/1.1''}"
  defines "l \<equiv> wb_method_text m @ '' '' @ path @ v"
  shows "list_all plain l" "spec_request_line l req = None"
proof -
  have path: "list_all (\<lambda>c. plain c \<and> nonws c) path" "path \<noteq> []" using assms(1) by (simp_all add: wf_target_def)
  have meth: "list_all (\<lambda>c. plain c \<and> nonws c) (wb_method_text m)" by (cases m) (simp_all add: plain_def nonws_def is_ws_def)
  have "list_all plain v" using assms(3) by (elim insertE) (simp_all add: plain_def)
  moreover have "list_all plain path" "list_all plain (wb_method_text m)"
    using path(1) meth by (auto elim: list.pred_mono_strong)
  ultimately show "list_all plain l" unfolding l_def by (simp add: plain_def [of "CHR '' ''"])
  have 1: "takeWhile nonws l = wb_method_text m" "dropWhile nonws l = CHR '' '' # path @ v"
    using takeWhile_word [OF meth, of "path @ v"] by (simp_all add: l_def)
  have 2: "dropWhile is_ws (CHR '' '' # path @ v) = path @ v"
    using path by (cases path) (auto simp: is_ws_def nonws_def)
  have 3: "dropWhile nonws (path @ v) = v"
  proof (cases v)
    case Nil
    then show ?thesis using path(1) by (auto simp: list_all_iff)
  next
    case (Cons c x)
    then have "v = CHR '' '' # x" using assms(3) by auto
    with takeWhile_word [OF path(1), of x] show ?thesis by simp
  qed
  have 4: "method_of (wb_method_text m) = None" if "m \<noteq> METHOD_GET" using that
    by (cases m) (simp_all add: method_of_def strcaseeq_def tolower_def Let_def)
  have 5: "\<not> strcaseeq ''HTTP/1.0'' ''HTTP/1.1''" by code_simp
  show "spec_request_line l req = None"
    unfolding spec_request_line_def Let_def 1 2 3 using assms(2) 4 5 by (auto simp: is_ws_def)
qed

text \<open>The whole request with \<open>-2\<close>.\<close>

lemma spec_run_http11:
  assumes path: "wf_target path" and h: "list_all plain h" "h \<noteq> [] \<longrightarrow> nonws (hd h)"
    and g: "wb_method g = METHOD_GET" "wb_http10 g = 2" "wb_proxyhost g = None"
    and fit: "length (wb_text g path h) < READ_BUFFER_SIZE"
  shows "\<exists>p pos. spec_run 0 initial_pstate (wb_text g path h) = Done GET_REQUEST p pos []
    \<and> p_req p = (set_target GET path http_request_new)\<lparr>req_headers :=
        [''User-Agent'' \<mapsto> ''WebBench 1.5'', ''Host'' \<mapsto> h, ''Connection'' \<mapsto> ''close'']\<rparr>
    \<and> \<not> p_linger p"
proof -
  let ?l = "''GET '' @ path @ '' HTTP/1.1''" and ?u = "''User-Agent: WebBench 1.5''" and ?h = "''Host: '' @ h" and ?c = "''Connection: close''"
  have wire: "wb_text g path h = ?l @ CR # LF # ?u @ CR # LF # ?h @ CR # LF # ?c @ CR # LF # CR # LF # []"
    using g by (simp add: wb_text_def)
  have rl: "list_all plain ?l" "spec_request_line ?l req = Some (set_target GET path req)" for req
    using request_line_of_text [where m = GET and t = path] path by simp_all
  define p1 where "p1 = initial_pstate\<lparr>p_state := CHECK_STATE_HEADER, p_req := set_target GET path http_request_new\<rparr>"
  define p2 where "p2 = put_header ''User-Agent'' ''WebBench 1.5'' p1"
  define p3 where "p3 = put_header ''Host'' h p2"
  define p4 where "p4 = put_header ''Connection'' ''close'' (p3\<lparr>p_linger := False\<rparr>)"
  have st: "p_state p1 = CHECK_STATE_HEADER" "p_state p2 = CHECK_STATE_HEADER" "p_state p3 = CHECK_STATE_HEADER"
    "p_state p4 = CHECK_STATE_HEADER" "p_len p4 = int 0"
    by (simp_all add: p1_def p2_def p3_def p4_def put_header_def initial_pstate_def)
  have plain: "list_all plain ?u" "list_all plain ?c" "list_all plain ?h" using h(1) by (simp_all add: plain_def)
  have ua: "spec_header pos ?u p1 = (NO_REQUEST, p2)" for pos
    using spec_header_field [of "(''User-Agent'', ''WebBench 1.5'')" pos p1]
    by (simp add: p2_def field_line_def wf_field_def plain_def nonws_def is_ws_def special_names_def tolower_def Let_def)
  have ha: "spec_header pos ?h p2 = (NO_REQUEST, p3)" for pos unfolding p3_def by (rule spec_header_host [OF h(2)])
  have ca: "spec_header pos ?c p3 = (NO_REQUEST, p4)" for pos unfolding p4_def by (rule spec_header_close)
  let ?n = "length ?l + 2 + length ?u + 2 + length ?h + 2 + length ?c + 2"
  have "spec_run 0 initial_pstate (wb_text g path h) = spec_run (length ?l + 2) p1 (?u @ CR # LF # ?h @ CR # LF # ?c @ CR # LF # CR # LF # [])"
    unfolding wire using spec_run_request_line [OF _ next_line_plain [OF rl(1)], of initial_pstate 0]
      text_of_plain [OF rl(1)] rl(2) by (simp add: p1_def initial_pstate_def)
  also have "\<dots> = spec_run (length ?l + 2 + length ?u + 2) p2 (?h @ CR # LF # ?c @ CR # LF # CR # LF # [])"
    using spec_run_header [OF st(1) next_line_plain [OF plain(1)], unfolded text_of_plain [OF plain(1)], OF ua] by simp
  also have "\<dots> = spec_run (length ?l + 2 + length ?u + 2 + length ?h + 2) p3 (?c @ CR # LF # CR # LF # [])"
    using spec_run_header [OF st(2) next_line_plain [OF plain(3)], unfolded text_of_plain [OF plain(3)], OF ha] by simp
  also have "\<dots> = spec_run ?n p4 (CR # LF # [])"
    using spec_run_header [OF st(3) next_line_plain [OF plain(2)], unfolded text_of_plain [OF plain(2)], OF ca] by simp
  also have "\<dots> = Done GET_REQUEST p4 (?n + 2) []"
    using spec_run_blank_line [OF st(4,5), of ?n "[]"] fit unfolding wire by simp
  finally have "spec_run 0 initial_pstate (wb_text g path h) = Done GET_REQUEST p4 (?n + 2) []" .
  moreover have "p_req p4 = (set_target GET path http_request_new)\<lparr>req_headers :=
        [''User-Agent'' \<mapsto> ''WebBench 1.5'', ''Host'' \<mapsto> h, ''Connection'' \<mapsto> ''close'']\<rparr>" "\<not> p_linger p4"
    by (simp_all add: p1_def p2_def p3_def p4_def put_header_def set_target_def Let_def http_request_new_def)
  ultimately show ?thesis by blast
qed

text \<open>C30: the server and the benchmark client.  Without a proxy, and for a URL whose path and host hold no control
  byte and no blank, the server's parser accepts the request of the client exactly when the method is \<open>GET\<close> and
  the version is set to HTTP/1.1 (option \<open>-2\<close>): then it delivers the path and query of the URL with the three header lines
  and closes the connection afterwards.  The requests of the default version HTTP/1.0, of HTTP/0.9 and of the
  other methods are answered 400.\<close>

theorem webbench_needs_http11:
  assumes "wb_proxyhost g = None" "wb_http10 g \<in> {0, 1, 2}" "wb_url True url = Some (h, p, path)"
    "length h < MAXHOSTNAMELEN" "case p of None \<Rightarrow> True | Some t \<Rightarrow> length t < 10"
    "wf_target path" "list_all (\<lambda>c. plain c \<and> nonws c) h"
    "build_request url g = Inr g'" "loaded (wb_request g') c" "process_read c = (ret, c')"
  shows "if wb_method g = METHOD_GET \<and> wb_http10 g = 2
    then ret = GET_REQUEST \<and> \<not> m_linger c' \<and> m_request c' = (set_target GET path http_request_new)\<lparr>req_headers :=
        [''User-Agent'' \<mapsto> ''WebBench 1.5'', ''Host'' \<mapsto> h, ''Connection'' \<mapsto> ''close'']\<rparr>
    else ret = BAD_REQUEST"
proof -
  let ?g = "wb_adjust_http g"
  have req: "wb_request g' = wb_text ?g path h"
    using build_request_accepts [OF assms(1,3-5)] assms(8) by auto
  have ag: "agrees (spec_run 0 initial_pstate (wb_text ?g path h)) ret c'"
    using process_read_agrees [OF _ assms(10)] loaded_between [OF assms(9)] assms(9) by (simp add: loaded_def req)
  have h: "list_all plain h" "h \<noteq> [] \<longrightarrow> nonws (hd h)"
    using assms(7) by (cases h; auto elim: list.pred_mono_strong)+
  show ?thesis
  proof (cases "wb_method g = METHOD_GET \<and> wb_http10 g = 2")
    case True
    then have "wb_http10 ?g = 2" by (simp add: wb_adjust_http_def Let_def)
    moreover have "length (wb_text ?g path h) < READ_BUFFER_SIZE"
      using wb_text_length [of ?g path h] wb_url_length(2) [OF assms(3)] by (simp add: READ_BUFFER_SIZE_def split: if_splits)
    ultimately obtain q pos where "spec_run 0 initial_pstate (wb_text ?g path h) = Done GET_REQUEST q pos []"
      "p_req q = (set_target GET path http_request_new)\<lparr>req_headers :=
        [''User-Agent'' \<mapsto> ''WebBench 1.5'', ''Host'' \<mapsto> h, ''Connection'' \<mapsto> ''close'']\<rparr>" "\<not> p_linger q"
      using spec_run_http11 [OF assms(6) h, of ?g] True assms(1) by auto
    with ag True show ?thesis by (auto simp: agrees_def)
  next
    case False
    define v where "v = (if wb_http10 ?g = 1 then '' HTTP/1.0'' else if wb_http10 ?g = 2 then '' HTTP/1.1'' else [])"
    obtain r where wire: "wb_text ?g path h = (wb_method_text (wb_method g) @ '' '' @ path @ v) @ CR # LF # r"
      by (simp add: wb_text_def v_def)
    have "wb_method g \<noteq> METHOD_GET \<or> v = [] \<or> v = '' HTTP/1.0''" "v \<in> {[], '' HTTP/1.0'', '' HTTP/1.1''}"
      using False assms(1,2) by (auto simp: v_def wb_adjust_http_def Let_def)
    note refused = request_line_refused [OF assms(6) this]
    have "spec_run 0 initial_pstate (wb_text ?g path h) = Done BAD_REQUEST initial_pstate
        (length (wb_method_text (wb_method g) @ '' '' @ path @ v) + 2) r"
      using spec_run_request_line [OF _ next_line_plain [OF refused(1)], of initial_pstate 0 r]
        text_of_plain [OF refused(1)] refused(2) unfolding wire by (simp add: initial_pstate_def)
    with ag show ?thesis unfolding if_not_P [OF False] by (simp add: agrees_def)
  qed
qed

text \<open>The command of the repository's documents, \<open>webbench -c 500 -t 10 http://127.0.0.1:9006/<code>\<close>, measures
  how fast the server answers 400.\<close>

theorem webbench_needs_http11_witness:
  "\<exists>g' c'. wb_main [OptChar CHR ''c'' ''500'', OptChar CHR ''t'' ''10''] [''http://127.0.0.1:9006/abc''] = Inr g'
     \<and> process_read (store_received (wb_request g') (conn_init 7 0 blank)) = (BAD_REQUEST, c')"
proof -
  let ?url = "''http://127.0.0.1:9006/abc''"
  define g where "g = webbench_new\<lparr>wb_clients := 500, wb_benchtime := 10\<rparr>"
  have g: "wb_main [OptChar CHR ''c'' ''500'', OptChar CHR ''t'' ''10''] [?url] = build_request ?url g"
    "wb_proxyhost g = None" "wb_http10 g \<in> {0, 1, 2}" "\<not> (wb_method g = METHOD_GET \<and> wb_http10 g = 2)"
    by (simp_all add: wb_main_def g_def webbench_new_def wb_defaults_def)
      (simp add: atoi_def dec_value_def digit_value_def is_digit_def)
  have url: "wb_url True ?url = Some (''127.0.0.1'', Some ''9006'', ''/abc'')" by code_simp
  have parts: "length ''127.0.0.1'' < MAXHOSTNAMELEN" "case Some ''9006'' of None \<Rightarrow> True | Some t \<Rightarrow> length t < 10"
    "wf_target ''/abc''" "list_all (\<lambda>c. plain c \<and> nonws c) ''127.0.0.1''" by code_simp+
  obtain g' where g': "build_request ?url g = Inr g'" "wb_request g' = wb_text (wb_adjust_http g) ''/abc'' ''127.0.0.1''"
    using build_request_accepts [OF g(2) url parts(1,2)] by simp
  have "length (wb_request g') \<le> READ_BUFFER_SIZE"
    using wb_text_length [of "wb_adjust_http g" "''/abc''" "''127.0.0.1''"] g'(2) by (simp add: READ_BUFFER_SIZE_def split: if_splits)
  then have ld: "loaded (wb_request g') (store_received (wb_request g') (conn_init 7 0 blank))"
    using store_received_loaded [OF conn_init_loaded, of "wb_request g'"] by simp
  obtain ret c' where pr: "process_read (store_received (wb_request g') (conn_init 7 0 blank)) = (ret, c')"
    by (cases "process_read (store_received (wb_request g') (conn_init 7 0 blank))")
  from webbench_needs_http11 [OF g(2,3) url parts g'(1) ld pr] have "ret = BAD_REQUEST" unfolding if_not_P [OF g(4)] .
  with g(1) g'(1) pr show ?thesis by auto
qed

section \<open>The counters\<close>

text \<open>Every turn of a client before the alarm is counted once, as a page or as a failure; the last failure, if
  there was one, is taken back.\<close>

lemma benchcore_counts:
  assumes "benchcore as g = Some g'"
  shows "\<exists>f. f \<ge> wb_failed g \<and> wb_speed g' + f = wb_speed g + wb_failed g + int (length (takeWhile (\<lambda>a. \<not> at_expired a) as))
    \<and> wb_failed g' = (if f > 0 then f - 1 else f)"
  using assms
proof (induction as arbitrary: g)
  case (Cons a as)
  show ?case
  proof (cases "at_expired a")
    case True
    with Cons.prems show ?thesis by (intro exI [of _ "wb_failed g"]) auto
  next
    case False
    from Cons.prems False obtain g1 where g1: "benchcore as g1 = Some g'" "wb_speed g1 + wb_failed g1 = wb_speed g + wb_failed g + 1"
      "wb_failed g \<le> wb_failed g1" by (auto split: if_splits option.splits prod.splits bool.splits)
    from Cons.IH [OF g1(1)] obtain f where "f \<ge> wb_failed g1"
      "wb_speed g' + f = wb_speed g1 + wb_failed g1 + int (length (takeWhile (\<lambda>a. \<not> at_expired a) as))"
      "wb_failed g' = (if f > 0 then f - 1 else f)" by blast
    with g1(2,3) False show ?thesis by (intro exI [of _ f]) simp
  qed
qed simp

text \<open>When every child reports, the parent adds the reports up, and what \<open>bench\<close> returns, the exit code of the
  program, is the page count of the child it read last.\<close>

lemma parent_loop_sums:
  assumes "rs \<noteq> []" "wb_clients g = int (length rs)" "\<forall>(n, i', j', k') \<in> set rs. n = 3"
  shows "\<exists>g'. parent_loop rs i k g = Some (fst (snd (last rs)), g')
    \<and> wb_speed g' = wb_speed g + sum_list (map (\<lambda>(n, i', j', k'). i') rs)
    \<and> wb_failed g' = wb_failed g + sum_list (map (\<lambda>(n, i', j', k'). j') rs)
    \<and> wb_bytes g' = wb_bytes g + sum_list (map (\<lambda>(n, i', j', k'). k') rs)"
  using assms
proof (induction rs arbitrary: i k g)
  case (Cons r rs)
  obtain i' j' k' where r: "r = (3, i', j', k')" using Cons.prems(3) by (cases r) auto
  let ?g = "g\<lparr>wb_speed := wb_speed g + i', wb_failed := wb_failed g + j', wb_bytes := wb_bytes g + k', wb_clients := wb_clients g - 1\<rparr>"
  show ?case
  proof (cases "rs = []")
    case True
    with Cons.prems r show ?thesis by (simp add: Let_def)
  next
    case False
    from Cons.IH [OF this, of ?g i' k'] Cons.prems r False show ?thesis by (auto simp: Let_def)
  qed
qed simp

lemma bench_exit_code:
  assumes "0 \<le> env_socket env" "env_pipe env = 0" "env_fdopen env" "0 < snd (fork_loop 0 (wb_clients g) (env_forks env) 0)"
    "env_reports env \<noteq> []" "wb_clients g = int (length (env_reports env))" "\<forall>(n, i', j', k') \<in> set (env_reports env). n = 3"
  shows "\<exists>g'. bench env g = Some (fst (snd (last (env_reports env))), g', [])
    \<and> wb_speed g' = sum_list (map (\<lambda>(n, i', j', k'). i') (env_reports env))
    \<and> wb_failed g' = sum_list (map (\<lambda>(n, i', j', k'). j') (env_reports env))"
proof -
  obtain i pid where f: "fork_loop 0 (wb_clients g) (env_forks env) 0 = (i, pid)"
    by (cases "fork_loop 0 (wb_clients g) (env_forks env) 0")
  from parent_loop_sums [OF assms(5) _ assms(7), of "g\<lparr>wb_speed := 0, wb_failed := 0, wb_bytes := 0\<rparr>" i 0] assms(6)
  obtain g' where "parent_loop (env_reports env) i 0 (g\<lparr>wb_speed := 0, wb_failed := 0, wb_bytes := 0\<rparr>)
      = Some (fst (snd (last (env_reports env))), g')"
    "wb_speed g' = sum_list (map (\<lambda>(n, i', j', k'). i') (env_reports env))"
    "wb_failed g' = sum_list (map (\<lambda>(n, i', j', k'). j') (env_reports env))" by auto
  with assms(1-4) f show ?thesis by (simp add: bench_def)
qed

end
