(* ===== verification/Spec2Isabelle.thy ===== *)
theory Spec2Isabelle
  imports Prelude Base62 Snowflake Bloom_Filter Config Shard_Router Protocol_Utils Http_Message
    Router Http_Conn Http_Parser Http_Session Http_Lifecycle Local_Cache Single_Flight Conn_Pool Bounded_Fifo
    Block_Queue Log Thread_Pool Timer_List Short_Url_Cache Repository Click_Producer
    Short_Url_Handler Metrics Structured_Logger App_Routes
    Web_Server Event_Loop Main_Program Locks Queue_Monitor Webbench
begin

text \<open>
  A verification library for a URL shortener written in C++ (\<open>src/\<close>).

  \<^bold>\<open>The program.\<close>  One event-loop thread (\<open>webserver.cpp\<close>) owns every socket: it accepts, reads and writes, keeps a
  timer per connection and hands connections with input to a pool of worker threads.  A worker parses the request
  (\<open>http/http_conn.cpp\<close>), dispatches it through the route table (\<open>http/router.cpp\<close>) to a handler
  (\<open>handler/\<close>) and leaves the response in the connection for the event loop to send.  \<open>POST /api/shorten\<close> mints a code
  (Snowflake id in base 62) and stores it in the MySQL table its hash selects; \<open>GET /{code}\<close> looks it up in the Bloom
  filter, the local cache, Redis and MySQL, in this order, with one lookup in flight per code.  Clicks, access-log
  lines and counters leave the request path through bounded queues and sharded counters.  Beside the server stands the
  benchmark client \<open>test_pressure/webbench-1.5\<close>.

  \<^bold>\<open>Theories and sources.\<close>

  \<^item> \<open>Prelude\<close>: words, decimal printing, the FNV-1a loop, case-insensitive comparison, exceptions as values,
    generic lemmas.
  \<^item> \<open>Base62\<close> (\<open>shorturl/base62\<close>), \<open>Snowflake\<close> (\<open>shorturl/snowflake\<close>), \<open>Bloom_Filter\<close>
    (\<open>shorturl/bloom_filter\<close>), \<open>Shard_Router\<close> (\<open>shorturl/shard_router\<close>), \<open>Config\<close> (\<open>config/config\<close>).
  \<^item> \<open>Protocol_Utils\<close> (\<open>http/protocol_utils.h\<close>), \<open>Http_Message\<close> (\<open>http/request.h\<close>, \<open>response\<close>), \<open>Router\<close>
    (\<open>http/router\<close>), \<open>Http_Conn\<close> (\<open>http/http_conn\<close>: buffers, parser, reading, writing, the worker's entry).
    \<open>Http_Parser\<close>, \<open>Http_Session\<close> and \<open>Http_Lifecycle\<close> hold what is proved of the connection.
  \<^item> \<open>Local_Cache\<close> and \<open>Short_Url_Cache\<close> (\<open>shorturl/short_url_cache\<close>), \<open>Single_Flight\<close>
    (\<open>shorturl/singleflight\<close>), \<open>Repository\<close> (\<open>shorturl/short_url_repository\<close>), \<open>Conn_Pool\<close>
    (\<open>CGImysql/sql_connection_pool\<close>), \<open>Short_Url_Handler\<close>
    (\<open>handler/short_url_handler.cpp\<close>), \<open>App_Routes\<close> (the other handlers and the registration).
  \<^item> \<open>Bounded_Fifo\<close>: the contract of the program's queues, interpreted by \<open>Block_Queue\<close> (\<open>log/block_queue.h\<close>),
    \<open>Thread_Pool\<close> (\<open>threadpool/threadpool.h\<close>), \<open>Click_Producer\<close> (\<open>analytics/click_event_producer\<close>) and
    \<open>Structured_Logger\<close> (\<open>observability/structured_logger\<close>).  \<open>Log\<close> (\<open>log/log\<close>) uses the first.
  \<^item> \<open>Locks\<close> (\<open>lock/locker.h\<close>): semaphore, mutex and condition variable, with the contract \<open>monitor_client\<close> of a
    program that uses a mutex and a condition variable; \<open>Queue_Monitor\<close> interprets it for the threads inside
    \<open>push\<close> and \<open>pop\<close> of \<open>log/block_queue.h\<close>, and \<open>Single_Flight\<close> for the waiters of a call.
  \<^item> \<open>Metrics\<close> (\<open>observability/metrics_registry\<close>).
  \<^item> \<open>Timer_List\<close> (\<open>timer/lst_timer\<close>), \<open>Web_Server\<close> (\<open>webserver\<close>, \<open>Utils\<close> and \<open>cb_func\<close>) and
    \<open>Event_Loop\<close>, which holds what is proved of it; \<open>Main_Program\<close> (\<open>main.cpp\<close> and the warm-up).
  \<^item> \<open>Webbench\<close> (\<open>test_pressure/webbench-1.5\<close>: \<open>webbench.c\<close>, \<open>socket.c\<close>), joined to the server's parser.

  \<^bold>\<open>How code becomes definitions.\<close>  A class is a record, a method a function that takes and returns it; a method that
  can throw returns \<open>exn + 'a\<close>; a call that can block, or an access outside an array or through a dangling pointer, is
  the value \<open>None\<close>.  64-bit counters and hashes are words, so that they wrap as in C++; C \<open>int\<close>s are integers
  where they stay far below their range.  Buffers are functions on indices with the sizes of the source; the nodes of
  the timer list are in an explicit heap.  Threads are cut at their locks: \<open>sf_step\<close>, \<open>pool_step\<close>, \<open>tp_step\<close> and \<open>bq_step\<close>
  are step relations over all threads, \<open>worker_step\<close> is one worker of \<open>http_conn::process\<close> among threads that may do anything to
  its slot, elsewhere the interleaving is a list of operations.  What the program only
  calls is a parameter with the documented behaviour as hypotheses: the JSON library, yaml-cpp, the Redis, Kafka and
  MySQL clients, clocks, random draws, the arithmetic of \<open>double\<close> in the metrics, and the results of system calls.

  \<^bold>\<open>What is shown.\<close>

  \<^item> Parsing: the in-place parser of \<open>process_read\<close> is the line-by-line specification \<open>spec_run\<close> whatever the
    buffer holds (\<open>process_read_refines\<close>); pipelined well-formed requests are all served in order; the cut into
    packets does not matter for heads; no index leaves the buffers; a response is sent exactly.  A worker whose slot was
    closed or reused arms nothing and leaves the output of the slot alone, unless the close falls between a test of the
    generation and the statement it guards (\<open>stale_worker_silent\<close>); for those windows the races are proved
    (\<open>check_to_modfd_race\<close>, \<open>check_to_write_race\<close>).  Two flaws of the state machine are proved as such (\<open>split_body_stalls\<close>, \<open>bad_line_repeats\<close>).
  \<^item> Codes: ids of one generator are distinct, those of different workers too; base 62 is invertible; \<open>next_id\<close>
    returns when the clock moves.
  \<^item> Lookups: the local cache returns only what was stored and keeps to its budget, one loader runs per key, waiters
    get its result and none is left asleep, connections are exclusive, origin budgets and connections are given back on every path, Redis
    values decode to what was encoded, redirects carry only safe locations, a created URL is served, stored codes pass
    the Bloom filter after warm-up.
  \<^item> Settings: a configuration file is loaded whole or not at all, and whole exactly when its values have the types of
    the fields.
  \<^item> Queues, logs and counters: each queue is a bounded first-in first-out queue, the blocking one under any
    interleaving and without lost wake-ups; the clicks accepted are in order those handed over, in hand and queued, and no log
    line is lost uncounted; sharding of the counters is invisible; a log line never leaves its buffer if that is
    larger than the header of the line, and does so if it is not (\<open>write_log_in_buffer\<close>).
  \<^item> Server: the pointer list of timers is the ordered list; in every run of the event loop the open descriptors are
    those of the live slots, each with its timer, and shutdown releases all of them.
  \<^item> Benchmark client: the request it builds is the text its options ask for and fits its array; the server accepts
    it only with HTTP/1.1, which is not its default.

  \<^bold>\<open>Loops.\<close>  \<open>wait_next_second\<close> and the loops over the timer list are partial functions into
  \<open>option\<close>: their theorems include that they return.  Loops that wait for the world (\<open>probe_loop\<close>,
  \<open>click_worker_run\<close>, \<open>slog_worker_run\<close>, \<open>run_turns\<close>, \<open>timedwait_loop\<close>, \<open>benchcore\<close>) recurse over the list of what the world does, and end with
  it; where a theorem says that they finish, it states how long a list is enough.  Everything else is structural
  recursion or has a measure.

  \<^bold>\<open>Not modelled.\<close>  Destructors of \<open>lock/locker.h\<close> and failures of its calls that POSIX excludes for correct use;
  accessors that only return a field; the lines that \<open>LOG_INFO\<close> and \<open>LOG_ERROR\<close> write from the event loop, client
  addresses and request durations, on which nothing depends; the builds without redis++ or librdkafka, which only
  drop code; weak memory: atomics are sequentially consistent; a change of \<open>redis_available\<close> between the
  two readings of one request; \<open>DestroyPool\<close> while a worker asks for a connection (the workers are joined before); the rates that \<open>webbench\<close> prints, computed
  in floating point, and its usage text.  Outside the program: the tests, the Python consumer and load drivers, the vendored JSON library, SQL schemas and build files.
\<close>

end
